(* ===== verification/Prelude.thy ===== *)
theory Prelude
  imports Main "HOL-Library.Word" "HOL-Library.List_Lexorder"
begin

text \<open>
  The shared vocabulary of the development: the Rust notions every component uses, and the generic
  lemmas about them.

  \<^item> machine integers and byte strings: \<open>u16\<close>, \<open>u32\<close>, \<open>u64\<close>, \<open>bytes\<close>, big-endian encoding;
  \<^item> Rust's \<open>Result\<close> (extended by the outcome of a panic) and the question mark operator on a
    computation that also returns the mutated \<open>self\<close>;
  \<^item> integer addition as the build profile has it: the \<open>dev\<close> profile panics on overflow, the
    \<open>release\<close> profile wraps;
  \<^item> \<open>String\<close> as a list of Unicode scalar values, UTF-8, \<open>trim\<close>, \<open>to_lowercase\<close> and the ASCII
    classes.

  The collections \<open>result_simps\<close> and \<open>rust_simps\<close> gather the rewrite rules the component proofs
  share.
\<close>

unbundle bit_operations_syntax

named_theorems result_simps \<open>evaluation of the question mark operator\<close>
named_theorems rust_simps \<open>evaluation of the Rust primitives\<close>

section \<open>Integers and bytes\<close>

type_synonym u16 = "16 word"
type_synonym u32 = "32 word"
type_synonym u64 = "64 word"
type_synonym byte = "8 word"
type_synonym bytes = "byte list"

text \<open>\<open>checked_add\<close> of the standard library.\<close>

definition add_overflows :: "'a::len word \<Rightarrow> 'a word \<Rightarrow> bool" where
  "add_overflows a b \<longleftrightarrow> 2 ^ LENGTH('a) \<le> unat a + unat b"

definition checked_add :: "'a::len word \<Rightarrow> 'a word \<Rightarrow> 'a word option" where
  "checked_add a b = (if add_overflows a b then None else Some (a + b))"

text \<open>
  The plain \<open>+\<close> of Rust: with overflow checks on (the \<open>dev\<close> profile) an overflow panics, which is
  \<open>None\<close> here; with the checks off (the \<open>release\<close> profile) the sum wraps.
\<close>

definition rust_add :: "bool \<Rightarrow> 'a::len word \<Rightarrow> 'a word \<Rightarrow> 'a word option" where
  "rust_add overflow_checks a b =
     (if overflow_checks \<and> add_overflows a b then None else Some (a + b))"

text \<open>\<open>to_be_bytes\<close> of an integer of \<open>n\<close> bytes.\<close>

definition be_bytes :: "nat \<Rightarrow> 'a::len word \<Rightarrow> bytes" where
  "be_bytes n w = map (\<lambda>i. ucast (drop_bit (8 * i) w)) (rev [0..<n])"

lemma length_be_bytes [simp]: "length (be_bytes n w) = n"
  by (simp add: be_bytes_def)

lemma be_bytes_nth_eq:
  assumes "be_bytes n v = be_bytes n w" and "i < n"
  shows "(ucast (drop_bit (8 * i) v) :: byte) = ucast (drop_bit (8 * i) w)"
proof -
  have "\<forall>j \<in> set (rev [0..<n]).
      (ucast (drop_bit (8 * j) v) :: byte) = ucast (drop_bit (8 * j) w)"
    using assms(1) unfolding be_bytes_def by (simp only: map_eq_conv)
  then show ?thesis using assms(2) by simp
qed

lemma be_bytes_inj:
  fixes v w :: "'a::len word"
  assumes eq: "be_bytes n v = be_bytes n w" and width: "LENGTH('a) \<le> 8 * n"
  shows "v = w"
proof (rule bit_word_eqI)
  fix k
  assume k: "k < LENGTH('a)"
  define i where "i = k div 8"
  define j where "j = k mod 8"
  have kij: "k = 8 * i + j" and j: "j < 8" by (simp_all add: i_def j_def)
  have "i < n" using k width kij j by linarith
  from be_bytes_nth_eq [OF eq this]
  have "bit (ucast (drop_bit (8 * i) v) :: byte) j = bit (ucast (drop_bit (8 * i) w) :: byte) j"
    by simp
  then show "bit v k = bit w k"
    using j k by (simp add: bit_ucast_iff bit_drop_bit_eq kij)
qed

lemma unat_less_exp: "unat (w :: 'a::len word) < 2 ^ LENGTH('a)"
  by (rule unsigned_less)

lemma unat_add_one:
  fixes a :: "'a::len word"
  shows "\<not> add_overflows a 1 \<Longrightarrow> unat (a + 1) = unat a + 1"
  by (simp add: add_overflows_def unat_word_ariths)

lemma add_overflows_one_iff:
  fixes a :: "'a::len word"
  shows "add_overflows a 1 \<longleftrightarrow> a = - 1"
proof -
  have "unat a < 2 ^ LENGTH('a)" by (rule unsigned_less)
  then have "add_overflows a 1 \<longleftrightarrow> unat a = 2 ^ LENGTH('a) - 1"
    unfolding add_overflows_def by (simp; linarith)
  also have "\<dots> \<longleftrightarrow> a = - 1"
    by (metis unsigned_minus_1_eq_mask mask_eq_exp_minus_1 word_unat_eq_iff)
  finally show ?thesis .
qed

lemma rust_add_one_Some_iff:
  "rust_add chk a 1 = Some b \<longleftrightarrow> \<not> (chk \<and> a = - 1) \<and> b = a + 1"
  by (auto simp: rust_add_def add_overflows_one_iff)

lemma rust_add_one_None_iff: "rust_add chk a 1 = None \<longleftrightarrow> chk \<and> a = - 1"
  by (simp add: rust_add_def add_overflows_one_iff)

section \<open>Results and the question mark operator\<close>

text \<open>
  \<open>Result\<close> with one more outcome: the computation panics. A method with \<open>&mut self\<close> is a function
  from the state to its result and the state it leaves behind, whatever the result is: a mutation
  made before an early return stays visible.
\<close>

datatype ('a, 'e) result = Ok 'a | Err 'e | Panic

definition and_then ::
  "('a, 'e) result \<times> 's \<Rightarrow> ('a \<Rightarrow> 's \<Rightarrow> ('b, 'e) result \<times> 's) \<Rightarrow> ('b, 'e) result \<times> 's" where
  "and_then r k = (case r of
      (Ok x, s) \<Rightarrow> k x s
    | (Err e, s) \<Rightarrow> (Err e, s)
    | (Panic, s) \<Rightarrow> (Panic, s))"

definition ok_or :: "'a option \<Rightarrow> 'e \<Rightarrow> ('a, 'e) result" where
  "ok_or v e = (case v of None \<Rightarrow> Err e | Some x \<Rightarrow> Ok x)"

text \<open>The conversion \<open>From\<close> that the question mark operator applies to an error.\<close>

definition map_err :: "('e \<Rightarrow> 'f) \<Rightarrow> ('a, 'e) result \<Rightarrow> ('a, 'f) result" where
  "map_err f r = (case r of Ok x \<Rightarrow> Ok x | Err e \<Rightarrow> Err (f e) | Panic \<Rightarrow> Panic)"

definition is_ok :: "('a, 'e) result \<Rightarrow> bool" where
  "is_ok r = (case r of Ok x \<Rightarrow> True | _ \<Rightarrow> False)"

lemma and_then_Ok [simp, result_simps]: "and_then (Ok x, s) k = k x s"
  and and_then_Err [simp, result_simps]: "and_then (Err e, s) k = (Err e, s)"
  and and_then_Panic [simp, result_simps]: "and_then (Panic, s) k = (Panic, s)"
  by (simp_all add: and_then_def)

lemma and_then_eq_Ok_iff:
  "and_then r k = (Ok y, t) \<longleftrightarrow> (\<exists>x s. r = (Ok x, s) \<and> k x s = (Ok y, t))"
  by (cases r; cases "fst r") auto

lemma and_then_eq_Err_iff:
  "and_then r k = (Err e, t) \<longleftrightarrow>
     r = (Err e, t) \<or> (\<exists>x s. r = (Ok x, s) \<and> k x s = (Err e, t))"
  by (cases r; cases "fst r") auto

lemma fst_and_then_Panic_iff:
  "fst (and_then r k) = Panic \<longleftrightarrow>
     fst r = Panic \<or> (\<exists>x s. r = (Ok x, s) \<and> fst (k x s) = Panic)"
  by (cases r; cases "fst r") auto

lemma ok_or_simps [simp, result_simps]:
  "ok_or None e = Err e" "ok_or (Some x) e = Ok x"
  by (simp_all add: ok_or_def)

lemma ok_or_eq_iff [simp]:
  "ok_or v e = Ok x \<longleftrightarrow> v = Some x"
  "ok_or v e = Err e' \<longleftrightarrow> v = None \<and> e' = e"
  "ok_or v e \<noteq> Panic"
  by (auto simp: ok_or_def split: option.splits)

lemma map_err_simps [simp, result_simps]:
  "map_err f (Ok x) = Ok x" "map_err f (Err e) = Err (f e)" "map_err f Panic = Panic"
  by (simp_all add: map_err_def)

lemma map_err_eq_iff [simp]:
  "map_err f r = Ok x \<longleftrightarrow> r = Ok x"
  "map_err f r = Panic \<longleftrightarrow> r = Panic"
  "map_err f r = Err e' \<longleftrightarrow> (\<exists>e. r = Err e \<and> e' = f e)"
  by (auto simp: map_err_def split: result.splits)

lemma is_ok_simps [simp, result_simps]:
  "is_ok (Ok x)" "\<not> is_ok (Err e)" "\<not> is_ok Panic"
  by (simp_all add: is_ok_def)

lemma is_ok_iff: "is_ok r \<longleftrightarrow> (\<exists>x. r = Ok x)"
  by (cases r) auto

text \<open>
  A relation between the state before and the state after that both halves of a sequenced
  computation keep is kept by their composition: the rule every frame and invariant lemma about
  the question mark operator is an instance of.
\<close>

lemma and_then_state:
  assumes "R s (snd r)"
    and "\<And>x t. r = (Ok x, t) \<Longrightarrow> R s (snd (k x t))"
  shows "R s (snd (and_then r k))"
  using assms by (cases r; cases "fst r") auto

section \<open>Strings\<close>

text \<open>
  A Rust \<open>char\<close> is a Unicode scalar value held in 32 bits and a \<open>String\<close> is a sequence of them;
  \<open>chars().count()\<close> is the length of the list and \<open>len()\<close> the length of its UTF-8 encoding.
  Literals are written \<open>str ''abc''\<close>, byte string literals \<open>byte_str ''abc''\<close>.
\<close>

type_synonym uchar = "32 word"
type_synonym ustring = "uchar list"

definition str :: "string \<Rightarrow> ustring" where
  "str cs = map of_char cs"

definition byte_str :: "string \<Rightarrow> bytes" where
  "byte_str cs = map of_char cs"

definition utf8_encode_char :: "uchar \<Rightarrow> bytes" where
  "utf8_encode_char c =
     (if c < 0x80 then [ucast c]
      else if c < 0x800 then
        [0xC0 OR ucast (drop_bit 6 c), 0x80 OR ucast (c AND 0x3F)]
      else if c < 0x10000 then
        [0xE0 OR ucast (drop_bit 12 c), 0x80 OR ucast (drop_bit 6 c AND 0x3F),
         0x80 OR ucast (c AND 0x3F)]
      else
        [0xF0 OR ucast (drop_bit 18 c), 0x80 OR ucast (drop_bit 12 c AND 0x3F),
         0x80 OR ucast (drop_bit 6 c AND 0x3F), 0x80 OR ucast (c AND 0x3F)])"

definition as_bytes :: "ustring \<Rightarrow> bytes" where
  "as_bytes s = concat (map utf8_encode_char s)"

definition is_ascii :: "ustring \<Rightarrow> bool" where
  "is_ascii s \<longleftrightarrow> (\<forall>c \<in> set s. c < 0x80)"

lemma as_bytes_ascii: "is_ascii s \<Longrightarrow> as_bytes s = map ucast s"
  by (induction s) (simp_all add: is_ascii_def as_bytes_def utf8_encode_char_def)

lemma length_as_bytes_ascii: "is_ascii s \<Longrightarrow> length (as_bytes s) = length s"
  by (simp add: as_bytes_ascii)

lemma ucast_ascii_inj:
  assumes "(c::uchar) < 0x80" and "d < 0x80" and "(ucast c :: byte) = ucast d"
  shows "c = d"
proof -
  have "unat c < 128" "unat d < 128"
    using assms(1,2) by (simp_all add: word_less_nat_alt)
  moreover have "unat (ucast c :: byte) = unat (ucast d :: byte)" using assms(3) by simp
  ultimately have "unat c = unat d"
    by (simp add: unsigned_ucast_eq take_bit_eq_mod)
  then show ?thesis by (simp add: word_unat_eq_iff)
qed

lemma as_bytes_ascii_inj:
  assumes "is_ascii s" and "is_ascii t" and "as_bytes s = as_bytes t"
  shows "s = t"
proof -
  have "map (ucast :: uchar \<Rightarrow> byte) s = map ucast t" using assms by (simp add: as_bytes_ascii)
  moreover have "inj_on (ucast :: uchar \<Rightarrow> byte) (set s \<union> set t)"
    using assms(1,2) by (auto simp: inj_on_def is_ascii_def intro: ucast_ascii_inj)
  ultimately show ?thesis by (simp add: inj_on_map_eq_map)
qed

subsection \<open>Character classes and \<open>trim\<close>\<close>

definition is_ascii_digit :: "uchar \<Rightarrow> bool" where
  "is_ascii_digit c \<longleftrightarrow> 48 \<le> c \<and> c \<le> 57"

definition is_ascii_uppercase :: "uchar \<Rightarrow> bool" where
  "is_ascii_uppercase c \<longleftrightarrow> 65 \<le> c \<and> c \<le> 90"

definition is_ascii_lowercase :: "uchar \<Rightarrow> bool" where
  "is_ascii_lowercase c \<longleftrightarrow> 97 \<le> c \<and> c \<le> 122"

definition is_ascii_alphanumeric :: "uchar \<Rightarrow> bool" where
  "is_ascii_alphanumeric c \<longleftrightarrow>
     is_ascii_digit c \<or> is_ascii_uppercase c \<or> is_ascii_lowercase c"

definition is_ascii_hexdigit :: "uchar \<Rightarrow> bool" where
  "is_ascii_hexdigit c \<longleftrightarrow>
     is_ascii_digit c \<or> (65 \<le> c \<and> c \<le> 70) \<or> (97 \<le> c \<and> c \<le> 102)"

text \<open>The Unicode property \<open>White_Space\<close>, which \<open>str::trim\<close> strips on both sides.\<close>

definition is_whitespace :: "uchar \<Rightarrow> bool" where
  "is_whitespace c \<longleftrightarrow>
     (0x9 \<le> c \<and> c \<le> 0xD) \<or> c = 0x20 \<or> c = 0x85 \<or> c = 0xA0 \<or> c = 0x1680 \<or>
     (0x2000 \<le> c \<and> c \<le> 0x200A) \<or> c = 0x2028 \<or> c = 0x2029 \<or> c = 0x202F \<or>
     c = 0x205F \<or> c = 0x3000"

definition trim :: "ustring \<Rightarrow> ustring" where
  "trim s = rev (dropWhile is_whitespace (rev (dropWhile is_whitespace s)))"

text \<open>
  \<open>str::to_lowercase\<close>. ASCII letters are mapped here. The Unicode table for the other characters
  is the parameter \<open>ulower\<close>: it gets the text before and after the character as well, because
  the mapping of the Greek capital sigma depends on its position.
\<close>

type_synonym unicode_lower = "ustring \<Rightarrow> uchar \<Rightarrow> ustring \<Rightarrow> ustring"

fun to_lowercase_from :: "unicode_lower \<Rightarrow> ustring \<Rightarrow> ustring \<Rightarrow> ustring" where
  "to_lowercase_from ulower pre [] = []"
| "to_lowercase_from ulower pre (c # cs) =
     (if c < 0x80 then [if is_ascii_uppercase c then c + 32 else c] else ulower pre c cs)
     @ to_lowercase_from ulower (pre @ [c]) cs"

definition to_lowercase :: "unicode_lower \<Rightarrow> ustring \<Rightarrow> ustring" where
  "to_lowercase ulower s = to_lowercase_from ulower [] s"

section \<open>Splitting at a separator\<close>

lemma append_sep_inj:
  assumes "xs @ z # ys = xs' @ z # ys'" and "z \<notin> set xs" and "z \<notin> set xs'"
  shows "xs = xs' \<and> ys = ys'"
  using assms
proof (induction xs arbitrary: xs')
  case Nil
  then show ?case by (cases xs') auto
next
  case (Cons x xs)
  then show ?case by (cases xs') auto
qed

lemma append_same_length_inj:
  "xs @ ys = xs' @ ys' \<Longrightarrow> length ys = length ys' \<Longrightarrow> xs = xs' \<and> ys = ys'"
  by simp

section \<open>Hash maps\<close>

text \<open>\<open>HashMap::retain\<close> with a closure that looks at the key only.\<close>

definition retain :: "('k \<Rightarrow> bool) \<Rightarrow> ('k \<rightharpoonup> 'v) \<Rightarrow> ('k \<rightharpoonup> 'v)" where
  "retain keep m = (\<lambda>k. if keep k then m k else None)"

lemma retain_apply: "retain keep m k = (if keep k then m k else None)"
  by (simp add: retain_def)

lemma retain_Some_iff [simp]: "retain keep m k = Some v \<longleftrightarrow> keep k \<and> m k = Some v"
  by (simp add: retain_def)

end
