(* ===== verification/Types.thy ===== *)
theory Types
  imports Prelude
begin

text \<open>
  The typed values of the protocol, \<open>crates/chat-core/src/types.rs\<close>: the client identity and its
  validation, and the byte newtypes with their base64 wire form.

  A newtype over \<open>[u8; n]\<close> is a datatype over \<open>bytes\<close>; the length the Rust type guarantees is the
  predicate \<open>wf_\<dots>\<close> of the type. The base64 engine is a third-party crate: it is the parameter
  \<open>base64_engine\<close>, and what the code relies on is \<open>base64_roundtrip\<close>. A serializer is represented
  by the string given to \<open>serialize_str\<close>, a deserializer by the outcome of \<open>String::deserialize\<close>.
\<close>

section \<open>Client identities\<close>

definition CLIENT_ID_MAX_LEN :: nat where
  "CLIENT_ID_MAX_LEN = 64"

datatype type_error = EmptyClientId | ClientIdTooLong | ClientIdInvalidCharacter

datatype client_id = ClientId ustring

primrec as_str :: "client_id \<Rightarrow> ustring" where
  "as_str (ClientId s) = s"

definition is_allowed_client_id_char :: "uchar \<Rightarrow> bool" where
  "is_allowed_client_id_char c \<longleftrightarrow>
     is_ascii_alphanumeric c \<or> c = of_char CHR ''-'' \<or> c = of_char CHR ''_'' \<or> c = of_char CHR ''.''"

definition client_id_parse :: "ustring \<Rightarrow> (client_id, type_error) result" where
  "client_id_parse value =
     (if value = [] then Err EmptyClientId
      else if CLIENT_ID_MAX_LEN < length value then Err ClientIdTooLong
      else if \<not> list_all is_allowed_client_id_char value then Err ClientIdInvalidCharacter
      else Ok (ClientId value))"

definition client_id_try_from :: "ustring \<Rightarrow> (client_id, type_error) result" where
  "client_id_try_from value = client_id_parse value"

definition string_from_client_id :: "client_id \<Rightarrow> ustring" where
  "string_from_client_id c = as_str c"

text \<open>
  The field of \<open>ClientId\<close> is private and every constructor goes through \<open>parse\<close>: the identities a
  program can hold are those \<open>parse\<close> accepts.
\<close>

definition valid_client_id :: "client_id \<Rightarrow> bool" where
  "valid_client_id c \<longleftrightarrow> client_id_parse (as_str c) = Ok c"

lemma client_id_parse_Ok_iff:
  "client_id_parse s = Ok c \<longleftrightarrow>
     c = ClientId s \<and> s \<noteq> [] \<and> length s \<le> 64 \<and> (\<forall>x \<in> set s. is_allowed_client_id_char x)"
  by (auto simp: client_id_parse_def CLIENT_ID_MAX_LEN_def list_all_iff)

lemma valid_client_id_iff:
  "valid_client_id c \<longleftrightarrow>
     as_str c \<noteq> [] \<and> length (as_str c) \<le> 64 \<and>
     (\<forall>x \<in> set (as_str c). is_allowed_client_id_char x)"
  by (cases c) (simp add: valid_client_id_def client_id_parse_Ok_iff)

lemma client_id_parse_valid: "client_id_parse s = Ok c \<Longrightarrow> valid_client_id c"
  by (auto simp: valid_client_id_def client_id_parse_Ok_iff)

lemma allowed_char_bounds:
  "is_allowed_client_id_char x \<Longrightarrow> 45 \<le> x \<and> x \<le> 122"
  by (auto simp: is_allowed_client_id_char_def is_ascii_alphanumeric_def is_ascii_digit_def
      is_ascii_uppercase_def is_ascii_lowercase_def elim: order_trans [rotated] order_trans)

lemma allowed_char_ascii: "is_allowed_client_id_char x \<Longrightarrow> x < 0x80 \<and> x \<noteq> 0"
  using allowed_char_bounds [of x] by (auto simp: word_le_nat_alt word_less_nat_alt)

lemma valid_client_id_ascii: "valid_client_id c \<Longrightarrow> is_ascii (as_str c)"
  by (auto simp: valid_client_id_iff is_ascii_def dest: allowed_char_ascii)

lemma valid_client_id_bytes_nonzero:
  assumes "valid_client_id c"
  shows "0 \<notin> set (as_bytes (as_str c))"
proof
  assume "0 \<in> set (as_bytes (as_str c))"
  then obtain x where x: "x \<in> set (as_str c)" and z: "(ucast x :: byte) = ucast (0 :: uchar)"
    using valid_client_id_ascii [OF assms] by (auto simp: as_bytes_ascii)
  have "x < 0x80" "x \<noteq> 0"
    using assms x by (auto simp: valid_client_id_iff dest: allowed_char_ascii)
  with ucast_ascii_inj [of x 0] z show False by simp
qed

lemma valid_client_id_bytes_inj:
  assumes "valid_client_id c" and "valid_client_id d"
    and "as_bytes (as_str c) = as_bytes (as_str d)"
  shows "c = d"
proof -
  have "as_str c = as_str d"
    using assms by (auto intro: as_bytes_ascii_inj valid_client_id_ascii)
  then show ?thesis by (cases c; cases d) simp
qed

section \<open>Identifiers and byte newtypes\<close>

text \<open>
  A \<open>Uuid\<close> is 128 bits. The random generators are not modelled: \<open>MessageId::new\<close> and
  \<open>RekeyId::generate\<close> get the value the operating system drew as an argument.
\<close>

datatype message_id = MessageId "128 word"

definition message_id_new :: "128 word \<Rightarrow> message_id" where
  "message_id_new uuid = MessageId uuid"

definition message_id_default :: "128 word \<Rightarrow> message_id" where
  "message_id_default uuid = message_id_new uuid"

datatype public_key_bytes = PublicKeyBytes bytes
datatype nonce_bytes = NonceBytes bytes
datatype ciphertext = Ciphertext bytes
datatype rekey_id = RekeyId bytes

primrec public_key_as_array :: "public_key_bytes \<Rightarrow> bytes" where
  "public_key_as_array (PublicKeyBytes b) = b"

primrec nonce_as_array :: "nonce_bytes \<Rightarrow> bytes" where
  "nonce_as_array (NonceBytes b) = b"

primrec ciphertext_as_bytes :: "ciphertext \<Rightarrow> bytes" where
  "ciphertext_as_bytes (Ciphertext b) = b"

primrec rekey_id_as_array :: "rekey_id \<Rightarrow> bytes" where
  "rekey_id_as_array (RekeyId b) = b"

definition rekey_id_generate :: "bytes \<Rightarrow> rekey_id" where
  "rekey_id_generate random = RekeyId random"

definition wf_public_key :: "public_key_bytes \<Rightarrow> bool" where
  "wf_public_key k \<longleftrightarrow> length (public_key_as_array k) = 32"

definition wf_nonce :: "nonce_bytes \<Rightarrow> bool" where
  "wf_nonce n \<longleftrightarrow> length (nonce_as_array n) = 24"

definition wf_rekey_id :: "rekey_id \<Rightarrow> bool" where
  "wf_rekey_id r \<longleftrightarrow> length (rekey_id_as_array r) = 16"

section \<open>Base64 wire form\<close>

record base64_engine =
  b64_encode :: "bytes \<Rightarrow> ustring"
  b64_decode :: "bytes \<Rightarrow> bytes option"

text \<open>The documented contract of an engine: decoding what it encoded gives the bytes back.\<close>

definition base64_roundtrip :: "base64_engine \<Rightarrow> bool" where
  "base64_roundtrip b64 \<longleftrightarrow> (\<forall>b. b64_decode b64 (as_bytes (b64_encode b64 b)) = Some b)"

datatype de_error = NotAString | InvalidBase64 | Custom ustring

definition serialize_bytes_as_base64 :: "base64_engine \<Rightarrow> bytes \<Rightarrow> ustring" where
  "serialize_bytes_as_base64 b64 bs = b64_encode b64 bs"

definition deserialize_bytes_from_base64 ::
  "base64_engine \<Rightarrow> (ustring, de_error) result \<Rightarrow> (bytes, de_error) result" where
  "deserialize_bytes_from_base64 b64 deserializer = (case deserializer of
      Ok encoded \<Rightarrow> ok_or (b64_decode b64 (as_bytes encoded)) InvalidBase64
    | Err e \<Rightarrow> Err e
    | Panic \<Rightarrow> Panic)"

text \<open>\<open>try_into\<close> an array of \<open>n\<close> bytes, with the message of the custom error.\<close>

definition try_into_array ::
  "nat \<Rightarrow> ustring \<Rightarrow> (bytes, de_error) result \<Rightarrow> (bytes, de_error) result" where
  "try_into_array n msg r = (case r of
      Ok bs \<Rightarrow> if length bs = n then Ok bs else Err (Custom msg)
    | Err e \<Rightarrow> Err e
    | Panic \<Rightarrow> Panic)"

definition map_ok :: "('a \<Rightarrow> 'b) \<Rightarrow> ('a, 'e) result \<Rightarrow> ('b, 'e) result" where
  "map_ok f r = (case r of Ok x \<Rightarrow> Ok (f x) | Err e \<Rightarrow> Err e | Panic \<Rightarrow> Panic)"

definition serialize_public_key :: "base64_engine \<Rightarrow> public_key_bytes \<Rightarrow> ustring" where
  "serialize_public_key b64 k = serialize_bytes_as_base64 b64 (public_key_as_array k)"

definition deserialize_public_key ::
  "base64_engine \<Rightarrow> (ustring, de_error) result \<Rightarrow> (public_key_bytes, de_error) result" where
  "deserialize_public_key b64 d =
     map_ok PublicKeyBytes (try_into_array 32 (str ''public key must decode to exactly 32 bytes'')
       (deserialize_bytes_from_base64 b64 d))"

definition serialize_nonce :: "base64_engine \<Rightarrow> nonce_bytes \<Rightarrow> ustring" where
  "serialize_nonce b64 n = serialize_bytes_as_base64 b64 (nonce_as_array n)"

definition deserialize_nonce ::
  "base64_engine \<Rightarrow> (ustring, de_error) result \<Rightarrow> (nonce_bytes, de_error) result" where
  "deserialize_nonce b64 d =
     map_ok NonceBytes (try_into_array 24 (str ''nonce must decode to exactly 24 bytes'')
       (deserialize_bytes_from_base64 b64 d))"

definition serialize_ciphertext :: "base64_engine \<Rightarrow> ciphertext \<Rightarrow> ustring" where
  "serialize_ciphertext b64 c = serialize_bytes_as_base64 b64 (ciphertext_as_bytes c)"

definition deserialize_ciphertext ::
  "base64_engine \<Rightarrow> (ustring, de_error) result \<Rightarrow> (ciphertext, de_error) result" where
  "deserialize_ciphertext b64 d = map_ok Ciphertext (deserialize_bytes_from_base64 b64 d)"

definition serialize_rekey_id :: "base64_engine \<Rightarrow> rekey_id \<Rightarrow> ustring" where
  "serialize_rekey_id b64 r = serialize_bytes_as_base64 b64 (rekey_id_as_array r)"

definition deserialize_rekey_id ::
  "base64_engine \<Rightarrow> (ustring, de_error) result \<Rightarrow> (rekey_id, de_error) result" where
  "deserialize_rekey_id b64 d =
     map_ok RekeyId (try_into_array 16 (str ''rekey id must decode to exactly 16 bytes'')
       (deserialize_bytes_from_base64 b64 d))"

lemmas codec_defs =
  serialize_public_key_def deserialize_public_key_def serialize_nonce_def deserialize_nonce_def
  serialize_ciphertext_def deserialize_ciphertext_def serialize_rekey_id_def
  deserialize_rekey_id_def try_into_array_def map_ok_def

text \<open>
  The four newtypes have one contract: a serializer that writes the bytes in base64, and a
  deserializer that accepts exactly the decodable strings whose length fits.
\<close>

locale byte_codec =
  fixes mk :: "bytes \<Rightarrow> 'a"
    and arr :: "'a \<Rightarrow> bytes"
    and ser :: "base64_engine \<Rightarrow> 'a \<Rightarrow> ustring"
    and de :: "base64_engine \<Rightarrow> (ustring, de_error) result \<Rightarrow> ('a, de_error) result"
    and ok_len :: "nat \<Rightarrow> bool"
  assumes mk_arr: "mk (arr x) = x"
    and arr_mk: "arr (mk b) = b"
    and ser_eq: "ser b64 x = serialize_bytes_as_base64 b64 (arr x)"
    and de_Ok_iff: "de b64 d = Ok x \<longleftrightarrow>
      (\<exists>b. deserialize_bytes_from_base64 b64 d = Ok b \<and> ok_len (length b) \<and> x = mk b)"
begin

lemma codec_roundtrip:
  assumes "base64_roundtrip b64" and "ok_len (length (arr x))"
  shows "de b64 (Ok (ser b64 x)) = Ok x"
  using assms
  by (simp add: de_Ok_iff deserialize_bytes_from_base64_def ser_eq serialize_bytes_as_base64_def
      base64_roundtrip_def mk_arr)

lemma codec_length: "de b64 d = Ok x \<Longrightarrow> ok_len (length (arr x))"
  by (auto simp: de_Ok_iff arr_mk)

lemma codec_exact:
  assumes "base64_roundtrip b64"
  shows "de b64 (Ok (serialize_bytes_as_base64 b64 b)) = Ok x \<longleftrightarrow> ok_len (length b) \<and> x = mk b"
  using assms
  by (auto simp: de_Ok_iff deserialize_bytes_from_base64_def serialize_bytes_as_base64_def
      base64_roundtrip_def)

lemma codec_inj:
  assumes "base64_roundtrip b64" and "ser b64 x = ser b64 y"
  shows "x = y"
proof -
  have "Some (arr x) = Some (arr y)"
    using assms unfolding base64_roundtrip_def ser_eq serialize_bytes_as_base64_def by metis
  then show ?thesis using mk_arr by (metis option.inject)
qed

end

interpretation public_key_codec: byte_codec PublicKeyBytes public_key_as_array
    serialize_public_key deserialize_public_key "\<lambda>n. n = 32"
proof
  show "PublicKeyBytes (public_key_as_array x) = x" for x by (cases x) simp
qed (auto simp: codec_defs split: result.splits if_splits)

interpretation nonce_codec: byte_codec NonceBytes nonce_as_array
    serialize_nonce deserialize_nonce "\<lambda>n. n = 24"
proof
  show "NonceBytes (nonce_as_array x) = x" for x by (cases x) simp
qed (auto simp: codec_defs split: result.splits if_splits)

interpretation ciphertext_codec: byte_codec Ciphertext ciphertext_as_bytes
    serialize_ciphertext deserialize_ciphertext "\<lambda>_. True"
proof
  show "Ciphertext (ciphertext_as_bytes x) = x" for x by (cases x) simp
qed (auto simp: codec_defs split: result.splits)

interpretation rekey_id_codec: byte_codec RekeyId rekey_id_as_array
    serialize_rekey_id deserialize_rekey_id "\<lambda>n. n = 16"
proof
  show "RekeyId (rekey_id_as_array x) = x" for x by (cases x) simp
qed (auto simp: codec_defs split: result.splits if_splits)

section \<open>A concrete base64 engine for the witnesses\<close>

text \<open>
  A byte is written in unary and closed by a zero digit. It is not RFC 4648; it satisfies the
  contract the code relies on, which is what the witnesses need.
\<close>

fun toy_b64_decode :: "byte \<Rightarrow> bytes \<Rightarrow> bytes option" where
  "toy_b64_decode acc [] = (if acc = 0 then Some [] else None)"
| "toy_b64_decode acc (c # cs) =
     (if c = 49 then toy_b64_decode (acc + 1) cs
      else map_option ((#) acc) (toy_b64_decode 0 cs))"

definition toy_base64 :: base64_engine where
  "toy_base64 =
     \<lparr>b64_encode = (\<lambda>b. concat (map (\<lambda>x. replicate (unat x) 49 @ [48]) b)),
      b64_decode = toy_b64_decode 0\<rparr>"

lemma toy_b64_decode_ones:
  "toy_b64_decode acc (replicate n 49 @ cs) = toy_b64_decode (acc + of_nat n) cs"
  by (induction n arbitrary: acc) (simp_all add: algebra_simps)

lemma toy_base64_roundtrip: "base64_roundtrip toy_base64"
proof -
  have "toy_b64_decode 0 (as_bytes (concat (map (\<lambda>x. replicate (unat x) 49 @ [48]) b))) = Some b"
    for b :: bytes
    by (induction b)
      (simp_all add: as_bytes_def utf8_encode_char_def map_replicate_const
        toy_b64_decode_ones)
  then show ?thesis by (simp add: base64_roundtrip_def toy_base64_def)
qed

end
