(* ===== verification/Nonce.thy ===== *)
theory Nonce
  imports Types
begin

text \<open>
  Replay tracking, \<open>crates/chat-core/src/nonce.rs\<close>. The contract of the tracker is the locale
  \<open>replay_filter\<close>; the crypto session uses the tracker through it.
\<close>

record nonce_tracker =
  seen :: "nonce_bytes set"

datatype nonce_error = DuplicateNonceError

definition nonce_tracker_default :: nonce_tracker where
  "nonce_tracker_default = \<lparr>seen = {}\<rparr>"

definition mark_seen :: "nonce_bytes \<Rightarrow> nonce_tracker \<Rightarrow> (unit, nonce_error) result \<times> nonce_tracker"
where
  "mark_seen nonce self =
     (if nonce \<notin> seen self
      then (Ok (), self\<lparr>seen := insert nonce (seen self)\<rparr>)
      else (Err DuplicateNonceError, self\<lparr>seen := insert nonce (seen self)\<rparr>))"

text \<open>Offering a list of nonces in order; the result is the sublist that was accepted.\<close>

fun offer_all ::
  "('n \<Rightarrow> 't \<Rightarrow> (unit, 'e) result \<times> 't) \<Rightarrow> 'n list \<Rightarrow> 't \<Rightarrow> 'n list \<times> 't" where
  "offer_all mark [] t = ([], t)"
| "offer_all mark (n # ns) t =
     (let (r, t') = mark n t; (acc, t'') = offer_all mark ns t'
      in (if is_ok r then n # acc else acc, t''))"

locale replay_filter =
  fixes mark :: "'n \<Rightarrow> 't \<Rightarrow> (unit, 'e) result \<times> 't"
    and used :: "'t \<Rightarrow> 'n set"
  assumes mark_result: "is_ok (fst (mark n t)) \<longleftrightarrow> n \<notin> used t"
    and mark_used: "used (snd (mark n t)) = insert n (used t)"
begin

lemma offer_all_spec:
  "offer_all mark ns t = (acc, t') \<Longrightarrow>
     distinct acc \<and> set acc = set ns - used t \<and> used t' = used t \<union> set ns"
proof (induction ns arbitrary: t acc t')
  case Nil
  then show ?case by simp
next
  case (Cons n ns)
  obtain r u where m: "mark n t = (r, u)" by fastforce
  obtain acc' v where o: "offer_all mark ns u = (acc', v)" by fastforce
  have IH: "distinct acc'" "set acc' = set ns - used u" "used v = used u \<union> set ns"
    using Cons.IH [OF o] by simp_all
  have u: "used u = insert n (used t)" and r: "is_ok r \<longleftrightarrow> n \<notin> used t"
    using mark_used [of n t] mark_result [of n t] by (simp_all add: m)
  have "v = t'" "acc = (if is_ok r then n # acc' else acc')"
    using Cons.prems by (simp_all add: m o)
  then show ?case using IH by (auto simp: u r)
qed

lemma mark_again: "\<not> is_ok (fst (mark n (snd (mark n t))))"
  by (simp add: mark_result mark_used)

end

interpretation nonce_filter: replay_filter mark_seen seen
  by unfold_locales (simp_all add: mark_seen_def)

lemma nonce_tracker_seen_update [simp]: "(t :: nonce_tracker)\<lparr>seen := X\<rparr> = \<lparr>seen = X\<rparr>"
  by (cases t) simp

text \<open>A rejected nonce leaves the tracker as it was.\<close>

lemma mark_seen_Err: "mark_seen n t = (Err e, t') \<Longrightarrow> t' = t \<and> n \<in> seen t"
  by (auto simp: mark_seen_def insert_absorb split: if_splits)

lemma mark_seen_Ok_iff:
  "mark_seen n t = (Ok u, t') \<longleftrightarrow> n \<notin> seen t \<and> t' = t\<lparr>seen := insert n (seen t)\<rparr>"
  by (auto simp: mark_seen_def)

lemma mark_seen_no_panic: "fst (mark_seen n t) \<noteq> Panic"
  by (simp add: mark_seen_def)

end
