(* ===== verification/Event.thy ===== *)
theory Event
  imports Types
begin

text \<open>
  The protocol events, \<open>crates/chat-core/src/event.rs\<close>: the encrypted envelope, the error codes of
  the relay with their wire strings, the wire events and the payload carried inside an envelope.
  The serde derives on these types are third-party code; the functions they generate are parameters
  of the model (theory Crates). The hand-written instances, those of \<open>RelayErrorCode\<close>, are here.
\<close>

record encrypted_envelope =
  env_sender :: client_id
  env_recipient :: client_id
  env_message_id :: message_id
  env_epoch :: u32
  env_nonce :: nonce_bytes
  env_ciphertext :: ciphertext

datatype relay_error_code =
    CodeSenderMismatch
  | CodeUnknownRecipient
  | CodeUnsupportedEvent
  | CodeClientNotConnected
  | CodeClientAlreadyConnected
  | CodeConnectDenied
  | CodeOther ustring

primrec as_wire_str :: "relay_error_code \<Rightarrow> ustring" where
  "as_wire_str CodeSenderMismatch = str ''sender_mismatch''"
| "as_wire_str CodeUnknownRecipient = str ''unknown_recipient''"
| "as_wire_str CodeUnsupportedEvent = str ''unsupported_event''"
| "as_wire_str CodeClientNotConnected = str ''client_not_connected''"
| "as_wire_str CodeClientAlreadyConnected = str ''client_already_connected''"
| "as_wire_str CodeConnectDenied = str ''connect_denied''"
| "as_wire_str (CodeOther raw) = raw"

definition from_wire :: "ustring \<Rightarrow> relay_error_code" where
  "from_wire raw =
     (if raw = str ''sender_mismatch'' then CodeSenderMismatch
      else if raw = str ''unknown_recipient'' then CodeUnknownRecipient
      else if raw = str ''unsupported_event'' then CodeUnsupportedEvent
      else if raw = str ''client_not_connected'' then CodeClientNotConnected
      else if raw = str ''client_already_connected'' then CodeClientAlreadyConnected
      else if raw = str ''connect_denied'' then CodeConnectDenied
      else CodeOther raw)"

definition serialize_relay_error_code :: "relay_error_code \<Rightarrow> ustring" where
  "serialize_relay_error_code c = as_wire_str c"

definition deserialize_relay_error_code ::
  "(ustring, de_error) result \<Rightarrow> (relay_error_code, de_error) result" where
  "deserialize_relay_error_code d = map_ok from_wire d"

datatype wire_event =
    ClientHello client_id public_key_bytes
  | PeerKey client_id client_id public_key_bytes
  | EncryptedMessage encrypted_envelope
  | Ack message_id
  | ErrorEvent relay_error_code ustring

datatype session_payload =
    Chat ustring
  | RekeyRequest rekey_id public_key_bytes
  | RekeyResponse rekey_id public_key_bytes

section \<open>Wire strings of the error codes\<close>

text \<open>The codes the enum names, apart from the open variant \<open>Other\<close>.\<close>

definition known_codes :: "relay_error_code list" where
  "known_codes =
     [CodeSenderMismatch, CodeUnknownRecipient, CodeUnsupportedEvent, CodeClientNotConnected,
      CodeClientAlreadyConnected, CodeConnectDenied]"

lemma from_wire_known: "c \<in> set known_codes \<Longrightarrow> from_wire (as_wire_str c) = c"
  by (auto simp: known_codes_def from_wire_def str_def)

lemma from_wire_unknown:
  "raw \<notin> as_wire_str ` set known_codes \<Longrightarrow> from_wire raw = CodeOther raw"
  by (simp add: known_codes_def from_wire_def)

lemma as_wire_str_from_wire: "as_wire_str (from_wire raw) = raw"
  by (simp add: from_wire_def)

text \<open>
  An \<open>Other\<close> that spells a known code is the only value that does not survive the wire: it comes
  back as the known variant.
\<close>

definition canonical_code :: "relay_error_code \<Rightarrow> bool" where
  "canonical_code c = (case c of CodeOther raw \<Rightarrow> raw \<notin> as_wire_str ` set known_codes | _ \<Rightarrow> True)"

lemma from_wire_as_wire_str_iff: "from_wire (as_wire_str c) = c \<longleftrightarrow> canonical_code c"
proof (cases c)
  case (CodeOther raw)
  show ?thesis
  proof (cases "raw \<in> as_wire_str ` set known_codes")
    case True
    then obtain k where k: "k \<in> set known_codes" "raw = as_wire_str k" by auto
    then have "from_wire raw = k" by (simp add: from_wire_known)
    moreover have "k \<noteq> CodeOther raw" using k(1) by (auto simp: known_codes_def)
    ultimately show ?thesis using CodeOther True by (simp add: canonical_code_def)
  next
    case False
    then show ?thesis using CodeOther by (simp add: canonical_code_def from_wire_unknown)
  qed
qed (simp_all add: canonical_code_def from_wire_def str_def)

section \<open>Well-formed events\<close>

text \<open>
  What the field types of the Rust structs guarantee: identities went through \<open>parse\<close>, arrays
  have their length.
\<close>

definition wf_envelope :: "encrypted_envelope \<Rightarrow> bool" where
  "wf_envelope env \<longleftrightarrow>
     valid_client_id (env_sender env) \<and> valid_client_id (env_recipient env) \<and>
     wf_nonce (env_nonce env)"

primrec wf_wire_event :: "wire_event \<Rightarrow> bool" where
  "wf_wire_event (ClientHello c k) \<longleftrightarrow> valid_client_id c \<and> wf_public_key k"
| "wf_wire_event (PeerKey f t k) \<longleftrightarrow> valid_client_id f \<and> valid_client_id t \<and> wf_public_key k"
| "wf_wire_event (EncryptedMessage env) \<longleftrightarrow> wf_envelope env"
| "wf_wire_event (Ack m) \<longleftrightarrow> True"
| "wf_wire_event (ErrorEvent c msg) \<longleftrightarrow> canonical_code c"

primrec wf_payload :: "session_payload \<Rightarrow> bool" where
  "wf_payload (Chat t) \<longleftrightarrow> True"
| "wf_payload (RekeyRequest r k) \<longleftrightarrow> wf_rekey_id r \<and> wf_public_key k"
| "wf_payload (RekeyResponse r k) \<longleftrightarrow> wf_rekey_id r \<and> wf_public_key k"

end
