(* ===== verification/Crates.thy ===== *)
theory Crates
  imports Event
begin

text \<open>
  The code that is not in the repository: the cryptographic crates, serde_json, and the build
  profile. It enters the model as one record \<open>crates\<close>, an argument of every definition that calls
  such code; what the program relies on is stated as named predicates over that record, each the
  documented behaviour of the crate.

  \<^item> \<open>digest_lengths\<close>: SHA-256 and BLAKE3 return 32 bytes;
  \<^item> \<open>x25519_agrees\<close>: a Diffie-Hellman exchange gives both sides the same secret;
  \<^item> \<open>kdf_total\<close>: HKDF-SHA-256 with a 32 byte output does not fail, and a 32 byte key is accepted
    by the cipher;
  \<^item> \<open>aead_correct\<close>: encryption of a message below the size limit of the cipher succeeds, and
    decryption with the same key, nonce and associated data gives the plaintext back;
  \<^item> \<open>aead_authentic\<close>: the idealised integrity guarantee of an AEAD: a ciphertext produced under one
    key, nonce and associated data is not accepted under another;
  \<^item> \<open>json_payload_roundtrip\<close> and \<open>json_aad_injective\<close>: serde_json reads back what it wrote, and the
    associated data determines its fields;
  \<^item> \<open>json_wire_roundtrip\<close>: the same for wire events;
  \<^item> \<open>json_payload_faithful\<close> and \<open>json_envelope_faithful\<close>: what reads back as a payload or as an envelope
    was written for that payload or that envelope.

  The last section gives a concrete \<open>crates\<close> value that satisfies all of them, for the witnesses.
\<close>

text \<open>The structure serialized into the associated data, \<open>AssociatedData\<close> of crypto.rs.\<close>

record associated_data =
  ad_version :: u16
  ad_sender :: client_id
  ad_recipient :: client_id
  ad_message_id :: message_id
  ad_epoch :: u32

record crates =
  overflow_checks :: bool
  sha256_digest :: "bytes \<Rightarrow> bytes"
  blake3_hash :: "bytes \<Rightarrow> bytes"
  x25519_public :: "bytes \<Rightarrow> bytes"
  x25519_dh :: "bytes \<Rightarrow> bytes \<Rightarrow> bytes"
  hkdf_sha256 :: "bytes \<Rightarrow> bytes \<Rightarrow> bytes \<Rightarrow> nat \<Rightarrow> bytes option"
  aead_new :: "bytes \<Rightarrow> bytes option"
  aead_encrypt :: "bytes \<Rightarrow> bytes \<Rightarrow> bytes \<Rightarrow> bytes \<Rightarrow> bytes option"
  aead_decrypt :: "bytes \<Rightarrow> bytes \<Rightarrow> bytes \<Rightarrow> bytes \<Rightarrow> bytes option"
  json_of_payload :: "session_payload \<Rightarrow> bytes option"
  payload_of_json :: "bytes \<Rightarrow> session_payload option"
  json_of_aad :: "associated_data \<Rightarrow> bytes option"
  json_of_wire :: "wire_event \<Rightarrow> ustring option"
  wire_of_json :: "ustring \<Rightarrow> wire_event option"
  unicode_lower_table :: unicode_lower

text \<open>
  Argument order: \<open>hkdf_sha256\<close> takes salt, input key material, info and output length;
  \<open>aead_encrypt\<close> and \<open>aead_decrypt\<close> take key, nonce, associated data and message. A keyed cipher is
  represented by the bytes \<open>aead_new\<close> returns.
\<close>

definition digest_lengths :: "crates \<Rightarrow> bool" where
  "digest_lengths L \<longleftrightarrow>
     (\<forall>b. length (sha256_digest L b) = 32) \<and> (\<forall>b. length (blake3_hash L b) = 32)"

definition x25519_agrees :: "crates \<Rightarrow> bool" where
  "x25519_agrees L \<longleftrightarrow>
     (\<forall>a b. x25519_dh L a (x25519_public L b) = x25519_dh L b (x25519_public L a))"

definition kdf_total :: "crates \<Rightarrow> bool" where
  "kdf_total L \<longleftrightarrow>
     (\<forall>salt ikm info. \<exists>key. hkdf_sha256 L salt ikm info 32 = Some key \<and> length key = 32) \<and>
     (\<forall>key. length key = 32 \<longrightarrow> aead_new L key \<noteq> None)"

text \<open>The object a cipher is made of is its key.\<close>

definition aead_key_injective :: "crates \<Rightarrow> bool" where
  "aead_key_injective L \<longleftrightarrow> (\<forall>k k' c. aead_new L k = Some c \<longrightarrow> aead_new L k' = Some c \<longrightarrow> k = k')"

text \<open>The cipher refuses a message of more than \<open>2 ^ 32 - 1\<close> blocks of 64 bytes.\<close>

definition aead_max_len :: nat where
  "aead_max_len = 64 * (2 ^ 32 - 1)"

definition aead_correct :: "crates \<Rightarrow> bool" where
  "aead_correct L \<longleftrightarrow>
     (\<forall>k n a m. length m < aead_max_len \<longrightarrow> aead_encrypt L k n a m \<noteq> None) \<and>
     (\<forall>k n a m c. aead_encrypt L k n a m = Some c \<longrightarrow> aead_decrypt L k n a c = Some m)"

definition aead_authentic :: "crates \<Rightarrow> bool" where
  "aead_authentic L \<longleftrightarrow>
     (\<forall>k n a m c k' n' a' m'. aead_encrypt L k n a m = Some c \<longrightarrow>
        aead_decrypt L k' n' a' c = Some m' \<longrightarrow> k' = k \<and> n' = n \<and> a' = a)"

definition json_payload_roundtrip :: "crates \<Rightarrow> bool" where
  "json_payload_roundtrip L \<longleftrightarrow>
     (\<forall>p. wf_payload p \<longrightarrow> (\<exists>b. json_of_payload L p = Some b \<and> payload_of_json L b = Some p))"

text \<open>The two control payloads have a fixed size, far below the limit of the cipher.\<close>

definition json_control_short :: "crates \<Rightarrow> bool" where
  "json_control_short L \<longleftrightarrow>
     (\<forall>r k b. wf_rekey_id r \<longrightarrow> wf_public_key k \<longrightarrow>
        json_of_payload L (RekeyRequest r k) = Some b \<or> json_of_payload L (RekeyResponse r k) = Some b
        \<longrightarrow> length b < aead_max_len)"

definition wf_aad :: "associated_data \<Rightarrow> bool" where
  "wf_aad a \<longleftrightarrow> valid_client_id (ad_sender a) \<and> valid_client_id (ad_recipient a)"

definition json_aad_injective :: "crates \<Rightarrow> bool" where
  "json_aad_injective L \<longleftrightarrow>
     (\<forall>a. wf_aad a \<longrightarrow> json_of_aad L a \<noteq> None) \<and>
     (\<forall>a b. wf_aad a \<longrightarrow> wf_aad b \<longrightarrow> json_of_aad L a = json_of_aad L b \<longrightarrow> a = b)"

definition json_wire_roundtrip :: "crates \<Rightarrow> bool" where
  "json_wire_roundtrip L \<longleftrightarrow>
     (\<forall>e. wf_wire_event e \<longrightarrow> (\<exists>t. json_of_wire L e = Some t \<and> wire_of_json L t = Some e))"

definition json_payload_faithful :: "crates \<Rightarrow> bool" where
  "json_payload_faithful L \<longleftrightarrow>
     (\<forall>p b q. json_of_payload L p = Some b \<longrightarrow> payload_of_json L b = Some q \<longrightarrow> q = p)"

definition json_envelope_faithful :: "crates \<Rightarrow> bool" where
  "json_envelope_faithful L \<longleftrightarrow>
     (\<forall>e t env. json_of_wire L e = Some t \<longrightarrow> wire_of_json L t = Some (EncryptedMessage env) \<longrightarrow>
        e = EncryptedMessage env)"

text \<open>The contract every functional property of the session rests on.\<close>

definition crypto_laws :: "crates \<Rightarrow> bool" where
  "crypto_laws L \<longleftrightarrow>
     x25519_agrees L \<and> kdf_total L \<and> aead_correct L \<and> json_payload_roundtrip L \<and>
     json_control_short L \<and> json_aad_injective L"

section \<open>A concrete instance for the witnesses\<close>

text \<open>
  A stand-in for the crates that satisfies every law above. It has no cryptographic strength: the
  ciphertext carries key, nonce, associated data and plaintext in the clear, which is the simplest
  way to make decryption under anything else fail.
\<close>

text \<open>Words as their binary digits, each closed by the token 3, a list of words by the token 2.\<close>

definition digits :: "'a::len word \<Rightarrow> nat list" where
  "digits w = map (\<lambda>i. of_bool (bit w i)) (rev [0 ..< LENGTH('a)])"

definition toks :: "'a::len word list \<Rightarrow> nat list" where
  "toks ws = concat (map (\<lambda>w. digits w @ [3]) ws) @ [2]"

fun toks_dec :: "'a::len word \<Rightarrow> nat list \<Rightarrow> 'a word list \<times> nat list" where
  "toks_dec acc [] = ([], [])"
| "toks_dec acc (c # cs) =
     (if c < 2 then toks_dec (2 * acc + of_nat c) cs
      else if c = 3 then (let (ws, r) = toks_dec 0 cs in (acc # ws, r))
      else ([], cs))"

lemma toks_dec_bits:
  "toks_dec acc (map (\<lambda>i. of_bool (P i)) is @ cs) = toks_dec (foldl (\<lambda>a i. 2 * a + of_bool (P i)) acc is) cs"
  by (induction "is" arbitrary: acc) simp_all

lemma foldl_digits: "foldl (\<lambda>a i. 2 * a + of_bool (bit w i)) 0 (rev [0 ..< LENGTH('a)]) = (w :: 'a::len word)"
proof -
  have "foldl (\<lambda>a i. 2 * a + of_bool (bit w i)) 0 (rev is) = (horner_sum of_bool 2 (map (bit w) is) :: 'a word)" for "is"
    by (induction "is") (simp_all add: add.commute)
  from this [of "[0 ..< LENGTH('a)]"] show ?thesis by (simp only: horner_sum_bit_eq_take_bit take_bit_length_eq)
qed

lemma toks_dec_digits: "toks_dec 0 (digits w @ cs) = toks_dec w cs"
  unfolding digits_def toks_dec_bits foldl_digits ..

lemma toks_dec_toks [simp]: "toks_dec 0 (toks ws @ rest) = (ws, rest)"
  by (induction ws) (simp_all add: toks_def toks_dec_digits)

lemma toks_dec_toks_end [simp]: "toks_dec 0 (toks ws) = (ws, [])"
  using toks_dec_toks [of ws "[]"] by simp

lemma set_toks: "set (toks ws) \<subseteq> {0, 1, 2, 3}"
  by (induction ws) (auto simp: toks_def digits_def)

lemma length_toks: "length (toks (ws :: 'a::len word list)) = (LENGTH('a) + 1) * length ws + 1"
  by (induction ws) (simp_all add: toks_def digits_def)

definition toy_payload_toks :: "session_payload \<Rightarrow> nat list" where
  "toy_payload_toks p = (case p of
      Chat t \<Rightarrow> 0 # toks t
    | RekeyRequest r k \<Rightarrow> 1 # toks (rekey_id_as_array r) @ toks (public_key_as_array k)
    | RekeyResponse r k \<Rightarrow> 2 # toks (rekey_id_as_array r) @ toks (public_key_as_array k))"

definition toy_payload_of_toks :: "nat list \<Rightarrow> session_payload option" where
  "toy_payload_of_toks ts = (case ts of
      [] \<Rightarrow> None
    | tag # r \<Rightarrow>
        if tag = 0 then Some (Chat (fst (toks_dec 0 r)))
        else let (rid, r') = toks_dec 0 r; k = fst (toks_dec 0 r') in
          if tag = 1 then Some (RekeyRequest (RekeyId rid) (PublicKeyBytes k))
          else Some (RekeyResponse (RekeyId rid) (PublicKeyBytes k)))"

lemma toy_payload_toks_inverse: "toy_payload_of_toks (toy_payload_toks p) = Some p"
proof (cases p)
  case (RekeyRequest r k)
  then show ?thesis
    by (cases r; cases k) (simp add: toy_payload_toks_def toy_payload_of_toks_def)
next
  case (RekeyResponse r k)
  then show ?thesis
    by (cases r; cases k) (simp add: toy_payload_toks_def toy_payload_of_toks_def)
qed (simp add: toy_payload_toks_def toy_payload_of_toks_def)

lemma set_toy_payload_toks: "set (toy_payload_toks p) \<subseteq> {0, 1, 2, 3}"
  using set_toks by (cases p) (auto simp: toy_payload_toks_def dest: subsetD [OF set_toks])

definition toy_wire_toks :: "wire_event \<Rightarrow> nat list" where
  "toy_wire_toks e = (case e of
      ClientHello c k \<Rightarrow> 0 # toks (as_str c) @ toks (public_key_as_array k)
    | PeerKey f t k \<Rightarrow> 1 # toks (as_str f) @ toks (as_str t) @ toks (public_key_as_array k)
    | EncryptedMessage env \<Rightarrow> 2 # toks (as_str (env_sender env)) @ toks (as_str (env_recipient env))
        @ toks (case env_message_id env of MessageId m \<Rightarrow> [m]) @ toks [env_epoch env]
        @ toks (nonce_as_array (env_nonce env)) @ toks (ciphertext_as_bytes (env_ciphertext env))
    | Ack m \<Rightarrow> 3 # toks (case m of MessageId w \<Rightarrow> [w])
    | ErrorEvent c msg \<Rightarrow> 4 # toks (as_wire_str c) @ toks msg)"

definition toy_wire_of_toks :: "nat list \<Rightarrow> wire_event option" where
  "toy_wire_of_toks ts = (case ts of
      [] \<Rightarrow> None
    | tag # r \<Rightarrow>
        if tag = 3 then Some (Ack (MessageId (hd (fst (toks_dec 0 r)))))
        else let (a, r1) = toks_dec 0 r in
          if tag = 0 then Some (ClientHello (ClientId a) (PublicKeyBytes (fst (toks_dec 0 r1))))
          else let (b, r2) = toks_dec 0 r1 in
            if tag = 1
            then Some (PeerKey (ClientId a) (ClientId b) (PublicKeyBytes (fst (toks_dec 0 r2))))
            else if tag = 4 then Some (ErrorEvent (from_wire a) b)
            else let (m, r3) = toks_dec 0 r2; (ep, r4) = toks_dec 0 r3; (n, r5) = toks_dec 0 r4 in
              Some (EncryptedMessage \<lparr>env_sender = ClientId a, env_recipient = ClientId b,
                env_message_id = MessageId (hd m), env_epoch = hd ep, env_nonce = NonceBytes n,
                env_ciphertext = Ciphertext (fst (toks_dec 0 r5))\<rparr>))"

lemma toy_wire_toks_inverse:
  assumes "\<And>c msg. e = ErrorEvent c msg \<Longrightarrow> wf_wire_event e"
  shows "toy_wire_of_toks (toy_wire_toks e) = Some e"
proof (cases e)
  case (ClientHello c k)
  then show ?thesis by (cases c; cases k) (simp add: toy_wire_toks_def toy_wire_of_toks_def)
next
  case (PeerKey f t k)
  then show ?thesis by (cases f; cases t; cases k) (simp add: toy_wire_toks_def toy_wire_of_toks_def)
next
  case (EncryptedMessage env)
  then show ?thesis
    by (cases "env_sender env"; cases "env_recipient env"; cases "env_message_id env";
        cases "env_nonce env"; cases "env_ciphertext env")
      (simp add: toy_wire_toks_def toy_wire_of_toks_def)
next
  case (Ack m)
  then show ?thesis by (cases m) (simp add: toy_wire_toks_def toy_wire_of_toks_def)
next
  case (ErrorEvent c msg)
  then show ?thesis
    using assms by (simp add: toy_wire_toks_def toy_wire_of_toks_def from_wire_as_wire_str_iff)
qed

definition toy_frame :: "bytes \<Rightarrow> bytes" where
  "toy_frame x = replicate (length x) 1 @ 0 # x"

lemma toy_frame_inj: "toy_frame x @ r = toy_frame y @ r' \<Longrightarrow> x = y \<and> r = r'"
proof -
  assume eq: "toy_frame x @ r = toy_frame y @ r'"
  have "replicate (length x) (1::byte) = replicate (length y) 1 \<and> x @ r = y @ r'"
    by (rule append_sep_inj [where z = 0]) (use eq in \<open>auto simp: toy_frame_def\<close>)
  then have "length x = length y" by (metis length_replicate)
  then show ?thesis using \<open>replicate _ _ = _ \<and> x @ r = y @ r'\<close> by simp
qed

definition toy_seal :: "bytes \<Rightarrow> bytes \<Rightarrow> bytes \<Rightarrow> bytes" where
  "toy_seal k n a = toy_frame k @ toy_frame n @ toy_frame a"

lemma toy_seal_inj:
  assumes "toy_seal k n a @ r = toy_seal k' n' a' @ r'"
  shows "k = k' \<and> n = n' \<and> a = a' \<and> r = r'"
proof -
  have "toy_frame k @ toy_frame n @ toy_frame a @ r = toy_frame k' @ toy_frame n' @ toy_frame a' @ r'"
    using assms by (simp add: toy_seal_def)
  then show ?thesis using toy_frame_inj by metis
qed

definition toy_encrypt :: "bytes \<Rightarrow> bytes \<Rightarrow> bytes \<Rightarrow> bytes \<Rightarrow> bytes option" where
  "toy_encrypt k n a m = Some (toy_seal k n a @ m)"

definition toy_decrypt :: "bytes \<Rightarrow> bytes \<Rightarrow> bytes \<Rightarrow> bytes \<Rightarrow> bytes option" where
  "toy_decrypt k n a c =
     (let p = toy_seal k n a
      in if take (length p) c = p then Some (drop (length p) c) else None)"

definition toy_aad :: "associated_data \<Rightarrow> bytes" where
  "toy_aad a = be_bytes 2 (ad_version a)
     @ be_bytes 16 (case ad_message_id a of MessageId m \<Rightarrow> m) @ be_bytes 4 (ad_epoch a)
     @ as_bytes (as_str (ad_sender a)) @ 0 # as_bytes (as_str (ad_recipient a))"

definition toy_mix :: "bytes \<Rightarrow> byte" where
  "toy_mix b = foldl (\<lambda>h x. 31 * h + x) 7 b"

definition toy_crates :: crates where
  "toy_crates =
     \<lparr>overflow_checks = True,
      sha256_digest = (\<lambda>b. replicate 32 (toy_mix b)),
      blake3_hash = (\<lambda>b. replicate 32 (toy_mix b)),
      x25519_public = (\<lambda>s. s),
      x25519_dh = (\<lambda>s p. map2 (+) s p),
      hkdf_sha256 = (\<lambda>salt ikm info n.
        Some (replicate n (sum_list salt + sum_list ikm + sum_list info))),
      aead_new = Some,
      aead_encrypt = toy_encrypt,
      aead_decrypt = toy_decrypt,
      json_of_payload = (\<lambda>p. Some (map of_nat (toy_payload_toks p))),
      payload_of_json = (\<lambda>b. toy_payload_of_toks (map unat b)),
      json_of_aad = (\<lambda>a. Some (toy_aad a)),
      json_of_wire = (\<lambda>e. Some (map of_nat (toy_wire_toks e))),
      wire_of_json = (\<lambda>t. toy_wire_of_toks (map unat t)),
      unicode_lower_table = (\<lambda>_ c _. [c])\<rparr>"

lemma toy_digest_lengths: "digest_lengths toy_crates"
  by (simp add: digest_lengths_def toy_crates_def)

lemma toy_x25519_agrees: "x25519_agrees toy_crates"
proof -
  have "map2 (+) a b = map2 (+) b a" for a b :: bytes
    by (induction a b rule: list_induct2') (simp_all add: add.commute)
  then show ?thesis by (simp add: x25519_agrees_def toy_crates_def)
qed

lemma toy_kdf_total: "kdf_total toy_crates"
  by (simp add: kdf_total_def toy_crates_def)

lemma toy_aead_key_injective: "aead_key_injective toy_crates"
  by (simp add: aead_key_injective_def toy_crates_def)

lemma toy_aead_correct: "aead_correct toy_crates"
  by (auto simp: aead_correct_def toy_crates_def toy_encrypt_def toy_decrypt_def)

lemma toy_decrypt_Some: "toy_decrypt k n a c = Some m \<Longrightarrow> c = toy_seal k n a @ m"
  by (auto simp: toy_decrypt_def Let_def split: if_splits) (metis append_take_drop_id)

lemma toy_aead_authentic: "aead_authentic toy_crates"
proof -
  have "k' = k \<and> n' = n \<and> a' = a" if "toy_decrypt k' n' a' (toy_seal k n a @ m) = Some m'"
    for k n a k' n' a' m m' :: bytes
    using toy_seal_inj [OF toy_decrypt_Some [OF that]] by simp
  then show ?thesis by (auto simp: aead_authentic_def toy_crates_def toy_encrypt_def)
qed

lemma map_unat_of_nat_small:
  "set ts \<subseteq> {0, 1, 2, 3, 4} \<Longrightarrow> map (\<lambda>x. unat (of_nat x :: 'a::len word)) ts = ts"
  if "8 \<le> LENGTH('a)"
proof (induction ts)
  case (Cons t ts)
  have "(2::nat) ^ 8 \<le> 2 ^ LENGTH('a)" using that by (rule power_increasing) simp
  moreover have "t \<le> 4" using Cons.prems by auto
  ultimately have "unat (of_nat t :: 'a word) = t" by (simp add: unat_of_nat)
  then show ?case using Cons by simp
qed simp

lemma map_unat_payload: "map (\<lambda>x. unat (of_nat x :: byte)) (toy_payload_toks p) = toy_payload_toks p"
  using set_toy_payload_toks [of p] by (intro map_unat_of_nat_small) auto

lemma toy_json_payload_roundtrip: "json_payload_roundtrip toy_crates"
  by (simp add: json_payload_roundtrip_def toy_crates_def toy_payload_toks_inverse comp_def map_unat_payload)

lemma toy_payload_faithful: "json_payload_faithful toy_crates"
  by (auto simp: json_payload_faithful_def toy_crates_def toy_payload_toks_inverse comp_def map_unat_payload)

lemma toy_json_control_short: "json_control_short toy_crates"
proof -
  have "length (toks (rekey_id_as_array r)) + length (toks (public_key_as_array k)) = 434"
    if "wf_rekey_id r" "wf_public_key k" for r k
    using that by (simp add: wf_rekey_id_def wf_public_key_def length_toks)
  then show ?thesis
    by (fastforce simp: json_control_short_def toy_crates_def toy_payload_toks_def aead_max_len_def)
qed

lemma toy_json_aad_injective: "json_aad_injective toy_crates"
proof -
  have "a = b" if wf: "wf_aad a" "wf_aad b" and eq: "toy_aad a = toy_aad b" for a b
  proof -
    have h: "be_bytes 2 (ad_version a) = be_bytes 2 (ad_version b)"
        "be_bytes 16 (case ad_message_id a of MessageId m \<Rightarrow> m)
          = be_bytes 16 (case ad_message_id b of MessageId m \<Rightarrow> m)"
        "be_bytes 4 (ad_epoch a) = be_bytes 4 (ad_epoch b)"
      and t: "as_bytes (as_str (ad_sender a)) @ 0 # as_bytes (as_str (ad_recipient a))
        = as_bytes (as_str (ad_sender b)) @ 0 # as_bytes (as_str (ad_recipient b))"
      using eq by (simp_all add: toy_aad_def)
    have "ad_sender a = ad_sender b \<and> ad_recipient a = ad_recipient b"
      using append_sep_inj [OF t] wf
      by (auto simp: wf_aad_def valid_client_id_bytes_nonzero intro: valid_client_id_bytes_inj)
    moreover have "ad_version a = ad_version b" "ad_epoch a = ad_epoch b"
      using be_bytes_inj [OF h(1)] be_bytes_inj [OF h(3)] by simp_all
    moreover have "ad_message_id a = ad_message_id b"
      using be_bytes_inj [OF h(2)] by (simp split: message_id.splits)
    ultimately show ?thesis by simp
  qed
  then show ?thesis by (simp add: json_aad_injective_def toy_crates_def)
qed

lemma set_toy_wire_toks: "set (toy_wire_toks e) \<subseteq> {0, 1, 2, 3, 4}"
  by (cases e) (auto simp: toy_wire_toks_def dest: subsetD [OF set_toks])

lemma map_unat_wire: "map (\<lambda>x. unat (of_nat x :: uchar)) (toy_wire_toks e) = toy_wire_toks e"
  using set_toy_wire_toks [of e] by (intro map_unat_of_nat_small) auto

lemma toy_json_wire_roundtrip: "json_wire_roundtrip toy_crates"
  by (simp add: json_wire_roundtrip_def toy_crates_def comp_def map_unat_wire) (blast intro: toy_wire_toks_inverse)

lemma toy_envelope_faithful: "json_envelope_faithful toy_crates"
proof -
  have "e = EncryptedMessage env" if "toy_wire_of_toks (toy_wire_toks e) = Some (EncryptedMessage env)" for e env
  proof (cases "\<exists>c msg. e = ErrorEvent c msg")
    case True
    then show ?thesis using that by (auto simp: toy_wire_toks_def toy_wire_of_toks_def)
  next
    case False
    then show ?thesis using that toy_wire_toks_inverse [of e] by auto
  qed
  then show ?thesis by (simp add: json_envelope_faithful_def toy_crates_def comp_def map_unat_wire)
qed

lemma toy_crypto_laws: "crypto_laws toy_crates"
  by (simp add: crypto_laws_def toy_x25519_agrees toy_kdf_total toy_aead_correct
      toy_json_payload_roundtrip toy_json_control_short toy_json_aad_injective)

text \<open>Two identities and a key for the witnesses.\<close>

definition alice :: client_id where
  "alice = ClientId (str ''alice'')"

definition bob :: client_id where
  "bob = ClientId (str ''bob'')"

lemma alice_bob [simp]: "alice \<noteq> bob" "bob \<noteq> alice" "valid_client_id alice" "valid_client_id bob"
  by (simp_all add: alice_def bob_def str_def valid_client_id_iff is_allowed_client_id_char_def
      is_ascii_alphanumeric_def is_ascii_lowercase_def)

definition some_key :: public_key_bytes where
  "some_key = PublicKeyBytes (replicate 32 0)"

end
