(* ===== verification/Crypto.thy ===== *)
theory Crypto
  imports Nonce Crates
begin

text \<open>
  The end-to-end session, \<open>crates/chat-core/src/crypto.rs\<close>: key fingerprints, key pairs, the
  crypto session with its outbound nonce counter, its per-epoch replay trackers and the state of
  the rekey handshake.

  A method with \<open>&mut self\<close> returns its result and the session it leaves behind, also when it
  fails. Random values (the ephemeral secret, the rekey id, the message id) are arguments.
  Zeroizing a secret has no effect on a value of the model. The additions on \<open>u32\<close> epochs panic or
  wrap as the build profile says (field \<open>overflow_checks\<close> of the crates).
\<close>

section \<open>Data\<close>

definition PROTOCOL_VERSION :: u16 where
  "PROTOCOL_VERSION = 1"

definition SESSION_KEY_SALT :: bytes where
  "SESSION_KEY_SALT = byte_str ''e2e-chat-rs/session-key/v1''"

definition REKEY_MASTER_LABEL :: bytes where
  "REKEY_MASTER_LABEL = byte_str ''e2e-chat-rs/rekey-master/v1''"

datatype crypto_error =
    AuthenticationFailed
  | UnexpectedPeer
  | UnknownEpoch
  | EncryptionFailed
  | KeyDerivationFailed
  | InvalidKeyLength
  | AssociatedDataSerializationFailed
  | NonceExhausted
  | RekeyAlreadyInProgress
  | UnknownRekeyId
  | NoStagedRekey
  | PayloadSerializationFailed
  | PayloadDeserializationFailed
  | DuplicateNonce

record key_pair =
  kp_secret :: bytes
  kp_public_key :: public_key_bytes

record pending_rekey_state =
  pr_rekey_id :: rekey_id
  pr_ephemeral_secret :: bytes

record crypto_session =
  master_secret :: bytes
  session_info_bytes :: bytes
  local_id :: client_id
  peer_id :: client_id
  inbound_nonces :: "u32 \<rightharpoonup> nonce_tracker"
  outbound_nonce_prefix :: bytes
  next_outbound_nonce :: u64
  epoch :: u32
  pending_rekey :: "pending_rekey_state option"
  staged_master :: "bytes option"

section \<open>Fingerprints and key pairs\<close>

text \<open>The format \<open>{byte:02x}\<close>.\<close>

definition hex_digit :: "byte \<Rightarrow> uchar" where
  "hex_digit d = (if d < 10 then ucast d + 48 else ucast d + 87)"

definition hex_byte :: "byte \<Rightarrow> ustring" where
  "hex_byte b = [hex_digit (drop_bit 4 b), hex_digit (b AND 15)]"

definition fingerprint :: "crates \<Rightarrow> public_key_bytes \<Rightarrow> ustring" where
  "fingerprint L public_key =
     concat (map hex_byte (sha256_digest L (public_key_as_array public_key)))"

definition key_pair_generate :: "crates \<Rightarrow> bytes \<Rightarrow> key_pair" where
  "key_pair_generate L secret =
     \<lparr>kp_secret = secret, kp_public_key = PublicKeyBytes (x25519_public L secret)\<rparr>"

definition key_pair_public_key :: "key_pair \<Rightarrow> public_key_bytes" where
  "key_pair_public_key self = kp_public_key self"

section \<open>Derivation inputs\<close>

definition session_info :: "client_id \<Rightarrow> client_id \<Rightarrow> bytes" where
  "session_info local peer =
     (let a = as_bytes (as_str local); b = as_bytes (as_str peer);
          lo = (if a \<le> b then a else b); hi = (if a \<le> b then b else a)
      in byte_str ''e2e-chat-rs/x25519-xchacha20poly1305/v1'' @ 0 # lo @ 0 # hi)"

definition nonce_prefix :: "crates \<Rightarrow> client_id \<Rightarrow> client_id \<Rightarrow> bytes" where
  "nonce_prefix L local peer =
     take 16 (blake3_hash L (byte_str ''e2e-chat-rs/xchacha20poly1305-nonce/v1''
       @ 0 # as_bytes (as_str local) @ 0 # as_bytes (as_str peer)))"

definition associated_data_for ::
  "crates \<Rightarrow> client_id \<Rightarrow> client_id \<Rightarrow> message_id \<Rightarrow> u32 \<Rightarrow> (bytes, crypto_error) result" where
  "associated_data_for L sender recipient mid ep =
     ok_or (json_of_aad L \<lparr>ad_version = PROTOCOL_VERSION, ad_sender = sender,
       ad_recipient = recipient, ad_message_id = mid, ad_epoch = ep\<rparr>)
     AssociatedDataSerializationFailed"

section \<open>The session\<close>

definition crypto_session_new ::
  "crates \<Rightarrow> key_pair \<Rightarrow> public_key_bytes \<Rightarrow> client_id \<Rightarrow> client_id \<Rightarrow> crypto_session" where
  "crypto_session_new L kp peer_public_key local peer =
     \<lparr>master_secret = x25519_dh L (kp_secret kp) (public_key_as_array peer_public_key),
      session_info_bytes = session_info local peer,
      local_id = local,
      peer_id = peer,
      inbound_nonces = Map.empty,
      outbound_nonce_prefix = nonce_prefix L local peer,
      next_outbound_nonce = 0,
      epoch = 0,
      pending_rekey = None,
      staged_master = None\<rparr>"

definition is_rekey_in_progress :: "crypto_session \<Rightarrow> bool" where
  "is_rekey_in_progress self \<longleftrightarrow> pending_rekey self \<noteq> None \<or> staged_master self \<noteq> None"

definition cipher_for :: "crates \<Rightarrow> u32 \<Rightarrow> crypto_session \<Rightarrow> (bytes, crypto_error) result" where
  "cipher_for L ep self =
     (case hkdf_sha256 L SESSION_KEY_SALT (master_secret self)
             (session_info_bytes self @ be_bytes 4 ep) 32 of
        None \<Rightarrow> Err KeyDerivationFailed
      | Some key \<Rightarrow> ok_or (aead_new L key) InvalidKeyLength)"

definition next_nonce :: "crypto_session \<Rightarrow> (nonce_bytes, crypto_error) result \<times> crypto_session" where
  "next_nonce self = (case checked_add (next_outbound_nonce self) 1 of
      None \<Rightarrow> (Err NonceExhausted, self)
    | Some n \<Rightarrow>
        (Ok (NonceBytes (outbound_nonce_prefix self @ be_bytes 8 n)),
         self\<lparr>next_outbound_nonce := n\<rparr>))"

definition encrypt ::
  "crates \<Rightarrow> message_id \<Rightarrow> bytes \<Rightarrow> crypto_session
    \<Rightarrow> (encrypted_envelope, crypto_error) result \<times> crypto_session" where
  "encrypt L mid plaintext self =
     and_then (cipher_for L (epoch self) self, self) (\<lambda>cipher self.
     and_then (next_nonce self) (\<lambda>nonce self.
     and_then (associated_data_for L (local_id self) (peer_id self) mid (epoch self), self) (\<lambda>aad self.
     and_then (ok_or (aead_encrypt L cipher (nonce_as_array nonce) aad plaintext) EncryptionFailed,
               self) (\<lambda>ct self.
       (Ok \<lparr>env_sender = local_id self, env_recipient = peer_id self, env_message_id = mid,
            env_epoch = epoch self, env_nonce = nonce, env_ciphertext = Ciphertext ct\<rparr>,
        self)))))"

text \<open>
  \<open>envelope.epoch + 1 == self.epoch\<close> is evaluated only when the session has left epoch zero; the
  addition panics or wraps when the envelope claims the largest epoch.
\<close>

definition is_previous_epoch :: "crates \<Rightarrow> u32 \<Rightarrow> crypto_session \<Rightarrow> bool option" where
  "is_previous_epoch L ep self =
     (if 0 < epoch self
      then map_option (\<lambda>n. n = epoch self) (rust_add (overflow_checks L) ep 1)
      else Some False)"

text \<open>\<open>entry(epoch).or_default().mark_seen(nonce)\<close>.\<close>

definition mark_inbound ::
  "encrypted_envelope \<Rightarrow> crypto_session \<Rightarrow> (unit, crypto_error) result \<times> crypto_session" where
  "mark_inbound env self =
     (let tracker = (case inbound_nonces self (env_epoch env) of
          None \<Rightarrow> nonce_tracker_default | Some t \<Rightarrow> t);
          (r, tracker') = mark_seen (env_nonce env) tracker
      in (map_err (\<lambda>_. DuplicateNonce) r,
          self\<lparr>inbound_nonces := (inbound_nonces self)(env_epoch env \<mapsto> tracker')\<rparr>))"

definition decrypt ::
  "crates \<Rightarrow> encrypted_envelope \<Rightarrow> crypto_session
    \<Rightarrow> (bytes, crypto_error) result \<times> crypto_session" where
  "decrypt L env self =
     (if env_sender env \<noteq> peer_id self \<or> env_recipient env \<noteq> local_id self
      then (Err UnexpectedPeer, self)
      else case is_previous_epoch L (env_epoch env) self of
        None \<Rightarrow> (Panic, self)
      | Some is_previous \<Rightarrow>
        if env_epoch env \<noteq> epoch self \<and> \<not> is_previous then (Err UnknownEpoch, self)
        else
          and_then (cipher_for L (env_epoch env) self, self) (\<lambda>cipher self.
          and_then (associated_data_for L (env_sender env) (env_recipient env) (env_message_id env)
                      (env_epoch env), self) (\<lambda>aad self.
          and_then (ok_or (aead_decrypt L cipher (nonce_as_array (env_nonce env)) aad
                      (ciphertext_as_bytes (env_ciphertext env))) AuthenticationFailed, self)
            (\<lambda>plaintext self.
          and_then (mark_inbound env self) (\<lambda>_ self.
            (Ok plaintext, self))))))"

subsection \<open>The rekey handshake\<close>

definition start_rekey ::
  "crates \<Rightarrow> rekey_id \<Rightarrow> bytes \<Rightarrow> crypto_session
    \<Rightarrow> (session_payload, crypto_error) result \<times> crypto_session" where
  "start_rekey L rid ephemeral_secret self =
     (if pending_rekey self \<noteq> None then (Err RekeyAlreadyInProgress, self)
      else
        (Ok (RekeyRequest rid (PublicKeyBytes (x25519_public L ephemeral_secret))),
         self\<lparr>pending_rekey :=
           Some \<lparr>pr_rekey_id = rid, pr_ephemeral_secret = ephemeral_secret\<rparr>\<rparr>))"

definition compute_next_master ::
  "crates \<Rightarrow> bytes \<Rightarrow> crypto_session \<Rightarrow> (bytes, crypto_error) result" where
  "compute_next_master L ephemeral_shared self =
     ok_or (hkdf_sha256 L (master_secret self) ephemeral_shared REKEY_MASTER_LABEL 32)
       KeyDerivationFailed"

text \<open>
  The closure given to \<open>retain\<close> adds one to every tracked epoch, which overflows exactly for the
  largest one; under overflow checks a tracker for that epoch makes it panic.
\<close>

definition apply_next_master ::
  "crates \<Rightarrow> bytes \<Rightarrow> crypto_session \<Rightarrow> (unit, crypto_error) result \<times> crypto_session" where
  "apply_next_master L next_master self =
     (let self = self\<lparr>master_secret := next_master\<rparr> in
      case rust_add (overflow_checks L) (epoch self) 1 of
        None \<Rightarrow> (Panic, self)
      | Some e \<Rightarrow>
        let self = self\<lparr>epoch := e\<rparr> in
        if overflow_checks L \<and> inbound_nonces self (- 1) \<noteq> None then (Panic, self)
        else
          (Ok (), self\<lparr>inbound_nonces :=
             retain (\<lambda>generation. e \<le> generation + 1) (inbound_nonces self)\<rparr>))"

definition handle_session_payload ::
  "crates \<Rightarrow> bytes \<Rightarrow> session_payload \<Rightarrow> crypto_session
    \<Rightarrow> (session_payload option, crypto_error) result \<times> crypto_session" where
  "handle_session_payload L ephemeral_secret payload self = (case payload of
      Chat text \<Rightarrow> (Ok None, self)
    | RekeyRequest rid ephemeral_public_key \<Rightarrow>
        if pending_rekey self \<noteq> None \<or> staged_master self \<noteq> None
        then (Err RekeyAlreadyInProgress, self)
        else
          let shared = x25519_dh L ephemeral_secret (public_key_as_array ephemeral_public_key) in
          and_then (compute_next_master L shared self, self) (\<lambda>next_master self.
            (Ok (Some (RekeyResponse rid (PublicKeyBytes (x25519_public L ephemeral_secret)))),
             self\<lparr>staged_master := Some next_master\<rparr>))
    | RekeyResponse rid ephemeral_public_key \<Rightarrow>
        (case pending_rekey self of
           None \<Rightarrow> (Err UnknownRekeyId, self)
         | Some pending \<Rightarrow>
           if pr_rekey_id pending \<noteq> rid then (Err UnknownRekeyId, self)
           else
             let shared = x25519_dh L (pr_ephemeral_secret pending)
                            (public_key_as_array ephemeral_public_key) in
             and_then (compute_next_master L shared self, self) (\<lambda>next_master self.
             and_then (apply_next_master L next_master self) (\<lambda>_ self.
               (Ok None, self\<lparr>pending_rekey := None\<rparr>)))))"

definition commit_staged_rekey ::
  "crates \<Rightarrow> crypto_session \<Rightarrow> (unit, crypto_error) result \<times> crypto_session" where
  "commit_staged_rekey L self = (case staged_master self of
      None \<Rightarrow> (Err NoStagedRekey, self)
    | Some staged \<Rightarrow> apply_next_master L staged (self\<lparr>staged_master := None\<rparr>))"

definition encrypt_payload ::
  "crates \<Rightarrow> message_id \<Rightarrow> session_payload \<Rightarrow> crypto_session
    \<Rightarrow> (encrypted_envelope, crypto_error) result \<times> crypto_session" where
  "encrypt_payload L mid payload self =
     and_then (ok_or (json_of_payload L payload) PayloadSerializationFailed, self) (\<lambda>bs self.
       encrypt L mid bs self)"

definition decrypt_payload ::
  "crates \<Rightarrow> encrypted_envelope \<Rightarrow> crypto_session
    \<Rightarrow> (session_payload, crypto_error) result \<times> crypto_session" where
  "decrypt_payload L env self =
     and_then (decrypt L env self) (\<lambda>bs self.
       (ok_or (payload_of_json L bs) PayloadDeserializationFailed, self))"

end
