(* ===== verification/Crypto_Props.thy ===== *)
theory Crypto_Props
  imports Crypto
begin

text \<open>
  Correctness of the crypto session: the shape of every outcome of the operations of Crypto, the
  steps a session can take as a labelled relation, and the properties of whole runs.
\<close>

section \<open>Nonces\<close>

lemma next_nonce_Ok_iff:
  "next_nonce s = (Ok n, s') \<longleftrightarrow>
     next_outbound_nonce s \<noteq> - 1 \<and>
     n = NonceBytes (outbound_nonce_prefix s @ be_bytes 8 (next_outbound_nonce s + 1)) \<and>
     s' = s\<lparr>next_outbound_nonce := next_outbound_nonce s + 1\<rparr>"
  by (auto simp: next_nonce_def checked_add_def add_overflows_one_iff)

lemma next_nonce_Err_iff:
  "next_nonce s = (Err e, s') \<longleftrightarrow>
     next_outbound_nonce s = - 1 \<and> e = NonceExhausted \<and> s' = s"
  by (auto simp: next_nonce_def checked_add_def add_overflows_one_iff)

lemma next_nonce_no_panic [simp]: "fst (next_nonce s) \<noteq> Panic"
  by (simp add: next_nonce_def split: option.split)

section \<open>The nonces a session has accepted\<close>

definition tracked :: "crypto_session \<Rightarrow> u32 \<Rightarrow> nonce_bytes set" where
  "tracked s ep = (case inbound_nonces s ep of None \<Rightarrow> {} | Some t \<Rightarrow> seen t)"

text \<open>The session after it has noted the nonce of an envelope.\<close>

definition noted :: "encrypted_envelope \<Rightarrow> crypto_session \<Rightarrow> crypto_session" where
  "noted env s = s\<lparr>inbound_nonces := (inbound_nonces s)(env_epoch env \<mapsto>
     \<lparr>seen = insert (env_nonce env) (tracked s (env_epoch env))\<rparr>)\<rparr>"

lemma tracked_noted:
  "tracked (noted env s) ep =
     (if ep = env_epoch env then insert (env_nonce env) (tracked s ep) else tracked s ep)"
  by (simp add: tracked_def noted_def)

lemma dom_inbound_noted:
  "dom (inbound_nonces (noted env s)) = insert (env_epoch env) (dom (inbound_nonces s))"
  by (simp add: noted_def)

lemma noted_frame [simp]:
  "local_id (noted env s) = local_id s" "peer_id (noted env s) = peer_id s"
  "session_info_bytes (noted env s) = session_info_bytes s"
  "outbound_nonce_prefix (noted env s) = outbound_nonce_prefix s"
  "next_outbound_nonce (noted env s) = next_outbound_nonce s"
  "pending_rekey (noted env s) = pending_rekey s" "staged_master (noted env s) = staged_master s"
  "master_secret (noted env s) = master_secret s" "epoch (noted env s) = epoch s"
  by (simp_all add: noted_def)

lemma mark_inbound_Ok_iff:
  "mark_inbound env s = (Ok u, s') \<longleftrightarrow>
     env_nonce env \<notin> tracked s (env_epoch env) \<and>
     s' = noted env s"
  by (auto simp: mark_inbound_def noted_def tracked_def mark_seen_def nonce_tracker_default_def
      split: option.splits)

lemma mark_inbound_Err_iff:
  "mark_inbound env s = (Err e, s') \<longleftrightarrow>
     env_nonce env \<in> tracked s (env_epoch env) \<and> e = DuplicateNonce \<and> s' = s"
proof -
  have "s\<lparr>inbound_nonces := (inbound_nonces s)(g \<mapsto> t)\<rparr> = s" if "inbound_nonces s g = Some t" for g t
    using that by (simp add: fun_upd_idem)
  then show ?thesis
    by (auto simp: mark_inbound_def tracked_def mark_seen_def nonce_tracker_default_def insert_absorb
        split: option.splits)
qed

lemma mark_inbound_no_panic [simp]: "fst (mark_inbound env s) \<noteq> Panic"
  by (simp add: mark_inbound_def mark_seen_def Let_def)

section \<open>Outcomes of encryption and decryption\<close>

lemma cipher_for_no_panic [simp]: "cipher_for L ep s \<noteq> Panic"
  by (simp add: cipher_for_def split: option.split)

lemma associated_data_for_no_panic [simp]: "associated_data_for L a b m ep \<noteq> Panic"
  by (simp add: associated_data_for_def)

lemma cipher_for_cong:
  "master_secret s = master_secret t \<Longrightarrow> session_info_bytes s = session_info_bytes t \<Longrightarrow>
     cipher_for L ep s = cipher_for L ep t"
  by (simp add: cipher_for_def)

lemma encrypt_Ok_iff:
  "encrypt L mid pt s = (Ok env, s') \<longleftrightarrow>
     (\<exists>cipher aad ct.
        cipher_for L (epoch s) s = Ok cipher \<and>
        next_outbound_nonce s \<noteq> - 1 \<and>
        associated_data_for L (local_id s) (peer_id s) mid (epoch s) = Ok aad \<and>
        aead_encrypt L cipher (outbound_nonce_prefix s @ be_bytes 8 (next_outbound_nonce s + 1)) aad pt
          = Some ct \<and>
        env = \<lparr>env_sender = local_id s, env_recipient = peer_id s, env_message_id = mid,
          env_epoch = epoch s,
          env_nonce = NonceBytes (outbound_nonce_prefix s @ be_bytes 8 (next_outbound_nonce s + 1)),
          env_ciphertext = Ciphertext ct\<rparr> \<and>
        s' = s\<lparr>next_outbound_nonce := next_outbound_nonce s + 1\<rparr>)"
  by (auto simp: encrypt_def and_then_eq_Ok_iff next_nonce_Ok_iff)

lemma encrypt_header:
  "encrypt L mid pt s = (Ok env, s') \<Longrightarrow>
     env_sender env = local_id s \<and> env_recipient env = peer_id s \<and> env_epoch env = epoch s \<and>
     env_message_id env = mid"
  by (auto simp: encrypt_Ok_iff)

lemma encrypt_Ok_state:
  "encrypt L mid pt s = (Ok env, s') \<Longrightarrow> s' = s\<lparr>next_outbound_nonce := next_outbound_nonce s + 1\<rparr>"
  by (auto simp: encrypt_Ok_iff)

lemma encrypt_no_panic: "fst (encrypt L mid pt s) \<noteq> Panic"
  by (simp add: encrypt_def fst_and_then_Panic_iff)

text \<open>
  Whatever the outcome, encryption touches nothing but the counter, and the counter only grows.
\<close>

lemma encrypt_state:
  "encrypt L mid pt s = (r, s') \<Longrightarrow>
     s' = s \<or> (next_outbound_nonce s \<noteq> - 1 \<and>
       s' = s\<lparr>next_outbound_nonce := next_outbound_nonce s + 1\<rparr>)"
  by (auto simp: encrypt_def and_then_def next_nonce_def checked_add_def add_overflows_one_iff
      split: result.splits prod.splits option.splits if_splits)

text \<open>The window of epochs a session accepts.\<close>

definition in_window :: "u32 \<Rightarrow> crypto_session \<Rightarrow> bool" where
  "in_window ep s \<longleftrightarrow> ep = epoch s \<or> unat ep + 1 = unat (epoch s)"

definition epoch_panics :: "crates \<Rightarrow> u32 \<Rightarrow> crypto_session \<Rightarrow> bool" where
  "epoch_panics L ep s \<longleftrightarrow> overflow_checks L \<and> 0 < epoch s \<and> ep = - 1"

lemma is_previous_epoch_None_iff: "is_previous_epoch L ep s = None \<longleftrightarrow> epoch_panics L ep s"
  by (auto simp: is_previous_epoch_def epoch_panics_def rust_add_one_None_iff)

lemma is_previous_epoch_Some:
  assumes "is_previous_epoch L ep s = Some b"
  shows "b \<longleftrightarrow> unat ep + 1 = unat (epoch s)"
proof (cases "0 < epoch s")
  case True
  then have b: "b \<longleftrightarrow> ep + 1 = epoch s"
    using assms by (auto simp: is_previous_epoch_def rust_add_one_Some_iff)
  show ?thesis
  proof (cases "ep = - 1")
    case True
    then show ?thesis
      using b \<open>0 < epoch s\<close> unat_less_exp [of "epoch s"]
      by (auto simp: unsigned_minus_1_eq_mask mask_eq_exp_minus_1)
  next
    case False
    then have "unat (ep + 1) = unat ep + 1"
      by (intro unat_add_one) (simp add: add_overflows_one_iff)
    then show ?thesis using b by (auto simp: word_unat_eq_iff)
  qed
next
  case False
  then show ?thesis using assms by (auto simp: is_previous_epoch_def word_gt_0)
qed

lemma decrypt_Ok_iff:
  "decrypt L env s = (Ok pt, s') \<longleftrightarrow>
     env_sender env = peer_id s \<and> env_recipient env = local_id s \<and>
     \<not> epoch_panics L (env_epoch env) s \<and> in_window (env_epoch env) s \<and>
     (\<exists>cipher aad.
        cipher_for L (env_epoch env) s = Ok cipher \<and>
        associated_data_for L (env_sender env) (env_recipient env) (env_message_id env)
          (env_epoch env) = Ok aad \<and>
        aead_decrypt L cipher (nonce_as_array (env_nonce env)) aad
          (ciphertext_as_bytes (env_ciphertext env)) = Some pt) \<and>
     env_nonce env \<notin> tracked s (env_epoch env) \<and>
     s' = noted env s"
proof (cases "is_previous_epoch L (env_epoch env) s")
  case None
  moreover have "epoch_panics L (env_epoch env) s"
    using None by (simp only: is_previous_epoch_None_iff)
  ultimately show ?thesis by (simp add: decrypt_def)
next
  case (Some b)
  then have "\<not> epoch_panics L (env_epoch env) s"
    by (metis is_previous_epoch_None_iff option.distinct(1))
  then show ?thesis
    using is_previous_epoch_Some [OF Some] Some
    by (auto simp: decrypt_def and_then_eq_Ok_iff mark_inbound_Ok_iff in_window_def)
qed

lemma decrypt_Panic_iff:
  "fst (decrypt L env s) = Panic \<longleftrightarrow>
     env_sender env = peer_id s \<and> env_recipient env = local_id s \<and>
     epoch_panics L (env_epoch env) s"
proof (cases "is_previous_epoch L (env_epoch env) s")
  case None
  moreover have "epoch_panics L (env_epoch env) s"
    using None by (simp only: is_previous_epoch_None_iff)
  ultimately show ?thesis by (simp add: decrypt_def)
next
  case (Some b)
  then have "\<not> epoch_panics L (env_epoch env) s"
    by (metis is_previous_epoch_None_iff option.distinct(1))
  then show ?thesis
    using Some by (simp add: decrypt_def fst_and_then_Panic_iff)
qed

text \<open>A rejected envelope leaves no trace: no tracker is created and no nonce is consumed.\<close>

lemma decrypt_Err_state: "decrypt L env s = (Err e, s') \<Longrightarrow> s' = s"
  by (auto simp: decrypt_def and_then_eq_Err_iff mark_inbound_Err_iff
      split: if_splits option.splits)

lemma decrypt_Panic_state: "decrypt L env s = (Panic, s') \<Longrightarrow> s' = s"
  using decrypt_Panic_iff [of L env s]
  by (auto simp: decrypt_def is_previous_epoch_None_iff [symmetric])

text \<open>The errors of \<open>decrypt\<close>, in the order in which the code tests for them.\<close>

lemma decrypt_UnexpectedPeer:
  "env_sender env \<noteq> peer_id s \<or> env_recipient env \<noteq> local_id s \<Longrightarrow>
     decrypt L env s = (Err UnexpectedPeer, s)"
  by (simp add: decrypt_def)

lemma decrypt_UnknownEpoch:
  assumes "env_sender env = peer_id s" and "env_recipient env = local_id s"
    and "\<not> epoch_panics L (env_epoch env) s" and "\<not> in_window (env_epoch env) s"
  shows "decrypt L env s = (Err UnknownEpoch, s)"
proof -
  obtain b where b: "is_previous_epoch L (env_epoch env) s = Some b"
    using assms(3) is_previous_epoch_None_iff by (cases "is_previous_epoch L (env_epoch env) s") auto
  then show ?thesis
    using is_previous_epoch_Some [OF b] assms by (simp add: decrypt_def in_window_def)
qed

lemma decrypt_in_window:
  assumes "env_sender env = peer_id s" and "env_recipient env = local_id s"
    and "\<not> epoch_panics L (env_epoch env) s" and "in_window (env_epoch env) s"
    and "cipher_for L (env_epoch env) s = Ok cipher"
    and "associated_data_for L (env_sender env) (env_recipient env) (env_message_id env)
          (env_epoch env) = Ok aad"
  shows "decrypt L env s =
     (case aead_decrypt L cipher (nonce_as_array (env_nonce env)) aad
        (ciphertext_as_bytes (env_ciphertext env)) of
       None \<Rightarrow> (Err AuthenticationFailed, s)
     | Some pt \<Rightarrow> and_then (mark_inbound env s) (\<lambda>_ s'. (Ok pt, s')))"
proof -
  obtain b where b: "is_previous_epoch L (env_epoch env) s = Some b"
    using assms(3) is_previous_epoch_None_iff by (cases "is_previous_epoch L (env_epoch env) s") auto
  then show ?thesis
    using is_previous_epoch_Some [OF b] assms
    by (auto simp: decrypt_def in_window_def split: option.split)
qed

section \<open>Outcomes of the rekey operations\<close>

definition rotated :: "bytes \<Rightarrow> crypto_session \<Rightarrow> crypto_session" where
  "rotated nm s =
     s\<lparr>master_secret := nm, epoch := epoch s + 1,
       inbound_nonces := retain (\<lambda>g. epoch s + 1 \<le> g + 1) (inbound_nonces s)\<rparr>"

definition rotation_panics :: "crates \<Rightarrow> crypto_session \<Rightarrow> bool" where
  "rotation_panics L s \<longleftrightarrow>
     overflow_checks L \<and> (epoch s = - 1 \<or> inbound_nonces s (- 1) \<noteq> None)"

lemma apply_next_master_Ok_iff:
  "apply_next_master L nm s = (Ok u, s') \<longleftrightarrow> \<not> rotation_panics L s \<and> s' = rotated nm s"
  by (auto simp: apply_next_master_def rotation_panics_def rotated_def Let_def
      rust_add_def add_overflows_one_iff)

lemma apply_next_master_not_Err: "fst (apply_next_master L nm s) \<noteq> Err e"
  by (simp add: apply_next_master_def Let_def split: option.split)

lemma apply_next_master_Panic_iff:
  "fst (apply_next_master L nm s) = Panic \<longleftrightarrow> rotation_panics L s"
  by (auto simp: apply_next_master_def rotation_panics_def Let_def rust_add_def
      add_overflows_one_iff)

lemma apply_next_master_eq:
  "\<not> rotation_panics L s \<Longrightarrow> apply_next_master L nm s = (Ok (), rotated nm s)"
  by (simp add: apply_next_master_Ok_iff)

lemma handle_request_iff:
  "handle_session_payload L sk (RekeyRequest rid pk) s =
     (if is_rekey_in_progress s then (Err RekeyAlreadyInProgress, s)
      else case hkdf_sha256 L (master_secret s) (x25519_dh L sk (public_key_as_array pk))
                  REKEY_MASTER_LABEL 32 of
          None \<Rightarrow> (Err KeyDerivationFailed, s)
        | Some nm \<Rightarrow>
            (Ok (Some (RekeyResponse rid (PublicKeyBytes (x25519_public L sk)))),
             s\<lparr>staged_master := Some nm\<rparr>))"
  by (simp add: handle_session_payload_def is_rekey_in_progress_def compute_next_master_def Let_def
      split: option.split)

lemma handle_response_unknown:
  "(\<forall>p. pending_rekey s = Some p \<longrightarrow> pr_rekey_id p \<noteq> rid) \<Longrightarrow>
     handle_session_payload L sk (RekeyResponse rid pk) s = (Err UnknownRekeyId, s)"
  by (simp add: handle_session_payload_def split: option.split)

lemma handle_response_match:
  assumes "pending_rekey s = Some p" and "pr_rekey_id p = rid"
    and "hkdf_sha256 L (master_secret s) (x25519_dh L (pr_ephemeral_secret p)
           (public_key_as_array pk)) REKEY_MASTER_LABEL 32 = Some nm"
    and "\<not> rotation_panics L s"
  shows "handle_session_payload L sk (RekeyResponse rid pk) s =
     (Ok None, (rotated nm s)\<lparr>pending_rekey := None\<rparr>)"
  using assms
  by (simp add: handle_session_payload_def compute_next_master_def Let_def apply_next_master_eq)

lemma handle_session_payload_state:
  assumes "handle_session_payload L sk p s = (r, s')" and "r \<noteq> Panic"
  obtains (same) "s' = s"
    | (staged) nm where "s' = s\<lparr>staged_master := Some nm\<rparr>"
    | (switched) nm where "\<not> rotation_panics L s" and "s' = (rotated nm s)\<lparr>pending_rekey := None\<rparr>"
proof (cases p)
  case (Chat t)
  then have "s' = s" using assms(1) by (simp add: handle_session_payload_def)
  then show thesis by (rule same)
next
  case (RekeyRequest rid pk)
  then have "s' = s \<or> (\<exists>nm. s' = s\<lparr>staged_master := Some nm\<rparr>)"
    using assms(1) by (auto simp: handle_request_iff split: if_splits option.splits)
  then show thesis using same staged by blast
next
  case (RekeyResponse rid pk)
  show thesis
  proof (cases "handle_session_payload L sk p s = (Ok None, s')")
    case True
    then obtain nm where "\<not> rotation_panics L s" "s' = (rotated nm s)\<lparr>pending_rekey := None\<rparr>"
      using RekeyResponse
      by (auto simp: handle_session_payload_def Let_def and_then_eq_Ok_iff apply_next_master_Ok_iff
          split: option.splits if_splits)
    then show thesis by (rule switched)
  next
    case False
    then have "s' = s"
      using assms RekeyResponse apply_next_master_not_Err
      by (auto simp: handle_session_payload_def Let_def and_then_def
          split: option.splits if_splits result.splits prod.splits) (metis fst_conv)
    then show thesis by (rule same)
  qed
qed

lemma commit_staged_rekey_state:
  assumes "commit_staged_rekey L s = (r, s')" and "r \<noteq> Panic"
  obtains (same) "s' = s" "staged_master s = None"
    | (switched) nm where "staged_master s = Some nm" and "\<not> rotation_panics L s"
        and "s' = (rotated nm s)\<lparr>staged_master := None\<rparr>"
proof (cases "staged_master s")
  case None
  then show thesis using assms same by (simp add: commit_staged_rekey_def)
next
  case (Some nm)
  have eq: "rotation_panics L (s\<lparr>staged_master := None\<rparr>) = rotation_panics L s"
    "rotated nm (s\<lparr>staged_master := None\<rparr>) = (rotated nm s)\<lparr>staged_master := None\<rparr>"
    by (simp_all add: rotation_panics_def rotated_def)
  show thesis
    using assms Some switched [OF Some] apply_next_master_not_Err
    by (cases r) (auto simp: commit_staged_rekey_def apply_next_master_Ok_iff eq dest!: arg_cong [where f = fst])
qed

end
