(* ===== verification/Crypto_Runs.thy ===== *)
theory Crypto_Runs
  imports Crypto_Props
begin

text \<open>
  Whole runs of a crypto session. Every public method is one kind of step; a step that returns an
  envelope or accepts one carries it as its label, with the plaintext; every other step is silent. A step that panics
  ends the program, so it is not part of a run. The invariants proved here are those the design
  relies on: outbound nonces never repeat, an accepted envelope is never accepted again, and only
  the current and the previous epoch are tracked.
\<close>

section \<open>Steps and runs\<close>

datatype session_label = Emitted encrypted_envelope bytes | Accepted encrypted_envelope bytes | Silent

inductive session_step ::
  "crates \<Rightarrow> crypto_session \<Rightarrow> session_label \<Rightarrow> crypto_session \<Rightarrow> bool" for L where
  emit: "encrypt L mid pt s = (Ok env, s') \<Longrightarrow> session_step L s (Emitted env pt) s'"
| emit_fail: "encrypt L mid pt s = (Err e, s') \<Longrightarrow> session_step L s Silent s'"
| accept: "decrypt L env s = (Ok pt, s') \<Longrightarrow> session_step L s (Accepted env pt) s'"
| reject: "decrypt L env s = (Err e, s') \<Longrightarrow> session_step L s Silent s'"
| start: "start_rekey L rid sk s = (r, s') \<Longrightarrow> session_step L s Silent s'"
| handle: "handle_session_payload L sk p s = (r, s') \<Longrightarrow> r \<noteq> Panic \<Longrightarrow> session_step L s Silent s'"
| commit: "commit_staged_rekey L s = (r, s') \<Longrightarrow> r \<noteq> Panic \<Longrightarrow> session_step L s Silent s'"

inductive_cases EmittedE: "session_step L s (Emitted env pt) s'"
inductive_cases AcceptedE: "session_step L s (Accepted env pt) s'"
inductive_cases SilentE: "session_step L s Silent s'"

inductive session_run ::
  "crates \<Rightarrow> crypto_session \<Rightarrow> session_label list \<Rightarrow> crypto_session \<Rightarrow> bool" for L where
  finish: "session_run L s [] s"
| advance: "session_step L s l s' \<Longrightarrow> session_run L s' ls s'' \<Longrightarrow> session_run L s (l # ls) s''"

text \<open>The envelopes a run emits and accepts, with their plaintexts, and without.\<close>

fun sealed :: "session_label list \<Rightarrow> (encrypted_envelope \<times> bytes) list" where
  "sealed [] = []"
| "sealed (Emitted env pt # ls) = (env, pt) # sealed ls"
| "sealed (Accepted env pt # ls) = sealed ls"
| "sealed (Silent # ls) = sealed ls"

fun opened :: "session_label list \<Rightarrow> (encrypted_envelope \<times> bytes) list" where
  "opened [] = []"
| "opened (Emitted env pt # ls) = opened ls"
| "opened (Accepted env pt # ls) = (env, pt) # opened ls"
| "opened (Silent # ls) = opened ls"

definition emitted :: "session_label list \<Rightarrow> encrypted_envelope list" where
  "emitted ls = map fst (sealed ls)"

definition accepted :: "session_label list \<Rightarrow> encrypted_envelope list" where
  "accepted ls = map fst (opened ls)"

lemma emitted_simps [simp]:
  "emitted [] = []"
  "emitted (Emitted env pt # ls) = env # emitted ls"
  "emitted (Accepted env pt # ls) = emitted ls"
  "emitted (Silent # ls) = emitted ls"
  by (simp_all add: emitted_def)

lemma accepted_simps [simp]:
  "accepted [] = []"
  "accepted (Accepted env pt # ls) = env # accepted ls"
  "accepted (Emitted env pt # ls) = accepted ls"
  "accepted (Silent # ls) = accepted ls"
  by (simp_all add: accepted_def)

lemma sealed_append [simp]: "sealed (ls @ ms) = sealed ls @ sealed ms"
  by (induction ls rule: sealed.induct) simp_all

lemma opened_append [simp]: "opened (ls @ ms) = opened ls @ opened ms"
  by (induction ls rule: opened.induct) simp_all

lemma emitted_append [simp]: "emitted (ls @ ms) = emitted ls @ emitted ms"
  by (simp add: emitted_def)

lemma accepted_append [simp]: "accepted (ls @ ms) = accepted ls @ accepted ms"
  by (simp add: accepted_def)

lemma session_run_append:
  "session_run L s ls t \<Longrightarrow> session_run L t ms u \<Longrightarrow> session_run L s (ls @ ms) u"
  by (induction rule: session_run.induct) (auto intro: session_run.advance)

lemma session_run_single: "session_step L s l t \<Longrightarrow> session_run L s [l] t"
  by (blast intro: session_run.intros)

text \<open>The payload operations are the plain ones with serialization around them.\<close>

lemma encrypt_payload_step:
  assumes "encrypt_payload L mid p s = (Ok env, s')"
  obtains bs where "json_of_payload L p = Some bs" and "session_step L s (Emitted env bs) s'"
  using assms by (auto simp: encrypt_payload_def and_then_eq_Ok_iff intro: session_step.emit)

lemma decrypt_payload_step:
  assumes "decrypt_payload L env s = (Ok p, s')"
  obtains bs where "payload_of_json L bs = Some p" and "session_step L s (Accepted env bs) s'"
  using assms by (auto simp: decrypt_payload_def and_then_eq_Ok_iff intro: session_step.accept)

section \<open>Outbound nonces\<close>

definition same_identity :: "crypto_session \<Rightarrow> crypto_session \<Rightarrow> bool" where
  "same_identity s t \<longleftrightarrow>
     local_id t = local_id s \<and> peer_id t = peer_id s \<and>
     session_info_bytes t = session_info_bytes s \<and>
     outbound_nonce_prefix t = outbound_nonce_prefix s"

lemma rotated_frame [simp]:
  "local_id (rotated nm s) = local_id s" "peer_id (rotated nm s) = peer_id s"
  "session_info_bytes (rotated nm s) = session_info_bytes s"
  "outbound_nonce_prefix (rotated nm s) = outbound_nonce_prefix s"
  "next_outbound_nonce (rotated nm s) = next_outbound_nonce s"
  "pending_rekey (rotated nm s) = pending_rekey s"
  "staged_master (rotated nm s) = staged_master s"
  "master_secret (rotated nm s) = nm" "epoch (rotated nm s) = epoch s + 1"
  by (simp_all add: rotated_def)

lemma start_rekey_state:
  "start_rekey L rid sk s = (r, s') \<Longrightarrow> s' = s \<or> (\<exists>p. s' = s\<lparr>pending_rekey := Some p\<rparr>)"
  by (auto simp: start_rekey_def split: if_splits)

lemma session_step_identity: "session_step L s l s' \<Longrightarrow> same_identity s s'"
proof (induction rule: session_step.induct)
  case (handle sk p s r s')
  from handle(1,2) show ?case
    by (cases rule: handle_session_payload_state) (simp_all add: same_identity_def)
next
  case (commit s r s')
  from commit(1,2) show ?case
    by (cases rule: commit_staged_rekey_state) (simp_all add: same_identity_def)
qed (auto simp: same_identity_def decrypt_Ok_iff
      dest!: encrypt_state start_rekey_state decrypt_Err_state)

lemma session_step_counter:
  "session_step L s l s' \<Longrightarrow>
     next_outbound_nonce s' = next_outbound_nonce s \<or>
     (next_outbound_nonce s \<noteq> - 1 \<and> next_outbound_nonce s' = next_outbound_nonce s + 1)"
proof (induction rule: session_step.induct)
  case (handle sk p s r s')
  from handle(1,2) show ?case by (cases rule: handle_session_payload_state) simp_all
next
  case (commit s r s')
  from commit(1,2) show ?case by (cases rule: commit_staged_rekey_state) simp_all
qed (auto simp: decrypt_Ok_iff dest!: encrypt_state start_rekey_state decrypt_Err_state)

lemma session_step_counter_le:
  "session_step L s l s' \<Longrightarrow> unat (next_outbound_nonce s) \<le> unat (next_outbound_nonce s')"
  by (drule session_step_counter) (auto simp: unat_add_one add_overflows_one_iff)

lemma session_run_identity: "session_run L s ls t \<Longrightarrow> same_identity s t"
  by (induction rule: session_run.induct) (auto simp: same_identity_def dest: session_step_identity)

lemma session_run_counter_le:
  "session_run L s ls s' \<Longrightarrow> unat (next_outbound_nonce s) \<le> unat (next_outbound_nonce s')"
  by (induction rule: session_run.induct) (auto dest: session_step_counter_le)

definition nonce_number :: "crypto_session \<Rightarrow> u64 \<Rightarrow> nonce_bytes" where
  "nonce_number s n = NonceBytes (outbound_nonce_prefix s @ be_bytes 8 n)"

lemma nonce_number_inj: "nonce_number s n = nonce_number s m \<longleftrightarrow> n = m"
  by (auto simp: nonce_number_def intro: be_bytes_inj)

lemma session_step_Emitted:
  assumes "session_step L s (Emitted env pt) s'"
  shows "env_nonce env = nonce_number s (next_outbound_nonce s') \<and>
    unat (next_outbound_nonce s') = Suc (unat (next_outbound_nonce s)) \<and>
    env_sender env = local_id s \<and> env_recipient env = peer_id s \<and> env_epoch env = epoch s"
  using assms
  by (auto elim!: EmittedE simp: encrypt_Ok_iff nonce_number_def unat_add_one add_overflows_one_iff)

text \<open>Every nonce emitted in a run carries a number from the interval the counter ran through.\<close>

lemma session_run_emitted:
  assumes "session_run L s ls s'"
  shows "\<forall>env \<in> set (emitted ls). \<exists>n. env_nonce env = nonce_number s n \<and>
    unat (next_outbound_nonce s) < unat n \<and> unat n \<le> unat (next_outbound_nonce s')"
  using assms
proof (induction rule: session_run.induct)
  case (advance s l s' ls s'')
  have pre: "nonce_number s' = nonce_number s"
    using session_step_identity [OF advance(1)] by (auto simp: nonce_number_def same_identity_def)
  have le: "unat (next_outbound_nonce s) \<le> unat (next_outbound_nonce s')"
    by (rule session_step_counter_le [OF advance(1)])
  have rest: "\<forall>env \<in> set (emitted ls). \<exists>n. env_nonce env = nonce_number s n \<and>
      unat (next_outbound_nonce s) < unat n \<and> unat n \<le> unat (next_outbound_nonce s'')"
    using advance.IH le by (fastforce simp: pre)
  show ?case
  proof (cases l)
    case (Emitted env pt)
    then show ?thesis
      using rest session_step_Emitted [of L s env pt s'] advance(1)
        session_run_counter_le [OF advance(2)] by auto
  qed (use rest in simp_all)
qed simp

lemma session_run_emitted_distinct:
  "session_run L s ls s' \<Longrightarrow> distinct (map env_nonce (emitted ls))"
proof (induction rule: session_run.induct)
  case (advance s l s' ls s'')
  show ?case
  proof (cases l)
    case (Emitted env pt)
    have own: "env_nonce env = nonce_number s' (next_outbound_nonce s')"
      using session_step_Emitted [of L s env pt s'] advance(1) Emitted
        session_step_identity [OF advance(1)]
      by (simp add: nonce_number_def same_identity_def)
    have "env_nonce env \<notin> env_nonce ` set (emitted ls)"
      using session_run_emitted [OF advance(2)] by (auto simp: own nonce_number_inj)
    then show ?thesis using advance.IH Emitted by simp
  qed (use advance.IH in simp_all)
qed simp

section \<open>Replay protection\<close>

text \<open>
  A session refuses an epoch and nonce forever once it remembers them: either the nonce is in the
  tracker of its epoch, or the epoch is too old to be accepted.
\<close>

definition remembers :: "crypto_session \<Rightarrow> u32 \<times> nonce_bytes \<Rightarrow> bool" where
  "remembers s en \<longleftrightarrow> snd en \<in> tracked s (fst en) \<or> unat (fst en) + 1 < unat (epoch s)"

definition envelope_key :: "encrypted_envelope \<Rightarrow> u32 \<times> nonce_bytes" where
  "envelope_key env = (env_epoch env, env_nonce env)"

text \<open>Only the current and the previous epoch have a tracker.\<close>

definition tracks_window :: "crypto_session \<Rightarrow> bool" where
  "tracks_window s \<longleftrightarrow>
     (\<forall>g \<in> dom (inbound_nonces s). unat g \<le> unat (epoch s) \<and> unat (epoch s) \<le> unat g + 1)"

text \<open>
  The epoch cannot come back to a value it had: either the build checks for overflow, or fewer than
  \<open>2 ^ 32\<close> steps are left.
\<close>

definition no_epoch_wrap :: "crates \<Rightarrow> nat \<Rightarrow> crypto_session \<Rightarrow> bool" where
  "no_epoch_wrap L n s \<longleftrightarrow> overflow_checks L \<or> unat (epoch s) + n < 2 ^ 32"

lemma no_wrap_epoch:
  assumes "no_epoch_wrap L (Suc n) s" and "\<not> rotation_panics L s"
  shows "epoch s \<noteq> - 1"
  using assms
  by (auto simp: no_epoch_wrap_def rotation_panics_def unsigned_minus_1_eq_mask mask_eq_exp_minus_1)

lemma rotated_window:
  assumes w: "tracks_window s" and ne: "epoch s \<noteq> - 1"
  shows "tracks_window (rotated nm s)"
    and "remembers s en \<Longrightarrow> remembers (rotated nm s) en"
proof -
  have e: "unat (epoch s + 1) = unat (epoch s) + 1"
    using ne by (intro unat_add_one) (simp add: add_overflows_one_iff)
  have g: "unat (g + 1) = unat g + 1" if "g \<in> dom (inbound_nonces s)" for g
  proof -
    have "unat g \<le> unat (epoch s)" using w that by (auto simp: tracks_window_def)
    moreover have "unat (epoch s) + 1 < 2 ^ 32" using e unat_less_exp [of "epoch s + 1"] by simp
    ultimately have "unat g < 2 ^ 32 - 1" by linarith
    then have "g \<noteq> - 1" by (auto simp: unsigned_minus_1_eq_mask mask_eq_exp_minus_1)
    then show ?thesis by (intro unat_add_one) (simp add: add_overflows_one_iff)
  qed
  have keep: "epoch s + 1 \<le> g + 1 \<longleftrightarrow> unat (epoch s) \<le> unat g"
    if "g \<in> dom (inbound_nonces s)" for g
    using e g [OF that] by (simp add: word_le_nat_alt)
  show "tracks_window (rotated nm s)"
    using w keep e by (fastforce simp: tracks_window_def rotated_def retain_apply dom_def)
  show "remembers (rotated nm s) en" if "remembers s en"
  proof (cases "inbound_nonces s (fst en)")
    case None
    then show ?thesis using that e by (simp add: remembers_def tracked_def)
  next
    case (Some t)
    then have "fst en \<in> dom (inbound_nonces s)" by blast
    then show ?thesis
      using Some that keep [of "fst en"] e
      by (auto simp: remembers_def tracked_def rotated_def retain_apply)
  qed
qed

lemma accepted_key:
  assumes "decrypt L env s = (Ok pt, s')"
  shows "\<not> remembers s (envelope_key env)" and "remembers s' (envelope_key env)"
    and "remembers s en \<Longrightarrow> remembers s' en"
    and "tracks_window s \<Longrightarrow> tracks_window s'" and "epoch s' = epoch s"
  using assms
  by (auto simp: decrypt_Ok_iff remembers_def envelope_key_def tracked_noted in_window_def
      tracks_window_def dom_inbound_noted)

text \<open>What one step keeps, whatever it is.\<close>

lemmas inbound_defs = tracks_window_def remembers_def tracked_def no_epoch_wrap_def

lemma same_inbound_keeps:
  assumes "inbound_nonces s' = inbound_nonces s" and "epoch s' = epoch s"
  shows "tracks_window s' = tracks_window s" and "remembers s' en = remembers s en"
    and "no_epoch_wrap L n s' = no_epoch_wrap L n s"
  using assms by (simp_all add: inbound_defs)

lemma rotated_keeps:
  assumes "no_epoch_wrap L (Suc n) s" and "\<not> rotation_panics L s" and "tracks_window s"
  shows "tracks_window (rotated nm s)" and "no_epoch_wrap L n (rotated nm s)"
    and "remembers s en \<Longrightarrow> remembers (rotated nm s) en"
proof -
  have ne: "epoch s \<noteq> - 1" by (rule no_wrap_epoch [OF assms(1,2)])
  show "tracks_window (rotated nm s)" "remembers s en \<Longrightarrow> remembers (rotated nm s) en"
    using rotated_window [OF assms(3) ne] by blast+
  have "unat (epoch s + 1) = unat (epoch s) + 1"
    using ne by (intro unat_add_one) (simp add: add_overflows_one_iff)
  then show "no_epoch_wrap L n (rotated nm s)"
    using assms(1) by (auto simp: no_epoch_wrap_def)
qed

lemma session_step_keeps:
  assumes "session_step L s l s'" and "no_epoch_wrap L (Suc n) s" and "tracks_window s"
  shows "tracks_window s' \<and> no_epoch_wrap L n s' \<and> (\<forall>en. remembers s en \<longrightarrow> remembers s' en)"
  using assms
proof (induction rule: session_step.induct)
  case (accept env s pt s')
  then show ?case using accepted_key [OF accept(1)] by (auto simp: no_epoch_wrap_def)
next
  case (handle sk p s r s')
  from handle(1,2) show ?case
  proof (cases rule: handle_session_payload_state)
    case (switched nm)
    have eq: "inbound_nonces s' = inbound_nonces (rotated nm s)" "epoch s' = epoch (rotated nm s)"
      using switched(2) by simp_all
    show ?thesis
      unfolding same_inbound_keeps [OF eq]
      using rotated_keeps [OF handle(3) switched(1) handle(4)] by blast
  qed (use handle(3,4) in \<open>auto simp: inbound_defs\<close>)
next
  case (commit s r s')
  from commit(1,2) show ?case
  proof (cases rule: commit_staged_rekey_state)
    case (switched nm)
    have eq: "inbound_nonces s' = inbound_nonces (rotated nm s)" "epoch s' = epoch (rotated nm s)"
      using switched(3) by simp_all
    show ?thesis
      unfolding same_inbound_keeps [OF eq]
      using rotated_keeps [OF commit(3) switched(2) commit(4)] by blast
  qed (use commit(3,4) in \<open>auto simp: inbound_defs\<close>)
qed (auto simp: inbound_defs
      dest!: encrypt_state start_rekey_state decrypt_Err_state)

lemma session_run_accepted:
  assumes "session_run L s ls s'" and "no_epoch_wrap L (length ls) s" and "tracks_window s"
  shows "distinct (map envelope_key (accepted ls)) \<and> tracks_window s' \<and>
    (\<forall>env \<in> set (accepted ls). \<not> remembers s (envelope_key env))"
  using assms
proof (induction rule: session_run.induct)
  case (advance s l s' ls s'')
  have keep: "tracks_window s'" "no_epoch_wrap L (length ls) s'"
      "\<And>en. remembers s en \<Longrightarrow> remembers s' en"
    using session_step_keeps [OF advance(1)] advance.prems by auto
  have IH: "distinct (map envelope_key (accepted ls))" "tracks_window s''"
      "\<forall>env \<in> set (accepted ls). \<not> remembers s' (envelope_key env)"
    using advance.IH [OF keep(2,1)] by simp_all
  have old: "\<forall>env \<in> set (accepted ls). \<not> remembers s (envelope_key env)"
    using IH(3) keep(3) by blast
  show ?case
  proof (cases l)
    case (Accepted env pt)
    then have d: "decrypt L env s = (Ok pt, s')"
      using advance(1) by (auto elim: AcceptedE)
    have "\<forall>env' \<in> set (accepted ls). envelope_key env' \<noteq> envelope_key env"
      using IH(3) accepted_key(2) [OF d] by metis
    then have "envelope_key env \<notin> envelope_key ` set (accepted ls)" by fastforce
    then show ?thesis
      using IH(1,2) old accepted_key(1) [OF d] Accepted by simp
  qed (use IH(1,2) old in simp_all)
qed simp

end
