(* ===== verification/Crypto_Pair.thy ===== *)
theory Crypto_Pair
  imports Crypto_Runs
begin

text \<open>
  Two crypto sessions that talk to each other. \<open>paired\<close> is the abstract state of a healthy
  conversation: mirrored identities, one master secret, one epoch. Opening two sessions establishes
  it, encryption and decryption keep it, and a completed rekey handshake re-establishes it one epoch
  later. The theory also shows what the header authentication buys and where the implementation
  leaves the window that its documentation describes.
\<close>

section \<open>Derivation inputs determine their parts\<close>

lemma session_info_sym: "session_info a b = session_info b a"
  by (auto simp: session_info_def Let_def)

lemma session_info_inj:
  assumes v: "valid_client_id a" "valid_client_id b" "valid_client_id c" "valid_client_id d"
    and eq: "session_info a b = session_info c d"
  shows "a = c \<and> b = d \<or> a = d \<and> b = c"
proof -
  define B where "B = (\<lambda>x. as_bytes (as_str x))"
  define lo where "lo = (\<lambda>x y. if B x \<le> B y then B x else B y)"
  define hi where "hi = (\<lambda>x y. if B x \<le> B y then B y else B x)"
  have nz: "0 \<notin> set (lo x y)" if "valid_client_id x" "valid_client_id y" for x y
    using that valid_client_id_bytes_nonzero by (simp add: lo_def B_def)
  have "lo a b @ 0 # hi a b = lo c d @ 0 # hi c d"
    using eq unfolding session_info_def Let_def lo_def hi_def B_def by (simp only: same_append_eq list.inject)
  then have "lo a b = lo c d \<and> hi a b = hi c d"
    using nz v by (intro append_sep_inj) simp_all
  then have "B a = B c \<and> B b = B d \<or> B a = B d \<and> B b = B c"
    by (auto simp: lo_def hi_def split: if_splits)
  then show ?thesis using v valid_client_id_bytes_inj unfolding B_def by blast
qed

lemma kdf_info_inj:
  assumes "valid_client_id a" "valid_client_id b" "valid_client_id c" "valid_client_id d"
    and "session_info a b @ be_bytes 4 (e :: u32) = session_info c d @ be_bytes 4 e'"
  shows "e = e' \<and> (a = c \<and> b = d \<or> a = d \<and> b = c)"
proof -
  have eq: "session_info a b = session_info c d" "be_bytes 4 e = be_bytes 4 e'"
    using append_same_length_inj [OF assms(5)] by simp_all
  have "e = e'" using be_bytes_inj [OF eq(2)] by simp
  then show ?thesis using session_info_inj [OF assms(1-4) eq(1)] by simp
qed

text \<open>Two keys agree under every key derivation function exactly when they are derived from the same input.\<close>

lemma cipher_input_eq:
  assumes "kdf_total L" and "aead_key_injective L"
  shows "(\<forall>kdf. cipher_for (L\<lparr>hkdf_sha256 := kdf\<rparr>) e s = cipher_for (L\<lparr>hkdf_sha256 := kdf\<rparr>) e' t) \<longleftrightarrow>
    master_secret s = master_secret t \<and> session_info_bytes s @ be_bytes 4 e = session_info_bytes t @ be_bytes 4 e'"
    (is "?same \<longleftrightarrow> ?input")
proof
  assume same: ?same
  let ?m = "master_secret s" and ?i = "session_info_bytes s @ be_bytes 4 e"
  let ?kdf = "\<lambda>salt m i n. Some (replicate 32 (if m = ?m \<and> i = ?i then 1 else 0))"
  obtain x y where xy: "aead_new L (replicate 32 1) = Some x" "aead_new L (replicate 32 0) = Some y"
    using assms(1) unfolding kdf_total_def by (metis length_replicate not_None_eq)
  then have "x \<noteq> y"
    using assms(2) unfolding aead_key_injective_def by (metis nth_replicate zero_less_numeral zero_neq_one)
  then show ?input using spec [OF same, of ?kdf] xy by (auto simp: cipher_for_def split: if_splits)
qed (simp add: cipher_for_def)

section \<open>Pairing\<close>

definition paired :: "crypto_session \<Rightarrow> crypto_session \<Rightarrow> bool" where
  "paired a b \<longleftrightarrow>
     local_id a = peer_id b \<and> peer_id a = local_id b \<and>
     master_secret a = master_secret b \<and> session_info_bytes a = session_info_bytes b \<and>
     epoch a = epoch b"

text \<open>The receiver has accepted only nonces the sender has already used.\<close>

definition synced :: "crypto_session \<Rightarrow> crypto_session \<Rightarrow> bool" where
  "synced a b \<longleftrightarrow>
     (\<forall>ep n. n \<in> tracked b ep \<longrightarrow>
        (\<exists>k. n = nonce_number a k \<and> unat k \<le> unat (next_outbound_nonce a)))"

lemma paired_sym: "paired a b \<Longrightarrow> paired b a"
  by (simp add: paired_def)

lemma paired_new:
  assumes "x25519_agrees L"
  shows "paired
    (crypto_session_new L (key_pair_generate L ska) (key_pair_public_key (key_pair_generate L skb)) x y)
    (crypto_session_new L (key_pair_generate L skb) (key_pair_public_key (key_pair_generate L ska)) y x)"
  using assms session_info_sym [of x y]
  by (simp add: paired_def crypto_session_new_def key_pair_generate_def key_pair_public_key_def
      x25519_agrees_def)

lemma synced_new: "synced a (crypto_session_new L kp pk x y)"
  by (simp add: synced_def tracked_def crypto_session_new_def)

section \<open>Encrypted messages arrive\<close>

lemma encrypt_succeeds:
  assumes "crypto_laws L" and "next_outbound_nonce a \<noteq> - 1" and "length pt < aead_max_len"
    and "valid_client_id (local_id a)" and "valid_client_id (peer_id a)"
  shows "\<exists>env a'. encrypt L mid pt a = (Ok env, a')"
proof -
  obtain key where "hkdf_sha256 L SESSION_KEY_SALT (master_secret a)
      (session_info_bytes a @ be_bytes 4 (epoch a)) 32 = Some key" and "length key = 32"
    using assms(1) unfolding crypto_laws_def kdf_total_def by blast
  then obtain cipher where c: "cipher_for L (epoch a) a = Ok cipher"
    using assms(1) by (fastforce simp: cipher_for_def crypto_laws_def kdf_total_def)
  define aad_rec where "aad_rec = \<lparr>ad_version = PROTOCOL_VERSION, ad_sender = local_id a,
      ad_recipient = peer_id a, ad_message_id = mid, ad_epoch = epoch a\<rparr>"
  have "wf_aad aad_rec" using assms(4,5) by (simp add: wf_aad_def aad_rec_def)
  then obtain aad where d: "associated_data_for L (local_id a) (peer_id a) mid (epoch a) = Ok aad"
    using assms(1)
    by (fastforce simp: associated_data_for_def crypto_laws_def json_aad_injective_def aad_rec_def)
  obtain ct where "aead_encrypt L cipher
      (outbound_nonce_prefix a @ be_bytes 8 (next_outbound_nonce a + 1)) aad pt = Some ct"
    using assms(1,3) by (fastforce simp: crypto_laws_def aead_correct_def)
  then show ?thesis using c d assms(2) by (auto simp: encrypt_Ok_iff)
qed

text \<open>
  An envelope opens in a session when every check but the replay check passes. The replay trackers
  play no part in it.
\<close>

definition opens :: "crates \<Rightarrow> crypto_session \<Rightarrow> encrypted_envelope \<Rightarrow> bytes \<Rightarrow> bool" where
  "opens L s env pt \<longleftrightarrow>
     env_sender env = peer_id s \<and> env_recipient env = local_id s \<and>
     \<not> epoch_panics L (env_epoch env) s \<and> in_window (env_epoch env) s \<and>
     (\<exists>cipher aad.
        cipher_for L (env_epoch env) s = Ok cipher \<and>
        associated_data_for L (env_sender env) (env_recipient env) (env_message_id env)
          (env_epoch env) = Ok aad \<and>
        aead_decrypt L cipher (nonce_as_array (env_nonce env)) aad
          (ciphertext_as_bytes (env_ciphertext env)) = Some pt)"

lemma decrypt_opens:
  assumes "opens L s env pt"
  shows "decrypt L env s =
    (if env_nonce env \<in> tracked s (env_epoch env) then (Err DuplicateNonce, s)
     else (Ok pt, noted env s))"
proof (cases "env_nonce env \<in> tracked s (env_epoch env)")
  case True
  then have "mark_inbound env s = (Err DuplicateNonce, s)" by (simp add: mark_inbound_Err_iff)
  then show ?thesis using assms True by (auto simp: opens_def decrypt_in_window)
next
  case False
  then have "decrypt L env s = (Ok pt, noted env s)"
    using assms unfolding decrypt_Ok_iff opens_def by blast
  then show ?thesis using False by simp
qed

lemma decrypt_Ok_opens: "decrypt L env s = (Ok pt, s') \<Longrightarrow> opens L s env pt \<and> s' = noted env s"
  unfolding decrypt_Ok_iff opens_def by blast

lemma opens_noted [simp]: "opens L (noted env' s) env pt = opens L s env pt"
  by (simp add: opens_def epoch_panics_def in_window_def
      cipher_for_cong [of "noted env' s" s])

lemma encrypt_opens:
  assumes "aead_correct L" and "paired a b" and "epoch b \<noteq> - 1"
    and enc: "encrypt L mid pt a = (Ok env, a')"
  shows "opens L b env pt"
proof -
  obtain cipher aad ct where e:
    "cipher_for L (epoch a) a = Ok cipher"
    "associated_data_for L (local_id a) (peer_id a) mid (epoch a) = Ok aad"
    "aead_encrypt L cipher (nonce_as_array (env_nonce env)) aad pt = Some ct"
    "env_ciphertext env = Ciphertext ct" "env_sender env = local_id a"
    "env_recipient env = peer_id a" "env_message_id env = mid" "env_epoch env = epoch a"
    using enc by (auto simp: encrypt_Ok_iff)
  have "cipher_for L (env_epoch env) b = Ok cipher"
    using assms(2) e(1) cipher_for_cong [of a b] unfolding e(8) paired_def by simp
  moreover have "aead_decrypt L cipher (nonce_as_array (env_nonce env)) aad ct = Some pt"
    using assms(1) e(3) unfolding aead_correct_def by blast
  moreover have "associated_data_for L (env_sender env) (env_recipient env) (env_message_id env)
      (env_epoch env) = Ok aad"
    using e(2) by (simp only: e(5-8))
  moreover have "env_sender env = peer_id b" "env_recipient env = local_id b"
    "env_epoch env = epoch b"
    using assms(2) e(5,6,8) by (simp_all add: paired_def)
  ultimately show ?thesis
    using e(4) assms(3) by (auto simp: opens_def in_window_def epoch_panics_def)
qed

lemma encrypt_nonce:
  assumes "encrypt L mid pt a = (Ok env, a')"
  shows "env_nonce env = nonce_number a (next_outbound_nonce a')"
    and "unat (next_outbound_nonce a') = Suc (unat (next_outbound_nonce a))"
    and "a' = a\<lparr>next_outbound_nonce := next_outbound_nonce a'\<rparr>"
  using assms
  by (auto simp: encrypt_Ok_iff nonce_number_def unat_add_one add_overflows_one_iff)

lemma synced_fresh:
  assumes "synced a b" and "unat (next_outbound_nonce a) < unat k"
  shows "nonce_number a k \<notin> tracked b ep"
proof
  assume "nonce_number a k \<in> tracked b ep"
  then obtain j where "nonce_number a k = nonce_number a j" "unat j \<le> unat (next_outbound_nonce a)"
    using assms(1) unfolding synced_def by metis
  then show False using assms(2) by (simp add: nonce_number_inj)
qed

lemma decrypt_of_encrypt:
  assumes "aead_correct L" and "paired a b" and "synced a b" and "epoch b \<noteq> - 1"
    and enc: "encrypt L mid pt a = (Ok env, a')"
  shows "\<exists>b'. decrypt L env b = (Ok pt, b') \<and> paired a' b' \<and> synced a' b'"
proof -
  note n = encrypt_nonce [OF enc]
  have "env_nonce env \<notin> tracked b (env_epoch env)"
    unfolding n(1) using n(2) by (intro synced_fresh [OF assms(3)]) simp
  then have "decrypt L env b = (Ok pt, noted env b)"
    using decrypt_opens [OF encrypt_opens [OF assms(1,2,4) enc]] by simp
  moreover have "paired a' (noted env b)"
    using assms(2) by (subst n(3)) (simp add: paired_def)
  moreover have same: "nonce_number a' = nonce_number a"
    by (subst n(3)) (auto simp: nonce_number_def)
  have "synced a' (noted env b)"
    using assms(3) n(1,2) unfolding synced_def same
    by (auto simp: tracked_noted) (meson le_SucI)+
  ultimately show ?thesis by blast
qed

section \<open>Many messages, in any order\<close>

text \<open>A batch of encryptions by one session; the result pairs every envelope with its plaintext.\<close>

fun encrypt_all ::
  "crates \<Rightarrow> (message_id \<times> bytes) list \<Rightarrow> crypto_session
    \<Rightarrow> ((encrypted_envelope \<times> bytes) list, crypto_error) result \<times> crypto_session" where
  "encrypt_all L [] a = (Ok [], a)"
| "encrypt_all L ((mid, pt) # ms) a =
     and_then (encrypt L mid pt a) (\<lambda>env a.
     and_then (encrypt_all L ms a) (\<lambda>envs a. (Ok ((env, pt) # envs), a)))"

fun decrypt_all ::
  "crates \<Rightarrow> encrypted_envelope list \<Rightarrow> crypto_session
    \<Rightarrow> (bytes list, crypto_error) result \<times> crypto_session" where
  "decrypt_all L [] b = (Ok [], b)"
| "decrypt_all L (env # envs) b =
     and_then (decrypt L env b) (\<lambda>pt b.
     and_then (decrypt_all L envs b) (\<lambda>pts b. (Ok (pt # pts), b)))"

lemma encrypt_all_opens:
  assumes "aead_correct L" and "paired a b" and "epoch b \<noteq> - 1"
    and "encrypt_all L ms a = (Ok xs, a')"
  shows "(\<forall>(env, pt) \<in> set xs. opens L b env pt \<and>
      (\<exists>k. env_nonce env = nonce_number a k \<and> unat (next_outbound_nonce a) < unat k)) \<and>
    distinct (map (\<lambda>(env, pt). env_nonce env) xs)"
  using assms(2,4)
proof (induction ms arbitrary: a xs)
  case Nil
  then show ?case by simp
next
  case (Cons m ms)
  obtain mid pt where m: "m = (mid, pt)" by fastforce
  obtain env a1 ys where e: "encrypt L mid pt a = (Ok env, a1)"
    and r: "encrypt_all L ms a1 = (Ok ys, a')" and xs: "xs = (env, pt) # ys"
    using Cons.prems(2) unfolding m by (auto simp: and_then_eq_Ok_iff)
  note n = encrypt_nonce [OF e]
  have same: "nonce_number a1 = nonce_number a"
    by (subst n(3)) (auto simp: nonce_number_def)
  have "paired a1 b" using Cons.prems(1) by (subst n(3)) (simp add: paired_def)
  note IH = Cons.IH [OF this r, unfolded same n(2)]
  have op: "opens L b env pt" by (rule encrypt_opens [OF assms(1) Cons.prems(1) assms(3) e])
  have own: "env_nonce env = nonce_number a (next_outbound_nonce a1)"
    "unat (next_outbound_nonce a) < unat (next_outbound_nonce a1)"
    using n(1,2) by simp_all
  have later: "\<exists>k. env_nonce env' = nonce_number a k \<and> unat (next_outbound_nonce a1) < unat k"
    if "(env', pt') \<in> set ys" for env' pt'
    using IH that n(2) by fastforce
  have "env_nonce env \<noteq> env_nonce env'" if "(env', pt') \<in> set ys" for env' pt'
    using later [OF that] own(1) by (auto simp: nonce_number_inj)
  then have "distinct (map (\<lambda>(env, pt). env_nonce env) xs)"
    using IH unfolding xs by (auto simp: image_def)
  moreover have "\<forall>(env', pt') \<in> set xs. opens L b env' pt' \<and>
      (\<exists>k. env_nonce env' = nonce_number a k \<and> unat (next_outbound_nonce a) < unat k)"
  proof (rule ballI, clarify)
    fix env' pt'
    assume "(env', pt') \<in> set xs"
    then consider "env' = env" "pt' = pt" | "(env', pt') \<in> set ys" unfolding xs by auto
    then show "opens L b env' pt' \<and>
      (\<exists>k. env_nonce env' = nonce_number a k \<and> unat (next_outbound_nonce a) < unat k)"
    proof cases
      case 2
      then have "opens L b env' pt'" using IH by blast
      then show ?thesis using later [OF 2] own(2) less_trans by blast
    qed (use op own in blast)
  qed
  ultimately show ?case by blast
qed

lemma decrypt_all_opens:
  assumes "\<forall>(env, pt) \<in> set xs. opens L b env pt \<and> env_nonce env \<notin> tracked b (env_epoch env)"
    and "distinct (map (\<lambda>(env, pt). env_nonce env) xs)"
  shows "\<exists>b'. decrypt_all L (map fst xs) b = (Ok (map snd xs), b')"
  using assms
proof (induction xs arbitrary: b)
  case (Cons x xs)
  obtain env pt where x: "x = (env, pt)" by fastforce
  have d: "decrypt L env b = (Ok pt, noted env b)"
    using Cons.prems(1) decrypt_opens [of L b env pt] by (auto simp: x)
  have "\<forall>(env', pt') \<in> set xs. opens L (noted env b) env' pt' \<and>
      env_nonce env' \<notin> tracked (noted env b) (env_epoch env')"
  proof (rule ballI, clarify)
    fix env' pt'
    assume m: "(env', pt') \<in> set xs"
    then have "opens L b env' pt'" "env_nonce env' \<notin> tracked b (env_epoch env')"
      using Cons.prems(1) by auto
    moreover have "env_nonce env' \<noteq> env_nonce env"
      using Cons.prems(2) m unfolding x by force
    ultimately show "opens L (noted env b) env' pt' \<and>
      env_nonce env' \<notin> tracked (noted env b) (env_epoch env')"
      by (auto simp: tracked_noted)
  qed
  then obtain b' where "decrypt_all L (map fst xs) (noted env b) = (Ok (map snd xs), b')"
    using Cons.IH Cons.prems(2) by fastforce
  then show ?case by (simp add: x d)
qed simp

section \<open>The header is authenticated\<close>

lemma associated_data_inj:
  assumes "json_aad_injective L"
    and "associated_data_for L s r m e = Ok aad" and "associated_data_for L s' r' m' e' = Ok aad"
    and "valid_client_id s" "valid_client_id r" "valid_client_id s'" "valid_client_id r'"
  shows "s' = s \<and> r' = r \<and> m' = m \<and> e' = e"
proof -
  let ?rec = "\<lambda>s r m e. \<lparr>ad_version = PROTOCOL_VERSION, ad_sender = s, ad_recipient = r,
    ad_message_id = m, ad_epoch = e\<rparr>"
  have "json_of_aad L (?rec s r m e) = json_of_aad L (?rec s' r' m' e')"
    using assms(2,3) by (simp add: associated_data_for_def)
  moreover have "wf_aad (?rec s r m e)" "wf_aad (?rec s' r' m' e')"
    using assms(4-7) by (simp_all add: wf_aad_def)
  ultimately have "?rec s r m e = ?rec s' r' m' e'"
    using assms(1) unfolding json_aad_injective_def by blast
  then show ?thesis by simp
qed

lemma accepted_header_genuine:
  assumes "aead_authentic L" and "json_aad_injective L"
    and v: "valid_client_id (local_id a)" "valid_client_id (peer_id a)"
    and enc: "encrypt L mid pt a = (Ok env, a')"
    and wf: "valid_client_id (env_sender env')" "valid_client_id (env_recipient env')"
    and ct: "env_ciphertext env' = env_ciphertext env"
    and dec: "decrypt L env' b = (Ok pt', b')"
  shows "env' = env" and "aead_correct L \<Longrightarrow> pt' = pt"
proof -
  obtain c1 aad ct where e: "associated_data_for L (local_id a) (peer_id a) mid (epoch a) = Ok aad"
    "aead_encrypt L c1 (nonce_as_array (env_nonce env)) aad pt = Some ct"
    "env_ciphertext env = Ciphertext ct"
    "env_sender env = local_id a" "env_recipient env = peer_id a" "env_message_id env = mid"
    "env_epoch env = epoch a"
    using enc by (auto simp: encrypt_Ok_iff)
  obtain c2 aad' where d: "associated_data_for L (env_sender env') (env_recipient env')
      (env_message_id env') (env_epoch env') = Ok aad'"
    "aead_decrypt L c2 (nonce_as_array (env_nonce env')) aad' ct = Some pt'"
    using decrypt_Ok_opens [OF dec] ct e(3) by (auto simp: opens_def)
  have n: "nonce_as_array (env_nonce env') = nonce_as_array (env_nonce env)" and aad: "aad' = aad" and k: "c2 = c1"
    using assms(1) e(2) d(2) unfolding aead_authentic_def by blast+
  show "pt' = pt" if "aead_correct L"
  proof -
    have "aead_decrypt L c1 (nonce_as_array (env_nonce env)) aad ct = Some pt"
      using that e(2) unfolding aead_correct_def by blast
    then show ?thesis using d(2) n aad k by simp
  qed
  from n have "env_nonce env' = env_nonce env"
    by (cases "env_nonce env"; cases "env_nonce env'") simp
  moreover have "env_sender env' = local_id a \<and> env_recipient env' = peer_id a \<and>
      env_message_id env' = mid \<and> env_epoch env' = epoch a"
    by (rule associated_data_inj [OF assms(2) e(1) d(1) [unfolded aad] v wf])
  ultimately show "env' = env" using e ct by simp
qed

end
