(* ===== verification/Crypto_Rekey.thy ===== *)
theory Crypto_Rekey
  imports Crypto_Pair
begin

text \<open>
  The rekey handshake between two paired sessions: it always leads to a common new master secret
  and a common next epoch, whatever messages were exchanged before; a handshake is single-use and
  is never abandoned; and an envelope sealed before the switch no longer opens after it.
\<close>

section \<open>A complete handshake\<close>

definition next_master :: "crates \<Rightarrow> bytes \<Rightarrow> bytes \<Rightarrow> bytes \<Rightarrow> bytes option" where
  "next_master L ska skb old =
     hkdf_sha256 L old (x25519_dh L ska (x25519_public L skb)) REKEY_MASTER_LABEL 32"

lemma next_master_total:
  assumes "crypto_laws L"
  obtains nm where "next_master L ska skb old = Some nm"
  using assms unfolding crypto_laws_def kdf_total_def next_master_def by blast

lemma rekey_request_staged:
  assumes "crypto_laws L" and "next_master L ska skb (master_secret b) = Some nm"
    and "\<not> is_rekey_in_progress b"
  shows "handle_session_payload L skb (RekeyRequest rid (PublicKeyBytes (x25519_public L ska))) b =
     (Ok (Some (RekeyResponse rid (PublicKeyBytes (x25519_public L skb)))),
      b\<lparr>staged_master := Some nm\<rparr>)"
  using assms unfolding handle_request_iff
  by (simp add: next_master_def crypto_laws_def x25519_agrees_def)

lemma rekey_commit_rotates:
  assumes "staged_master b = Some nm" and "\<not> rotation_panics L b"
  shows "commit_staged_rekey L b = (Ok (), (rotated nm b)\<lparr>staged_master := None\<rparr>)"
proof -
  have eq: "rotation_panics L (b\<lparr>staged_master := None\<rparr>) = rotation_panics L b"
    "rotated nm (b\<lparr>staged_master := None\<rparr>) = (rotated nm b)\<lparr>staged_master := None\<rparr>"
    by (simp_all add: rotation_panics_def rotated_def)
  show ?thesis using assms by (simp add: commit_staged_rekey_def apply_next_master_Ok_iff eq)
qed

lemma rekey_response_rotates:
  assumes "pending_rekey a = Some \<lparr>pr_rekey_id = rid, pr_ephemeral_secret = ska\<rparr>"
    and "next_master L ska skb (master_secret a) = Some nm" and "\<not> rotation_panics L a"
  shows "handle_session_payload L sk (RekeyResponse rid (PublicKeyBytes (x25519_public L skb))) a =
     (Ok None, (rotated nm a)\<lparr>pending_rekey := None\<rparr>)"
  by (rule handle_response_match [OF assms(1)]) (use assms(2,3) in \<open>simp_all add: next_master_def\<close>)

lemma paired_rotated:
  assumes "paired a b"
  shows "paired ((rotated nm a)\<lparr>pending_rekey := p\<rparr>) ((rotated nm b)\<lparr>staged_master := st\<rparr>)"
  using assms by (simp add: paired_def)

lemma tracked_rotated: "tracked (rotated nm b) ep \<subseteq> tracked b ep"
  by (auto simp: tracked_def rotated_def retain_apply split: option.splits if_splits)

lemma tracked_upd [simp]:
  "tracked (b\<lparr>pending_rekey := p\<rparr>) ep = tracked b ep"
  "tracked (b\<lparr>staged_master := m\<rparr>) ep = tracked b ep"
  by (simp_all add: tracked_def)

lemma nonce_number_upd [simp]:
  "nonce_number (a\<lparr>pending_rekey := p\<rparr>) = nonce_number a"
  "nonce_number (a\<lparr>staged_master := m\<rparr>) = nonce_number a"
  "nonce_number (rotated nm a) = nonce_number a"
  "nonce_number (noted env a) = nonce_number a"
  by (auto simp: nonce_number_def)

lemma synced_rotated:
  assumes "synced a b"
  shows "synced ((rotated nm a)\<lparr>pending_rekey := p\<rparr>) ((rotated nm' b)\<lparr>staged_master := st\<rparr>)"
    and "synced ((rotated nm a)\<lparr>staged_master := st\<rparr>) ((rotated nm' b)\<lparr>pending_rekey := p\<rparr>)"
  using assms tracked_rotated [of nm' b] unfolding synced_def by (simp_all add: subset_iff) blast+

section \<open>Messages in flight across the switch\<close>

text \<open>
  \<open>decrypt\<close> lets an envelope of the previous epoch pass the epoch check, but derives its key from the
  master secret of the session, which the rotation has replaced.
\<close>

text \<open>The key derivation gives different keys for two master secrets, whatever it is called with besides.\<close>

definition kdf_tells_apart :: "crates \<Rightarrow> bytes \<Rightarrow> bytes \<Rightarrow> bool" where
  "kdf_tells_apart L m m' \<longleftrightarrow>
     (\<forall>info. hkdf_sha256 L SESSION_KEY_SALT m info 32 \<noteq> hkdf_sha256 L SESSION_KEY_SALT m' info 32)"

lemma ciphers_differ:
  assumes "kdf_total L" and "aead_key_injective L" and "kdf_tells_apart L (master_secret s) (master_secret t)"
    and "session_info_bytes t = session_info_bytes s" and "cipher_for L ep s = Ok c"
  obtains c' where "cipher_for L ep t = Ok c'" and "c' \<noteq> c"
proof -
  let ?info = "session_info_bytes s @ be_bytes 4 ep"
  obtain k k' where k: "hkdf_sha256 L SESSION_KEY_SALT (master_secret s) ?info 32 = Some k"
    "hkdf_sha256 L SESSION_KEY_SALT (master_secret t) ?info 32 = Some k'" "length k = 32" "length k' = 32"
    using assms(1) unfolding kdf_total_def by blast
  obtain c' where c': "aead_new L k' = Some c'" using assms(1) k(4) unfolding kdf_total_def by blast
  have c: "aead_new L k = Some c" using assms(5) k(1) by (simp add: cipher_for_def split: option.splits)
  have "k' \<noteq> k" using assms(3) k(1,2) unfolding kdf_tells_apart_def by metis
  then have "c' \<noteq> c" using assms(2) c c' unfolding aead_key_injective_def by metis
  moreover have "cipher_for L ep t = Ok c'" using k(2) c' assms(4) by (simp add: cipher_for_def)
  ultimately show thesis using that by blast
qed

lemma in_flight_fails:
  assumes "aead_authentic L" and "paired a b" and "epoch b \<noteq> - 1"
    and enc: "encrypt L mid pt a = (Ok env, a')"
    and new: "cipher_for L (epoch b) (rotated nm b) = Ok c'"
    and old: "cipher_for L (epoch b) b = Ok c" and "c' \<noteq> c"
  shows "decrypt L env (rotated nm b) = (Err AuthenticationFailed, rotated nm b)"
proof -
  obtain c0 aad ct where e: "cipher_for L (epoch a) a = Ok c0"
    "associated_data_for L (local_id a) (peer_id a) mid (epoch a) = Ok aad"
    "aead_encrypt L c0 (nonce_as_array (env_nonce env)) aad pt = Some ct"
    "env_ciphertext env = Ciphertext ct"
    "env_sender env = local_id a" "env_recipient env = peer_id a" "env_message_id env = mid"
    "env_epoch env = epoch a"
    using enc by (auto simp: encrypt_Ok_iff)
  have ep: "epoch a = epoch b" using assms(2) by (simp add: paired_def)
  have "c0 = c"
    using e(1) old assms(2) cipher_for_cong [of a b] by (simp add: paired_def)
  then have none: "aead_decrypt L c' (nonce_as_array (env_nonce env)) aad ct = None"
    using assms(1) e(3) \<open>c' \<noteq> c\<close> unfolding aead_authentic_def by (metis option.exhaust)
  have w: "\<not> epoch_panics L (env_epoch env) (rotated nm b)" "in_window (env_epoch env) (rotated nm b)"
    using assms(3) unat_add_one [of "epoch b"]
    by (auto simp: in_window_def epoch_panics_def e(8) ep add_overflows_one_iff)
  have p: "env_sender env = peer_id (rotated nm b)" "env_recipient env = local_id (rotated nm b)"
    using assms(2) e(5,6) by (simp_all add: paired_def)
  have c: "cipher_for L (env_epoch env) (rotated nm b) = Ok c'" using new by (simp add: e(8) ep)
  have "associated_data_for L (env_sender env) (env_recipient env) (env_message_id env)
      (env_epoch env) = Ok aad"
    using e(2) by (simp only: e(5-8))
  from decrypt_in_window [OF p w c this] show ?thesis using none e(4) by simp
qed

section \<open>A pending handshake is never abandoned\<close>

text \<open>
  The initiator forgets a pending handshake in one way only: a response with its rekey id. No error,
  no unknown id and no colliding request clears it.
\<close>

lemma step_keeps_pending:
  assumes "session_step L s l s'" and "pending_rekey s = Some p"
  shows "pending_rekey s' = Some p \<or>
    (pending_rekey s' = None \<and> epoch s' = epoch s + 1 \<and>
     (\<exists>sk pk. handle_session_payload L sk (RekeyResponse (pr_rekey_id p) pk) s = (Ok None, s')))"
  using assms
proof (induction rule: session_step.induct)
  case (handle sk q s r s')
  show ?case
  proof (cases "\<exists>pk. q = RekeyResponse (pr_rekey_id p) pk")
    case True
    then obtain pk where q: "q = RekeyResponse (pr_rekey_id p) pk" by blast
    from handle(1,2) show ?thesis
    proof (cases rule: handle_session_payload_state)
      case (switched nm)
      have "pending_rekey s' = None" by (simp add: switched(2))
      then have ne: "s' \<noteq> s" using handle(3) by auto
      have "r = Ok None"
        using handle ne q apply_next_master_not_Err
        by (auto simp: handle_session_payload_def Let_def and_then_def
            split: option.splits if_splits result.splits prod.splits) (metis fst_conv)
      then show ?thesis using handle(1) q switched by auto
    qed (use handle in simp_all)
  next
    case False
    then have "pending_rekey s' = pending_rekey s"
      using handle by (cases q) (auto simp: handle_session_payload_def split: if_splits)
    then show ?thesis using handle by simp
  qed
next
  case (commit s r s')
  from commit(1,2) show ?case by (cases rule: commit_staged_rekey_state) (use commit in simp_all)
next
  case (start rid sk s r s')
  then show ?case by (simp add: start_rekey_def)
qed (auto simp: decrypt_Ok_iff dest!: encrypt_state decrypt_Err_state)

lemma pending_blocks:
  assumes "pending_rekey s = Some p"
  shows "start_rekey L rid sk s = (Err RekeyAlreadyInProgress, s)"
    and "handle_session_payload L sk' (RekeyRequest rid' pk) s = (Err RekeyAlreadyInProgress, s)"
  using assms by (simp_all add: start_rekey_def handle_session_payload_def)

section \<open>Fingerprints\<close>

definition hex_lower :: "uchar \<Rightarrow> bool" where
  "hex_lower c \<longleftrightarrow> 48 \<le> c \<and> c \<le> 57 \<or> 97 \<le> c \<and> c \<le> 102"

lemma hex_byte_all: "list_all (\<lambda>b. length (hex_byte b) = 2 \<and> list_all hex_lower (hex_byte b))
    (map of_nat [0 ..< 256])"
  by code_simp

lemma byte_cases_all: "list_all P (map of_nat [0 ..< 256]) \<Longrightarrow> P (b :: byte)"
proof -
  assume "list_all P (map of_nat [0 ..< 256])"
  moreover have "b = of_nat (unat b)" "unat b < 256" using unat_less_exp [of b] by simp_all
  ultimately show "P b" by (metis atLeastLessThan_iff image_eqI le0 list.set_map list_all_iff set_upt)
qed

lemma hex_byte_shape [simp]: "length (hex_byte b) = 2" "list_all hex_lower (hex_byte b)"
  using byte_cases_all [OF hex_byte_all] by auto

definition hex_value :: "uchar \<Rightarrow> byte" where
  "hex_value c = (if c \<le> 57 then ucast c - 48 else ucast c - 87)"

fun unhex :: "ustring \<Rightarrow> bytes" where
  "unhex (h # l # cs) = (hex_value h * 16 + hex_value l) # unhex cs"
| "unhex _ = []"

lemma unhex_hex_all: "list_all (\<lambda>b. unhex (hex_byte b) = [b]) (map of_nat [0 ..< 256])"
  by code_simp

lemma unhex_hex: "unhex (concat (map hex_byte bs)) = bs"
proof (induction bs)
  case (Cons b bs)
  have "unhex (hex_byte b @ cs) = b # unhex cs" for cs
    using byte_cases_all [OF unhex_hex_all, of b] by (simp add: hex_byte_def)
  then show ?case using Cons by simp
qed simp

lemma length_concat_hex [simp]: "length (concat (map hex_byte bs)) = 2 * length bs"
  by (induction bs) simp_all

lemma fingerprint_shape:
  "digest_lengths L \<Longrightarrow> length (fingerprint L pk) = 64 \<and> list_all hex_lower (fingerprint L pk)"
  by (auto simp: fingerprint_def digest_lengths_def list_all_iff)
    (use hex_byte_shape(2) in \<open>auto simp: list_all_iff\<close>)

lemma fingerprint_eq_iff:
  "fingerprint L pk = fingerprint L pk' \<longleftrightarrow>
     sha256_digest L (public_key_as_array pk) = sha256_digest L (public_key_as_array pk')"
  unfolding fingerprint_def by (metis unhex_hex)

end
