(* ===== verification/Client_Session.thy ===== *)
theory Client_Session
  imports Crypto_Rekey
begin

text \<open>
  The client's session, \<open>crates/chat-client/src/session.rs\<close>: peer key acceptance with an optional
  pinned fingerprint, the crypto session it opens, chat lines, the automatic rekey counter and the
  handling of inbound events. Fresh random values are arguments: \<open>rng\<close> holds the message ids, the
  rekey id and the ephemeral secret a call may draw.
\<close>

section \<open>Data\<close>

datatype inbound_event =
    InboundChat ustring
  | RekeyCompleted u32

record inbound_outcome =
  io_event :: "inbound_event option"
  io_reply_event :: "wire_event option"

definition inbound_outcome_default :: inbound_outcome where
  "inbound_outcome_default = \<lparr>io_event = None, io_reply_event = None\<rparr>"

record client_session =
  cs_local_id :: client_id
  cs_peer_id :: client_id
  cs_keypair :: key_pair
  cs_peer_public_key :: "public_key_bytes option"
  cs_crypto_session :: "crypto_session option"
  cs_expected_peer_fingerprint :: "ustring option"
  cs_auto_rekey_after :: "u32 option"
  cs_outbound_since_rekey :: u32

datatype client_session_error =
    MissingPeerKey
  | UnexpectedPeerKey
  | PeerKeyFingerprintMismatch
  | UnexpectedSessionPayload
  | CryptoErr crypto_error

record rng =
  rg_message_id :: message_id
  rg_message_id2 :: message_id
  rg_rekey_id :: rekey_id
  rg_secret :: bytes

section \<open>Operations\<close>

definition client_session_new :: "crates \<Rightarrow> bytes \<Rightarrow> client_id \<Rightarrow> client_id \<Rightarrow> client_session" where
  "client_session_new L secret local peer =
     \<lparr>cs_local_id = local, cs_peer_id = peer, cs_keypair = key_pair_generate L secret,
      cs_peer_public_key = None, cs_crypto_session = None, cs_expected_peer_fingerprint = None,
      cs_auto_rekey_after = None, cs_outbound_since_rekey = 0\<rparr>"

definition set_auto_rekey_after :: "u32 \<Rightarrow> client_session \<Rightarrow> client_session" where
  "set_auto_rekey_after threshold self = self\<lparr>cs_auto_rekey_after := Some threshold\<rparr>"

definition expect_peer_fingerprint :: "crates \<Rightarrow> ustring \<Rightarrow> client_session \<Rightarrow> client_session" where
  "expect_peer_fingerprint L fp self =
     self\<lparr>cs_expected_peer_fingerprint := Some (to_lowercase (unicode_lower_table L) (trim fp))\<rparr>"

definition peer_fingerprint :: "crates \<Rightarrow> client_session \<Rightarrow> ustring option" where
  "peer_fingerprint L self = map_option (fingerprint L) (cs_peer_public_key self)"

definition client_hello :: "client_session \<Rightarrow> wire_event" where
  "client_hello self = ClientHello (cs_local_id self) (key_pair_public_key (cs_keypair self))"

definition peer_key_event :: "client_session \<Rightarrow> wire_event" where
  "peer_key_event self =
     PeerKey (cs_local_id self) (cs_peer_id self) (key_pair_public_key (cs_keypair self))"

definition is_ready :: "client_session \<Rightarrow> bool" where
  "is_ready self \<longleftrightarrow> cs_crypto_session self \<noteq> None"

text \<open>
  \<open>self.crypto_session.as_mut().ok_or(MissingPeerKey)?\<close> followed by an operation on the borrowed
  session and the conversion of its error.
\<close>

definition on_crypto ::
  "(crypto_session \<Rightarrow> ('a, crypto_error) result \<times> crypto_session) \<Rightarrow> client_session
    \<Rightarrow> ('a, client_session_error) result \<times> client_session" where
  "on_crypto f self = (case cs_crypto_session self of
      None \<Rightarrow> (Err MissingPeerKey, self)
    | Some session \<Rightarrow>
        let (r, session) = f session
        in (map_err CryptoErr r, self\<lparr>cs_crypto_session := Some session\<rparr>))"

definition client_encrypt_payload ::
  "crates \<Rightarrow> message_id \<Rightarrow> session_payload \<Rightarrow> client_session
    \<Rightarrow> (wire_event, client_session_error) result \<times> client_session" where
  "client_encrypt_payload L mid payload self =
     and_then (on_crypto (encrypt_payload L mid payload) self) (\<lambda>envelope self.
       (Ok (EncryptedMessage envelope), self))"

definition client_start_rekey ::
  "crates \<Rightarrow> rng \<Rightarrow> client_session \<Rightarrow> (wire_event, client_session_error) result \<times> client_session" where
  "client_start_rekey L rg self =
     and_then (on_crypto (start_rekey L (rg_rekey_id rg) (rg_secret rg)) self) (\<lambda>payload self.
       client_encrypt_payload L (rg_message_id2 rg) payload self)"

definition encrypt_line ::
  "crates \<Rightarrow> rng \<Rightarrow> ustring \<Rightarrow> client_session
    \<Rightarrow> (wire_event list, client_session_error) result \<times> client_session" where
  "encrypt_line L rg line self =
     and_then (client_encrypt_payload L (rg_message_id rg) (Chat line) self) (\<lambda>chat self.
       case cs_auto_rekey_after self of
         None \<Rightarrow> (Ok [chat], self)
       | Some threshold \<Rightarrow>
         (case rust_add (overflow_checks L) (cs_outbound_since_rekey self) 1 of
            None \<Rightarrow> (Panic, self)
          | Some n \<Rightarrow>
            let self = self\<lparr>cs_outbound_since_rekey := n\<rparr>;
                in_progress = (case cs_crypto_session self of
                  None \<Rightarrow> False | Some session \<Rightarrow> is_rekey_in_progress session)
            in if threshold \<le> n \<and> \<not> in_progress
               then and_then (client_start_rekey L rg self) (\<lambda>request self. (Ok [chat, request], self))
               else (Ok [chat], self)))"

definition handle_encrypted_message ::
  "crates \<Rightarrow> rng \<Rightarrow> encrypted_envelope \<Rightarrow> client_session
    \<Rightarrow> (inbound_outcome, client_session_error) result \<times> client_session" where
  "handle_encrypted_message L rg envelope self =
     and_then (on_crypto (decrypt_payload L envelope) self) (\<lambda>payload self.
       case payload of
         Chat text_line \<Rightarrow>
           (Ok \<lparr>io_event = Some (InboundChat text_line), io_reply_event = None\<rparr>, self)
       | RekeyRequest rekey_id ephemeral_public_key \<Rightarrow>
           and_then (on_crypto (handle_session_payload L (rg_secret rg)
                       (RekeyRequest rekey_id ephemeral_public_key)) self) (\<lambda>reply self.
             case reply of
               None \<Rightarrow> (Err UnexpectedSessionPayload, self)
             | Some reply \<Rightarrow>
               and_then (on_crypto (encrypt_payload L (rg_message_id rg) reply) self)
                 (\<lambda>reply_envelope self.
               and_then (on_crypto (commit_staged_rekey L) self) (\<lambda>_ self.
                 (Ok \<lparr>io_event = None, io_reply_event = Some (EncryptedMessage reply_envelope)\<rparr>, self))))
       | RekeyResponse rekey_id ephemeral_public_key \<Rightarrow>
           and_then (on_crypto (handle_session_payload L (rg_secret rg)
                       (RekeyResponse rekey_id ephemeral_public_key)) self) (\<lambda>_ self.
             let self = self\<lparr>cs_outbound_since_rekey := 0\<rparr> in
             on_crypto (\<lambda>session.
               (Ok \<lparr>io_event = Some (RekeyCompleted (epoch session)), io_reply_event = None\<rparr>, session)) self))"

definition handle_event ::
  "crates \<Rightarrow> rng \<Rightarrow> wire_event \<Rightarrow> client_session
    \<Rightarrow> (inbound_outcome, client_session_error) result \<times> client_session" where
  "handle_event L rg event self = (case event of
      PeerKey from to public_key \<Rightarrow>
        if from \<noteq> cs_peer_id self \<or> to \<noteq> cs_local_id self then (Err UnexpectedPeerKey, self)
        else (case cs_peer_public_key self of
          Some peer_public_key \<Rightarrow>
            if peer_public_key = public_key then (Ok inbound_outcome_default, self)
            else (Err UnexpectedPeerKey, self)
        | None \<Rightarrow>
            if (case cs_expected_peer_fingerprint self of
                  Some expected \<Rightarrow> fingerprint L public_key \<noteq> expected | None \<Rightarrow> False)
            then (Err PeerKeyFingerprintMismatch, self)
            else
              let self = self\<lparr>cs_peer_public_key := Some public_key\<rparr>;
                  self = self\<lparr>cs_crypto_session := Some (crypto_session_new L (cs_keypair self)
                           public_key (cs_local_id self) (cs_peer_id self))\<rparr>
              in (Ok inbound_outcome_default, self))
    | EncryptedMessage envelope \<Rightarrow> handle_encrypted_message L rg envelope self
    | ClientHello _ _ \<Rightarrow> (Ok inbound_outcome_default, self)
    | Ack _ \<Rightarrow> (Ok inbound_outcome_default, self)
    | ErrorEvent _ _ \<Rightarrow> (Ok inbound_outcome_default, self))"

end
