(* ===== verification/Client_Main.thy ===== *)
theory Client_Main
  imports Client_Session
begin

text \<open>
  The command line client, \<open>crates/chat-client/src/main.rs\<close>: start-up from the arguments, and the
  event loop as a function from one input of \<open>tokio::select!\<close> (a timer tick, a line of standard
  input, a WebSocket message) to what the client sends and prints and whether it goes on. Whether the
  next send on the socket succeeds is decided by the parameter \<open>net\<close>, which sees what was sent so far.
\<close>

section \<open>Pure helpers\<close>

definition should_retry_peer_key :: "bool \<Rightarrow> bool" where
  "should_retry_peer_key ready \<longleftrightarrow> \<not> ready"

definition needs_peer_key_reply :: "bool \<Rightarrow> wire_event \<Rightarrow> bool" where
  "needs_peer_key_reply was_ready event \<longleftrightarrow>
     \<not> was_ready \<and> (case event of PeerKey _ _ _ \<Rightarrow> True | _ \<Rightarrow> False)"

definition normalize_fingerprint :: "crates \<Rightarrow> ustring \<Rightarrow> ustring option" where
  "normalize_fingerprint L raw =
     (let normalized = to_lowercase (unicode_lower_table L) (trim raw) in
      if length (as_bytes normalized) = 64 \<and> list_all is_ascii_hexdigit normalized
      then Some normalized else None)"

definition control_status :: "wire_event \<Rightarrow> ustring option" where
  "control_status event = (case event of
      Ack _ \<Rightarrow> Some (str ''message delivered to relay'')
    | ErrorEvent _ message \<Rightarrow> Some (str ''relay error: '' @ message)
    | ClientHello _ _ \<Rightarrow> None
    | PeerKey _ _ _ \<Rightarrow> None
    | EncryptedMessage _ \<Rightarrow> None)"

section \<open>State, inputs and outputs\<close>

record args =
  ar_server :: ustring
  ar_id :: ustring
  ar_peer :: ustring
  ar_verify_fingerprint :: "ustring option"
  ar_rekey_after :: "u32 option"

datatype cli_error =
    CliLocalId type_error
  | CliPeerId type_error
  | CliFingerprint
  | CliConnect ustring
  | CliEncode
  | CliSend
  | CliStdin
  | CliRead
  | CliDecode
  | CliStartRekey client_session_error
  | CliEncrypt client_session_error

datatype cli_output =
    ChatLine ustring
  | StatusLine ustring
  | RotatedTo u32
  | FingerprintVerified ustring
  | FingerprintUnverified ustring
  | RekeyNeedsSession
  | PeerKeyNotReceived
  | RejectedEvent client_session_error

record cli =
  cl_session :: client_session
  cl_pinned :: "ustring option"
  cl_sent :: "ustring list"
  cl_output :: "cli_output list"

datatype ws_message = WsText ustring | WsClose | WsOther

datatype cli_input =
    Tick
  | Line "ustring option option"
  | Socket "ws_message option option"

text \<open>
  \<open>Line None\<close> is an error of standard input and \<open>Line (Some None)\<close> its end; \<open>Socket None\<close> is the end of
  the stream and \<open>Socket (Some None)\<close> an error of the WebSocket.
\<close>

datatype flow = Continue | Break

section \<open>The client\<close>

definition send_event ::
  "crates \<Rightarrow> (ustring list \<Rightarrow> bool) \<Rightarrow> wire_event \<Rightarrow> cli \<Rightarrow> (unit, cli_error) result \<times> cli" where
  "send_event L net event c = (case json_of_wire L event of
      None \<Rightarrow> (Err CliEncode, c)
    | Some payload \<Rightarrow>
        if net (cl_sent c) then (Ok (), c\<lparr>cl_sent := cl_sent c @ [payload]\<rparr>) else (Err CliSend, c))"

fun send_events ::
  "crates \<Rightarrow> (ustring list \<Rightarrow> bool) \<Rightarrow> wire_event list \<Rightarrow> cli \<Rightarrow> (unit, cli_error) result \<times> cli" where
  "send_events L net [] c = (Ok (), c)"
| "send_events L net (event # events) c =
     and_then (send_event L net event c) (\<lambda>_ c. send_events L net events c)"

definition say :: "cli_output \<Rightarrow> cli \<Rightarrow> cli" where
  "say x c = c\<lparr>cl_output := cl_output c @ [x]\<rparr>"

definition with_session ::
  "(client_session \<Rightarrow> ('a, client_session_error) result \<times> client_session) \<Rightarrow> cli
    \<Rightarrow> ('a, client_session_error) result \<times> cli" where
  "with_session f c = (let (r, session) = f (cl_session c) in (r, c\<lparr>cl_session := session\<rparr>))"

text \<open>Everything \<open>run\<close> does before its loop; \<open>secret\<close> is the fresh identity key.\<close>

definition run_start ::
  "crates \<Rightarrow> (ustring \<Rightarrow> bool) \<Rightarrow> (ustring list \<Rightarrow> bool) \<Rightarrow> bytes \<Rightarrow> args \<Rightarrow> (cli, cli_error) result" where
  "run_start L reachable net secret args =
     (case client_id_parse (ar_id args) of
        Err e \<Rightarrow> Err (CliLocalId e) | Panic \<Rightarrow> Panic
      | Ok local \<Rightarrow>
      (case client_id_parse (ar_peer args) of
        Err e \<Rightarrow> Err (CliPeerId e) | Panic \<Rightarrow> Panic
      | Ok peer \<Rightarrow>
        let session = client_session_new L secret local peer;
            session = (case ar_rekey_after args of
              None \<Rightarrow> session | Some threshold \<Rightarrow> set_auto_rekey_after threshold session);
            pinned = map_option (normalize_fingerprint L) (ar_verify_fingerprint args)
        in if pinned = Some None then Err CliFingerprint
           else
             let pinned = (case pinned of None \<Rightarrow> None | Some p \<Rightarrow> p);
                 session = (case pinned of
                   None \<Rightarrow> session | Some expected \<Rightarrow> expect_peer_fingerprint L expected session)
             in if \<not> reachable (ar_server args) then Err (CliConnect (ar_server args))
                else
                  let c = \<lparr>cl_session = session, cl_pinned = pinned, cl_sent = [], cl_output = []\<rparr>;
                      (r, c) = and_then (send_event L net (client_hello session) c) (\<lambda>_ c.
                                 send_event L net (peer_key_event session) c)
                  in (case r of Ok _ \<Rightarrow> Ok c | Err e \<Rightarrow> Err e | Panic \<Rightarrow> Panic)))"

definition on_line ::
  "crates \<Rightarrow> (ustring list \<Rightarrow> bool) \<Rightarrow> rng \<Rightarrow> ustring \<Rightarrow> cli \<Rightarrow> (flow, cli_error) result \<times> cli" where
  "on_line L net rg line c =
     (if line = [] then (Ok Continue, c)
      else if line = str ''/rekey'' then
        if \<not> is_ready (cl_session c) then (Ok Continue, say RekeyNeedsSession c)
        else (case with_session (client_start_rekey L rg) c of
            (Ok event, c) \<Rightarrow> and_then (send_event L net event c) (\<lambda>_ c. (Ok Continue, c))
          | (Err error, c) \<Rightarrow> (Err (CliStartRekey error), c)
          | (Panic, c) \<Rightarrow> (Panic, c))
      else (case with_session (encrypt_line L rg line) c of
          (Ok events, c) \<Rightarrow> and_then (send_events L net events c) (\<lambda>_ c. (Ok Continue, c))
        | (Err error, c) \<Rightarrow>
            if error = MissingPeerKey then (Ok Continue, say PeerKeyNotReceived c)
            else (Err (CliEncrypt error), c)
        | (Panic, c) \<Rightarrow> (Panic, c)))"

definition announce :: "wire_event \<Rightarrow> inbound_outcome \<Rightarrow> cli \<Rightarrow> cli" where
  "announce event outcome c = (case io_event outcome of
      Some (InboundChat line) \<Rightarrow> say (ChatLine line) c
    | Some (RekeyCompleted ep) \<Rightarrow> say (RotatedTo ep) c
    | None \<Rightarrow> (case control_status event of None \<Rightarrow> c | Some status \<Rightarrow> say (StatusLine status) c))"

definition show_fingerprint :: "crates \<Rightarrow> bool \<Rightarrow> cli \<Rightarrow> cli" where
  "show_fingerprint L was_ready c =
     (if \<not> was_ready \<and> is_ready (cl_session c) then
        (case peer_fingerprint L (cl_session c) of
           None \<Rightarrow> c
         | Some fp \<Rightarrow>
             if cl_pinned c \<noteq> None then say (FingerprintVerified fp) c
             else say (FingerprintUnverified fp) c)
      else c)"

definition on_text ::
  "crates \<Rightarrow> (ustring list \<Rightarrow> bool) \<Rightarrow> rng \<Rightarrow> ustring \<Rightarrow> cli \<Rightarrow> (flow, cli_error) result \<times> cli" where
  "on_text L net rg payload c = (case wire_of_json L payload of
      None \<Rightarrow> (Err CliDecode, c)
    | Some event \<Rightarrow>
      let was_ready = is_ready (cl_session c);
          reply_peer_key = needs_peer_key_reply was_ready event
      in (case with_session (handle_event L rg event) c of
            (Err error, c) \<Rightarrow> (Ok Continue, say (RejectedEvent error) c)
          | (Panic, c) \<Rightarrow> (Panic, c)
          | (Ok outcome, c) \<Rightarrow>
            let c = announce event outcome c in
            and_then (case io_reply_event outcome of
                        None \<Rightarrow> (Ok (), c) | Some reply \<Rightarrow> send_event L net reply c) (\<lambda>_ c.
            let c = show_fingerprint L was_ready c in
            and_then (if reply_peer_key then send_event L net (peer_key_event (cl_session c)) c
                      else (Ok (), c)) (\<lambda>_ c. (Ok Continue, c)))))"

definition cli_step ::
  "crates \<Rightarrow> (ustring list \<Rightarrow> bool) \<Rightarrow> rng \<Rightarrow> cli_input \<Rightarrow> cli \<Rightarrow> (flow, cli_error) result \<times> cli" where
  "cli_step L net rg input c = (case input of
      Tick \<Rightarrow>
        if should_retry_peer_key (is_ready (cl_session c))
        then and_then (send_event L net (peer_key_event (cl_session c)) c) (\<lambda>_ c. (Ok Continue, c))
        else (Ok Continue, c)
    | Line None \<Rightarrow> (Err CliStdin, c)
    | Line (Some None) \<Rightarrow> (Ok Break, c)
    | Line (Some (Some line)) \<Rightarrow> on_line L net rg line c
    | Socket None \<Rightarrow> (Ok Break, c)
    | Socket (Some None) \<Rightarrow> (Err CliRead, c)
    | Socket (Some (Some (WsText payload))) \<Rightarrow> on_text L net rg payload c
    | Socket (Some (Some WsClose)) \<Rightarrow> (Ok Break, c)
    | Socket (Some (Some WsOther)) \<Rightarrow> (Ok Continue, c))"

text \<open>The loop over a finite sequence of inputs, each with its randomness.\<close>

fun cli_loop ::
  "crates \<Rightarrow> (ustring list \<Rightarrow> bool) \<Rightarrow> (rng \<times> cli_input) list \<Rightarrow> cli
    \<Rightarrow> (flow, cli_error) result \<times> cli" where
  "cli_loop L net [] c = (Ok Continue, c)"
| "cli_loop L net ((rg, input) # inputs) c = (case cli_step L net rg input c of
      (Ok Continue, c) \<Rightarrow> cli_loop L net inputs c
    | other \<Rightarrow> other)"

text \<open>
  The whole of \<open>run\<close>: start-up, then the loop until it ends or the inputs are used up. No client state is
  left when the start-up fails.
\<close>

definition cli_run ::
  "crates \<Rightarrow> (ustring \<Rightarrow> bool) \<Rightarrow> (ustring list \<Rightarrow> bool) \<Rightarrow> bytes \<Rightarrow> (rng \<times> cli_input) list \<Rightarrow> args
    \<Rightarrow> (flow, cli_error) result \<times> cli option" where
  "cli_run L reachable net secret inputs args = (case run_start L reachable net secret args of
      Ok c \<Rightarrow> (let (r, c) = cli_loop L net inputs c in (r, Some c))
    | Err e \<Rightarrow> (Err e, None)
    | Panic \<Rightarrow> (Panic, None))"

lemma cli_run_SomeE:
  assumes "cli_run L reachable net secret inputs args = (r, Some c')"
  obtains c where "run_start L reachable net secret args = Ok c" and "cli_loop L net inputs c = (r, c')"
  using assms by (auto simp: cli_run_def split: result.splits prod.splits)

end
