(* ===== verification/Crypto_Handshake.thy ===== *)
theory Crypto_Handshake
  imports Crypto_Rekey
begin

text \<open>
  The complete exchange of a rekey handshake through encrypted envelopes: request, response and
  commit, from a pair of sessions in agreement to the same pair in agreement one epoch later.
\<close>

section \<open>Sessions in agreement\<close>

definition in_sync :: "crypto_session \<Rightarrow> crypto_session \<Rightarrow> bool" where
  "in_sync a b \<longleftrightarrow> paired a b \<and> synced a b \<and> synced b a"

definition valid_ids :: "crypto_session \<Rightarrow> bool" where
  "valid_ids s \<longleftrightarrow> valid_client_id (local_id s) \<and> valid_client_id (peer_id s)"

lemma in_sync_sym: "in_sync a b \<Longrightarrow> in_sync b a"
  by (simp add: in_sync_def paired_sym)

lemma in_sync_new:
  assumes "x25519_agrees L"
  shows "in_sync
    (crypto_session_new L (key_pair_generate L ska) (key_pair_public_key (key_pair_generate L skb)) x y)
    (crypto_session_new L (key_pair_generate L skb) (key_pair_public_key (key_pair_generate L ska)) y x)"
  using paired_new [OF assms] synced_new by (simp add: in_sync_def)

lemma synced_upd [simp]:
  "synced (a\<lparr>pending_rekey := p\<rparr>) b = synced a b" "synced a (b\<lparr>pending_rekey := p\<rparr>) = synced a b"
  "synced (a\<lparr>staged_master := m\<rparr>) b = synced a b" "synced a (b\<lparr>staged_master := m\<rparr>) = synced a b"
  by (simp_all add: synced_def)

lemma in_sync_upd [simp]:
  "in_sync (a\<lparr>pending_rekey := p\<rparr>) b = in_sync a b" "in_sync a (b\<lparr>pending_rekey := p\<rparr>) = in_sync a b"
  "in_sync (a\<lparr>staged_master := m\<rparr>) b = in_sync a b" "in_sync a (b\<lparr>staged_master := m\<rparr>) = in_sync a b"
  by (simp_all add: in_sync_def paired_def)

lemma tracked_counter [simp]: "tracked (a\<lparr>next_outbound_nonce := n\<rparr>) ep = tracked a ep"
  by (simp add: tracked_def)

lemma in_sync_rotated:
  assumes "in_sync a b"
  shows "in_sync (rotated nm a) (rotated nm b)"
  using assms synced_rotated(1) [where nm = nm and nm' = nm and p = None and st = None]
  by (simp add: in_sync_def paired_def)

lemma rotation_panics_noted:
  "env_epoch env \<noteq> - 1 \<Longrightarrow> rotation_panics L (noted env s) = rotation_panics L s"
  by (simp add: rotation_panics_def noted_def)

lemma rotation_panics_upd [simp]:
  "rotation_panics L (s\<lparr>pending_rekey := p\<rparr>) = rotation_panics L s"
  "rotation_panics L (s\<lparr>staged_master := m\<rparr>) = rotation_panics L s"
  "rotation_panics L (s\<lparr>next_outbound_nonce := n\<rparr>) = rotation_panics L s"
  by (simp_all add: rotation_panics_def)

section \<open>Payloads arrive\<close>

lemma encrypt_payload_Ok:
  assumes "encrypt_payload L mid p a = (Ok env, a')"
  shows "\<exists>bs. json_of_payload L p = Some bs \<and> encrypt L mid bs a = (Ok env, a')"
    and "a' = a\<lparr>next_outbound_nonce := next_outbound_nonce a'\<rparr>"
    and "env_epoch env = epoch a"
  using assms encrypt_nonce(3)
  by (auto simp: encrypt_payload_def and_then_eq_Ok_iff encrypt_Ok_iff)

lemma encrypt_payload_succeeds:
  assumes "crypto_laws L" and "valid_ids a" and "next_outbound_nonce a \<noteq> - 1" and "wf_payload p"
    and "\<And>bs. json_of_payload L p = Some bs \<Longrightarrow> length bs < aead_max_len"
  obtains env a' where "encrypt_payload L mid p a = (Ok env, a')"
proof -
  obtain bs where bs: "json_of_payload L p = Some bs"
    using assms(1,4) by (auto simp: crypto_laws_def json_payload_roundtrip_def)
  then obtain env a' where "encrypt L mid bs a = (Ok env, a')"
    using encrypt_succeeds [OF assms(1,3), of bs mid] assms(2,5) by (auto simp: valid_ids_def)
  then show thesis using that bs by (simp add: encrypt_payload_def)
qed

lemma payload_arrives:
  assumes laws: "crypto_laws L" and "in_sync a b" and "epoch b \<noteq> - 1" and "wf_payload p"
    and enc: "encrypt_payload L mid p a = (Ok env, a')"
  shows "decrypt_payload L env b = (Ok p, noted env b)" and "in_sync a' (noted env b)"
proof -
  obtain bs where bs: "json_of_payload L p = Some bs" "encrypt L mid bs a = (Ok env, a')"
    using encrypt_payload_Ok(1) [OF enc] by blast
  obtain b' where b': "decrypt L env b = (Ok bs, b')" "paired a' b'" "synced a' b'"
    using decrypt_of_encrypt [OF _ _ _ assms(3) bs(2)] assms(1,2)
    by (auto simp: crypto_laws_def in_sync_def)
  have eq: "b' = noted env b" using decrypt_Ok_opens [OF b'(1)] by simp
  have "payload_of_json L bs = Some p"
    using laws assms(4) bs(1) by (auto simp: crypto_laws_def json_payload_roundtrip_def)
  then show "decrypt_payload L env b = (Ok p, noted env b)"
    using b'(1) by (simp add: decrypt_payload_def eq)
  have "synced (noted env b) a'"
    using assms(2) by (subst encrypt_payload_Ok(2) [OF enc]) (simp add: in_sync_def synced_def)
  then show "in_sync a' (noted env b)" using b' by (simp add: in_sync_def eq)
qed

section \<open>The handshake\<close>

definition fresh_rekey :: "crates \<Rightarrow> rekey_id \<Rightarrow> bytes \<Rightarrow> bool" where
  "fresh_rekey L rid sk \<longleftrightarrow> wf_rekey_id rid \<and> wf_public_key (PublicKeyBytes (x25519_public L sk))"

definition can_rekey :: "crates \<Rightarrow> crypto_session \<Rightarrow> bool" where
  "can_rekey L s \<longleftrightarrow>
     valid_ids s \<and> \<not> is_rekey_in_progress s \<and> next_outbound_nonce s \<noteq> - 1 \<and> epoch s \<noteq> - 1 \<and>
     inbound_nonces s (- 1) = None"

lemma can_rekey_no_panic: "can_rekey L s \<Longrightarrow> \<not> rotation_panics L s"
  by (simp add: can_rekey_def rotation_panics_def)

lemma control_payload_sent:
  assumes "crypto_laws L" and "valid_ids a" and "next_outbound_nonce a \<noteq> - 1"
    and "fresh_rekey L rid sk"
    and "p = RekeyRequest rid (PublicKeyBytes (x25519_public L sk)) \<or>
         p = RekeyResponse rid (PublicKeyBytes (x25519_public L sk))"
  obtains env a' where "encrypt_payload L mid p a = (Ok env, a')" and "wf_payload p"
proof -
  have wf: "wf_payload p" using assms(4,5) by (auto simp: fresh_rekey_def)
  have "length bs < aead_max_len" if "json_of_payload L p = Some bs" for bs
    using assms(1,4,5) that unfolding crypto_laws_def json_control_short_def fresh_rekey_def by blast
  then show thesis
    using encrypt_payload_succeeds [OF assms(1-3) wf, where mid = mid and thesis = thesis] that wf by blast
qed

text \<open>The initiator's half up to the request in flight.\<close>

lemma request_sent:
  assumes "crypto_laws L" and "can_rekey L a" and "fresh_rekey L rid ska"
  defines "req \<equiv> RekeyRequest rid (PublicKeyBytes (x25519_public L ska))"
  obtains env a1 where "start_rekey L rid ska a =
      (Ok req, a\<lparr>pending_rekey := Some \<lparr>pr_rekey_id = rid, pr_ephemeral_secret = ska\<rparr>\<rparr>)"
    and "encrypt_payload L mid req
      (a\<lparr>pending_rekey := Some \<lparr>pr_rekey_id = rid, pr_ephemeral_secret = ska\<rparr>\<rparr>) = (Ok env, a1)"
    and "wf_payload req"
proof -
  let ?a = "a\<lparr>pending_rekey := Some \<lparr>pr_rekey_id = rid, pr_ephemeral_secret = ska\<rparr>\<rparr>"
  have "start_rekey L rid ska a = (Ok req, ?a)"
    using assms(2) by (simp add: start_rekey_def can_rekey_def is_rekey_in_progress_def req_def)
  moreover obtain env a1 where "encrypt_payload L mid req ?a = (Ok env, a1)" "wf_payload req"
    using control_payload_sent [OF assms(1) _ _ assms(3), of ?a req mid] assms(2)
    by (auto simp: can_rekey_def valid_ids_def req_def)
  ultimately show thesis using that by blast
qed

text \<open>The responder's half: answer under the old key, then switch.\<close>

lemma request_answered:
  assumes laws: "crypto_laws L" and "can_rekey L b" and "fresh_rekey L rid skb"
    and nm: "next_master L ska skb (master_secret b) = Some nm"
  defines "resp \<equiv> RekeyResponse rid (PublicKeyBytes (x25519_public L skb))"
  obtains env b1 where
    "handle_session_payload L skb (RekeyRequest rid (PublicKeyBytes (x25519_public L ska))) b =
      (Ok (Some resp), b\<lparr>staged_master := Some nm\<rparr>)"
    and "encrypt_payload L mid resp (b\<lparr>staged_master := Some nm\<rparr>) = (Ok env, b1)"
    and "commit_staged_rekey L b1 = (Ok (), (rotated nm b1)\<lparr>staged_master := None\<rparr>)"
    and "wf_payload resp" and "pending_rekey b1 = None"
proof -
  let ?b = "b\<lparr>staged_master := Some nm\<rparr>"
  have np: "\<not> is_rekey_in_progress b" using assms(2) by (simp add: can_rekey_def)
  have h: "handle_session_payload L skb (RekeyRequest rid (PublicKeyBytes (x25519_public L ska))) b =
      (Ok (Some resp), ?b)"
    using rekey_request_staged [OF laws nm np] by (simp add: resp_def)
  obtain env b1 where e: "encrypt_payload L mid resp ?b = (Ok env, b1)" "wf_payload resp"
    using control_payload_sent [OF laws _ _ assms(3), of ?b resp mid] assms(2)
    by (auto simp: can_rekey_def valid_ids_def resp_def)
  obtain n where "b1 = ?b\<lparr>next_outbound_nonce := n\<rparr>" using encrypt_payload_Ok(2) [OF e(1)] by blast
  then have "staged_master b1 = Some nm" "\<not> rotation_panics L b1" "pending_rekey b1 = None"
    using can_rekey_no_panic [OF assms(2)] np
    by (simp_all add: is_rekey_in_progress_def)
  then show thesis using that h e rekey_commit_rotates by blast
qed

text \<open>The initiator's half after the response arrived.\<close>

lemma response_applied:
  assumes "pending_rekey a = Some \<lparr>pr_rekey_id = rid, pr_ephemeral_secret = ska\<rparr>"
    and "next_master L ska skb (master_secret a) = Some nm" and "\<not> rotation_panics L a"
    and "in_sync a b" and "staged_master a = None" and "pending_rekey b = None"
  defines "a' \<equiv> (rotated nm a)\<lparr>pending_rekey := None\<rparr>"
    and "b' \<equiv> (rotated nm b)\<lparr>staged_master := None\<rparr>"
  shows "handle_session_payload L sk (RekeyResponse rid (PublicKeyBytes (x25519_public L skb))) a =
      (Ok None, a')"
    and "in_sync a' b'" and "epoch a' = epoch a + 1" and "epoch b' = epoch b + 1"
    and "\<not> is_rekey_in_progress a'" and "\<not> is_rekey_in_progress b'"
  using rekey_response_rotates [OF assms(1-3)] in_sync_rotated [OF assms(4)] assms(5,6)
  by (simp_all add: a'_def b'_def is_rekey_in_progress_def)

end
