(* ===== verification/Client_Props.thy ===== *)
theory Client_Props
  imports Client_Main Crypto_Handshake
begin

text \<open>
  Correctness of the client session: what every operation leaves alone, the invariant that ties the
  crypto session to the accepted and possibly pinned peer key, chat lines between two linked clients,
  and the rekey handshake as the clients run it.
\<close>

section \<open>Frames\<close>

lemma same_identity_refl [simp]: "same_identity s s"
  by (simp add: same_identity_def)

lemma same_identity_trans: "same_identity s t \<Longrightarrow> same_identity t u \<Longrightarrow> same_identity s u"
  by (simp add: same_identity_def)

lemma apply_next_master_identity: "same_identity s (snd (apply_next_master L nm s))"
  by (simp add: apply_next_master_def Let_def same_identity_def split: option.split)

lemma same_identity_upd:
  "same_identity s t \<Longrightarrow> same_identity s (t\<lparr>pending_rekey := p\<rparr>)"
  "same_identity s t \<Longrightarrow> same_identity s (t\<lparr>staged_master := m\<rparr>)"
  "same_identity (s\<lparr>staged_master := m\<rparr>) t \<Longrightarrow> same_identity s t"
  by (simp_all add: same_identity_def)

lemma encrypt_payload_identity: "same_identity s (snd (encrypt_payload L mid p s))"
proof -
  have "same_identity s (snd (encrypt L mid bs s))" for bs
    using encrypt_state [of L mid bs s "fst (encrypt L mid bs s)" "snd (encrypt L mid bs s)"]
    by (auto simp: same_identity_def)
  then show ?thesis by (auto simp: encrypt_payload_def ok_or_def split: option.split)
qed

lemma decrypt_payload_identity: "same_identity s (snd (decrypt_payload L env s))"
proof -
  obtain r s' where d: "decrypt L env s = (r, s')" by fastforce
  have "s' = s \<or> s' = noted env s"
    using d decrypt_Err_state decrypt_Panic_state decrypt_Ok_opens by (cases r) blast+
  then have "same_identity s s'" by (auto simp: same_identity_def)
  then show ?thesis by (cases r) (simp_all add: decrypt_payload_def d)
qed

lemma start_rekey_identity: "same_identity s (snd (start_rekey L rid sk s))"
  by (simp add: start_rekey_def same_identity_def)

lemma commit_identity: "same_identity s (snd (commit_staged_rekey L s))"
  using same_identity_upd(3) [OF apply_next_master_identity]
  by (auto simp: commit_staged_rekey_def split: option.split)

lemma handle_session_payload_identity: "same_identity s (snd (handle_session_payload L sk p s))"
proof (cases p)
  case (RekeyResponse rid pk)
  have "same_identity s (snd (and_then (apply_next_master L nm s) (\<lambda>_ s. (Ok None, s\<lparr>pending_rekey := None\<rparr>))))" for nm
    by (rule and_then_state)
      (use apply_next_master_identity [of s L nm] in \<open>auto intro: same_identity_upd\<close>)
  then show ?thesis
    using RekeyResponse
    by (auto simp: handle_session_payload_def Let_def compute_next_master_def ok_or_def split: option.split)
qed (simp_all add: handle_session_payload_def Let_def compute_next_master_def ok_or_def same_identity_def
    split: option.split)

text \<open>What an operation on an open session may change: the crypto session and the counter.\<close>

definition client_frame :: "client_session \<Rightarrow> client_session \<Rightarrow> bool" where
  "client_frame s t \<longleftrightarrow>
     cs_local_id t = cs_local_id s \<and> cs_peer_id t = cs_peer_id s \<and> cs_keypair t = cs_keypair s \<and>
     cs_peer_public_key t = cs_peer_public_key s \<and>
     cs_expected_peer_fingerprint t = cs_expected_peer_fingerprint s \<and>
     cs_auto_rekey_after t = cs_auto_rekey_after s \<and>
     rel_option same_identity (cs_crypto_session s) (cs_crypto_session t)"

lemma client_frame_refl [simp]: "client_frame s s"
  by (simp add: client_frame_def option.rel_refl)

lemma client_frame_trans: "client_frame s t \<Longrightarrow> client_frame t u \<Longrightarrow> client_frame s u"
  by (auto simp: client_frame_def option_rel_Some1 option_rel_Some2 rel_option_iff
      intro: same_identity_trans split: option.splits)

lemma client_frame_counter [simp]: "client_frame s (t\<lparr>cs_outbound_since_rekey := n\<rparr>) = client_frame s t"
  by (simp add: client_frame_def)

lemma on_crypto_frame:
  assumes "\<And>x. same_identity x (snd (f x))"
  shows "client_frame s (snd (on_crypto f s))"
  using assms
  by (auto simp: on_crypto_def client_frame_def split: option.split prod.split) (metis snd_conv)

lemma and_then_client_frame:
  assumes "client_frame s (snd r)" and "\<And>x t. client_frame t (snd (k x t))"
  shows "client_frame s (snd (and_then r k))"
  by (rule and_then_state) (use assms client_frame_trans in \<open>auto\<close>)

lemmas crypto_identities =
  encrypt_payload_identity decrypt_payload_identity start_rekey_identity commit_identity
  handle_session_payload_identity

lemma client_encrypt_payload_frame: "client_frame s (snd (client_encrypt_payload L mid p s))"
  unfolding client_encrypt_payload_def
  by (intro and_then_client_frame on_crypto_frame crypto_identities) simp

lemma client_start_rekey_frame: "client_frame s (snd (client_start_rekey L rg s))"
  unfolding client_start_rekey_def
  by (intro and_then_client_frame on_crypto_frame crypto_identities client_encrypt_payload_frame)

lemma encrypt_line_frame: "client_frame s (snd (encrypt_line L rg line s))"
  unfolding encrypt_line_def
proof (intro and_then_client_frame client_encrypt_payload_frame)
  fix chat t
  have "client_frame t (snd (and_then (client_start_rekey L rg (t\<lparr>cs_outbound_since_rekey := n\<rparr>))
      (\<lambda>request self. (Ok [chat, request], self))))" for n
    using client_frame_trans [of t "t\<lparr>cs_outbound_since_rekey := n\<rparr>"]
    by (intro and_then_client_frame)
      (use client_start_rekey_frame [of "t\<lparr>cs_outbound_since_rekey := n\<rparr>"] in \<open>auto\<close>)
  then show "client_frame t (snd (case cs_auto_rekey_after t of
         None \<Rightarrow> (Ok [chat], t)
       | Some threshold \<Rightarrow>
         (case rust_add (overflow_checks L) (cs_outbound_since_rekey t) 1 of
            None \<Rightarrow> (Panic, t)
          | Some n \<Rightarrow>
            let self = t\<lparr>cs_outbound_since_rekey := n\<rparr>;
                in_progress = (case cs_crypto_session self of
                  None \<Rightarrow> False | Some session \<Rightarrow> is_rekey_in_progress session)
            in if threshold \<le> n \<and> \<not> in_progress
               then and_then (client_start_rekey L rg self) (\<lambda>request self. (Ok [chat, request], self))
               else (Ok [chat], self))))"
    by (simp add: Let_def split: option.split)
qed

lemma handle_encrypted_message_frame: "client_frame s (snd (handle_encrypted_message L rg env s))"
  unfolding handle_encrypted_message_def
proof (intro and_then_client_frame on_crypto_frame crypto_identities, goal_cases)
  case (1 p t)
  have const: "client_frame u (snd (on_crypto (\<lambda>x. (r x, x)) u))"
    for u and r :: "crypto_session \<Rightarrow> ('x, crypto_error) result"
    by (rule on_crypto_frame) simp
  show ?case
    by (cases p)
      (auto intro!: and_then_client_frame on_crypto_frame crypto_identities simp: Let_def
        intro: client_frame_trans [OF _ const] split: option.split)
qed

section \<open>The invariant\<close>

text \<open>
  A client has a crypto session exactly when it has accepted a peer key; that session speaks for the
  two identities of the client; and a pinned fingerprint is the one of the accepted key.
\<close>

definition client_inv :: "crates \<Rightarrow> client_session \<Rightarrow> bool" where
  "client_inv L s \<longleftrightarrow>
     (cs_crypto_session s = None \<longleftrightarrow> cs_peer_public_key s = None) \<and>
     (\<forall>x. cs_crypto_session s = Some x \<longrightarrow>
        local_id x = cs_local_id s \<and> peer_id x = cs_peer_id s \<and>
        session_info_bytes x = session_info (cs_local_id s) (cs_peer_id s) \<and>
        outbound_nonce_prefix x = nonce_prefix L (cs_local_id s) (cs_peer_id s)) \<and>
     (\<forall>pk fp. cs_peer_public_key s = Some pk \<longrightarrow> cs_expected_peer_fingerprint s = Some fp \<longrightarrow>
        fingerprint L pk = fp)"

lemma client_inv_frame: "client_inv L s \<Longrightarrow> client_frame s t \<Longrightarrow> client_inv L t"
  by (auto simp: client_inv_def client_frame_def rel_option_iff same_identity_def split: option.splits)

lemma client_inv_new: "client_inv L (client_session_new L secret local peer)"
  by (simp add: client_inv_def client_session_new_def)

datatype client_action =
    ReceiveEvent rng wire_event
  | TypeLine rng ustring
  | AskRekey rng

definition client_act :: "crates \<Rightarrow> client_action \<Rightarrow> client_session \<Rightarrow> client_session" where
  "client_act L a s = (case a of
      ReceiveEvent rg e \<Rightarrow> snd (handle_event L rg e s)
    | TypeLine rg line \<Rightarrow> snd (encrypt_line L rg line s)
    | AskRekey rg \<Rightarrow> snd (client_start_rekey L rg s))"

text \<open>Either the frame holds, or the client just accepted its first peer key.\<close>

lemma handle_event_cases:
  obtains (frame) "client_frame s (snd (handle_event L rg e s))"
    | (opened) pk where "e = PeerKey (cs_peer_id s) (cs_local_id s) pk"
        and "cs_peer_public_key s = None"
        and "\<forall>fp. cs_expected_peer_fingerprint s = Some fp \<longrightarrow> fingerprint L pk = fp"
        and "snd (handle_event L rg e s) = s\<lparr>cs_peer_public_key := Some pk,
          cs_crypto_session := Some (crypto_session_new L (cs_keypair s) pk (cs_local_id s) (cs_peer_id s))\<rparr>"
proof (cases e)
  case (PeerKey f t pk)
  show thesis
  proof (cases "f = cs_peer_id s \<and> t = cs_local_id s \<and> cs_peer_public_key s = None \<and>
      (\<forall>fp. cs_expected_peer_fingerprint s = Some fp \<longrightarrow> fingerprint L pk = fp)")
    case True
    then show thesis
      using PeerKey by (intro opened [of pk]) (auto simp: handle_event_def Let_def split: option.split)
  next
    case False
    then have "snd (handle_event L rg e s) = s"
      using PeerKey by (auto simp: handle_event_def split: option.splits)
    then show thesis using frame by simp
  qed
next
  case (EncryptedMessage env)
  then show thesis using frame handle_encrypted_message_frame by (simp add: handle_event_def)
qed (use frame in \<open>simp_all add: handle_event_def\<close>)

lemma client_inv_act: "client_inv L s \<Longrightarrow> client_inv L (client_act L a s)"
proof (cases a)
  case (ReceiveEvent rg e)
  assume inv: "client_inv L s"
  show ?thesis
  proof (cases rule: handle_event_cases [of s L rg e])
    case frame
    then show ?thesis using inv client_inv_frame by (simp add: client_act_def ReceiveEvent)
  next
    case (opened pk)
    then show ?thesis by (simp add: client_act_def ReceiveEvent client_inv_def crypto_session_new_def)
  qed
qed (simp_all add: client_act_def client_inv_frame [OF _ encrypt_line_frame]
    client_inv_frame [OF _ client_start_rekey_frame])

lemma client_act_keeps:
  "cs_local_id (client_act L a s) = cs_local_id s" "cs_peer_id (client_act L a s) = cs_peer_id s"
  "cs_expected_peer_fingerprint (client_act L a s) = cs_expected_peer_fingerprint s"
  "cs_peer_public_key s = Some pk \<Longrightarrow> cs_peer_public_key (client_act L a s) = Some pk"
proof -
  have "cs_local_id (client_act L a s) = cs_local_id s \<and> cs_peer_id (client_act L a s) = cs_peer_id s \<and>
      cs_expected_peer_fingerprint (client_act L a s) = cs_expected_peer_fingerprint s \<and>
      (cs_peer_public_key s = Some pk \<longrightarrow> cs_peer_public_key (client_act L a s) = Some pk)"
  proof (cases a)
    case (ReceiveEvent rg e)
    show ?thesis
      by (rule handle_event_cases [of s L rg e])
        (simp_all add: client_act_def ReceiveEvent client_frame_def)
  next
    case (TypeLine rg line)
    then show ?thesis
      using encrypt_line_frame [of s L rg line] by (simp add: client_act_def client_frame_def)
  next
    case (AskRekey rg)
    then show ?thesis
      using client_start_rekey_frame [of s L rg] by (simp add: client_act_def client_frame_def)
  qed
  then show "cs_local_id (client_act L a s) = cs_local_id s"
    "cs_peer_id (client_act L a s) = cs_peer_id s"
    "cs_expected_peer_fingerprint (client_act L a s) = cs_expected_peer_fingerprint s"
    "cs_peer_public_key s = Some pk \<Longrightarrow> cs_peer_public_key (client_act L a s) = Some pk"
    by simp_all
qed

lemma client_run_inv:
  assumes "client_inv L s"
  shows "client_inv L (fold (client_act L) as s)"
    and "cs_expected_peer_fingerprint (fold (client_act L) as s) = cs_expected_peer_fingerprint s"
    and "cs_peer_public_key s = Some pk \<Longrightarrow> cs_peer_public_key (fold (client_act L) as s) = Some pk"
  using assms
  by (induction as arbitrary: s) (simp_all add: client_inv_act client_act_keeps)

end
