(* ===== verification/Client_Pair.thy ===== *)
theory Client_Pair
  imports Client_Props
begin

text \<open>
  Two clients that have exchanged peer keys. Chat lines arrive as typed, a rekey handshake completes
  in one exchange and leaves both clients linked one epoch later, and two handshakes started at the
  same time block each other.
\<close>

section \<open>Linked clients\<close>

definition linked :: "client_session \<Rightarrow> client_session \<Rightarrow> bool" where
  "linked a b \<longleftrightarrow> (\<exists>x y. cs_crypto_session a = Some x \<and> cs_crypto_session b = Some y \<and>
     in_sync x y \<and> valid_ids x \<and> valid_ids y)"

lemma linkedE:
  assumes "linked a b"
  obtains x y where "cs_crypto_session a = Some x" "cs_crypto_session b = Some y" "in_sync x y"
    "valid_ids x" "valid_ids y"
  using assms unfolding linked_def by blast

lemma linked_sym: "linked a b \<Longrightarrow> linked b a"
  unfolding linked_def using in_sync_sym by blast

lemma on_crypto_Some:
  "cs_crypto_session s = Some x \<Longrightarrow> f x = (r, x') \<Longrightarrow>
     on_crypto f s = (map_err CryptoErr r, s\<lparr>cs_crypto_session := Some x'\<rparr>)"
  by (simp add: on_crypto_def)

lemma valid_ids_frame: "same_identity x y \<Longrightarrow> valid_ids y = valid_ids x"
  by (simp add: same_identity_def valid_ids_def)

lemma valid_ids_noted [simp]: "valid_ids (noted env x) = valid_ids x"
  by (simp add: valid_ids_def)

section \<open>Key exchange\<close>

definition pin_accepts :: "crates \<Rightarrow> client_session \<Rightarrow> public_key_bytes \<Rightarrow> bool" where
  "pin_accepts L s pk \<longleftrightarrow> (\<forall>fp. cs_expected_peer_fingerprint s = Some fp \<longrightarrow> fingerprint L pk = fp)"

lemma peer_key_opens:
  assumes "cs_peer_public_key s = None" and "pin_accepts L s pk"
  shows "handle_event L rg (PeerKey (cs_peer_id s) (cs_local_id s) pk) s =
    (Ok inbound_outcome_default, s\<lparr>cs_peer_public_key := Some pk, cs_crypto_session :=
       Some (crypto_session_new L (cs_keypair s) pk (cs_local_id s) (cs_peer_id s))\<rparr>)"
  using assms by (auto simp: handle_event_def pin_accepts_def Let_def split: option.split)

section \<open>Chat lines\<close>

lemma client_payload_sent:
  assumes "cs_crypto_session a = Some x" and "encrypt_payload L mid p x = (Ok env, x')"
  shows "client_encrypt_payload L mid p a = (Ok (EncryptedMessage env), a\<lparr>cs_crypto_session := Some x'\<rparr>)"
  using assms by (simp add: client_encrypt_payload_def on_crypto_Some)

lemma client_encrypt_payload_OkE:
  assumes "client_encrypt_payload L mid p a = (Ok ev, a')" and "cs_crypto_session a = Some x"
  obtains env x' where "encrypt_payload L mid p x = (Ok env, x')" and "ev = EncryptedMessage env"
    and "a' = a\<lparr>cs_crypto_session := Some x'\<rparr>"
  using assms
  by (cases "encrypt_payload L mid p x"; cases "fst (encrypt_payload L mid p x)")
    (auto simp: client_encrypt_payload_def on_crypto_def)

lemma chat_opened:
  assumes "cs_crypto_session b = Some y" and "decrypt_payload L env y = (Ok (Chat line), y1)"
  shows "handle_event L rg (EncryptedMessage env) b =
    (Ok \<lparr>io_event = Some (InboundChat line), io_reply_event = None\<rparr>, b\<lparr>cs_crypto_session := Some y1\<rparr>)"
  using assms by (simp add: handle_event_def handle_encrypted_message_def on_crypto_Some)

lemma chat_line_received:
  assumes laws: "crypto_laws L" and "linked a b" and ep: "\<And>y. cs_crypto_session b = Some y \<Longrightarrow> epoch y \<noteq> - 1"
    and "client_encrypt_payload L mid (Chat line) a = (Ok ev, a')"
  shows "\<exists>b'. handle_event L rg ev b =
      (Ok \<lparr>io_event = Some (InboundChat line), io_reply_event = None\<rparr>, b') \<and> linked a' b'"
proof -
  obtain x y where xy: "cs_crypto_session a = Some x" "cs_crypto_session b = Some y" "in_sync x y"
    "valid_ids x" "valid_ids y" using assms(2) by (rule linkedE)
  obtain env x' where e: "encrypt_payload L mid (Chat line) x = (Ok env, x')"
    and ev: "ev = EncryptedMessage env" "a' = a\<lparr>cs_crypto_session := Some x'\<rparr>"
    using assms(4) xy(1) by (rule client_encrypt_payload_OkE)
  have d: "decrypt_payload L env y = (Ok (Chat line), noted env y)" "in_sync x' (noted env y)"
    using payload_arrives [OF laws xy(3) ep [OF xy(2)] _ e] by simp_all
  have "handle_event L rg ev b =
      (Ok \<lparr>io_event = Some (InboundChat line), io_reply_event = None\<rparr>,
       b\<lparr>cs_crypto_session := Some (noted env y)\<rparr>)"
    using chat_opened [OF xy(2) d(1)] by (simp add: ev)
  moreover have "valid_ids x'"
    using valid_ids_frame [OF encrypt_payload_identity [of x L mid "Chat line"]] xy(4) by (simp add: e)
  ultimately show ?thesis using d(2) xy(5) ev(2) unfolding linked_def by fastforce
qed

lemma chat_line_sent:
  assumes laws: "crypto_laws L" and "cs_crypto_session a = Some x" and "valid_ids x"
    and "next_outbound_nonce x \<noteq> - 1"
    and "\<And>bs. json_of_payload L (Chat line) = Some bs \<Longrightarrow> length bs < aead_max_len"
  obtains env x' where "encrypt_payload L mid (Chat line) x = (Ok env, x')"
    and "client_encrypt_payload L mid (Chat line) a =
      (Ok (EncryptedMessage env), a\<lparr>cs_crypto_session := Some x'\<rparr>)"
  using encrypt_payload_succeeds [OF laws assms(3,4), of "Chat line" mid] assms(2,5)
    client_payload_sent by (metis wf_payload.simps(1))

section \<open>Automatic rekey\<close>

lemma encrypt_line_manual:
  assumes "cs_auto_rekey_after a = None"
  shows "encrypt_line L rg line a =
    and_then (client_encrypt_payload L (rg_message_id rg) (Chat line) a) (\<lambda>chat a. (Ok [chat], a))"
proof (cases "client_encrypt_payload L (rg_message_id rg) (Chat line) a")
  case (Pair r a')
  then have "cs_auto_rekey_after a' = None"
    using client_encrypt_payload_frame [of a L "rg_message_id rg" "Chat line"] assms
    by (simp add: client_frame_def)
  then show ?thesis by (cases r) (simp_all add: encrypt_line_def Pair)
qed

lemma encrypt_line_auto:
  assumes "cs_auto_rekey_after a = Some k" and "cs_outbound_since_rekey a \<noteq> - 1"
    and x: "cs_crypto_session a = Some x"
    and enc: "encrypt_payload L (rg_message_id rg) (Chat line) x = (Ok env, x')"
  defines "a1 \<equiv> a\<lparr>cs_crypto_session := Some x', cs_outbound_since_rekey := cs_outbound_since_rekey a + 1\<rparr>"
  shows "encrypt_line L rg line a =
    (if k \<le> cs_outbound_since_rekey a + 1 \<and> \<not> is_rekey_in_progress x
     then and_then (client_start_rekey L rg a1) (\<lambda>req a. (Ok [EncryptedMessage env, req], a))
     else (Ok [EncryptedMessage env], a1))"
proof -
  have "is_rekey_in_progress x' = is_rekey_in_progress x"
    by (subst encrypt_payload_Ok(2) [OF enc]) (simp add: is_rekey_in_progress_def)
  moreover have "rust_add (overflow_checks L) (cs_outbound_since_rekey a) 1 = Some (cs_outbound_since_rekey a + 1)"
    using assms(2) by (simp add: rust_add_one_Some_iff)
  ultimately show ?thesis
    using assms(1) by (simp add: encrypt_line_def client_payload_sent [OF x enc] a1_def Let_def)
qed

section \<open>The rekey handshake\<close>

lemma can_rekey_noted:
  "can_rekey L y \<Longrightarrow> env_epoch env \<noteq> - 1 \<Longrightarrow> can_rekey L (noted env y)"
  by (simp add: can_rekey_def is_rekey_in_progress_def noted_def valid_ids_def)

text \<open>The responder turns a request into a response and is already in the next epoch.\<close>

lemma client_answers:
  assumes laws: "crypto_laws L" and y: "cs_crypto_session b = Some y" and can: "can_rekey L y"
    and "fresh_rekey L rid (rg_secret rg)"
    and nm: "next_master L ska (rg_secret rg) (master_secret y) = Some nm"
    and dec: "decrypt_payload L env y = (Ok (RekeyRequest rid (PublicKeyBytes (x25519_public L ska))), noted env y)"
    and "env_epoch env \<noteq> - 1"
  obtains env2 y1 where
    "encrypt_payload L (rg_message_id rg) (RekeyResponse rid (PublicKeyBytes (x25519_public L (rg_secret rg))))
       ((noted env y)\<lparr>staged_master := Some nm\<rparr>) = (Ok env2, y1)"
    and "wf_payload (RekeyResponse rid (PublicKeyBytes (x25519_public L (rg_secret rg))))"
    and "pending_rekey y1 = None"
    and "handle_event L rg (EncryptedMessage env) b =
      (Ok \<lparr>io_event = None, io_reply_event = Some (EncryptedMessage env2)\<rparr>,
       b\<lparr>cs_crypto_session := Some ((rotated nm y1)\<lparr>staged_master := None\<rparr>)\<rparr>)"
proof -
  let ?y = "noted env y" and ?resp = "RekeyResponse rid (PublicKeyBytes (x25519_public L (rg_secret rg)))"
  have nm': "next_master L ska (rg_secret rg) (master_secret ?y) = Some nm" using nm by simp
  obtain env2 y1 where r:
    "handle_session_payload L (rg_secret rg) (RekeyRequest rid (PublicKeyBytes (x25519_public L ska))) ?y =
      (Ok (Some ?resp), ?y\<lparr>staged_master := Some nm\<rparr>)"
    "encrypt_payload L (rg_message_id rg) ?resp (?y\<lparr>staged_master := Some nm\<rparr>) = (Ok env2, y1)"
    "commit_staged_rekey L y1 = (Ok (), (rotated nm y1)\<lparr>staged_master := None\<rparr>)"
    "wf_payload ?resp" "pending_rekey y1 = None"
    using request_answered [OF laws can_rekey_noted [OF can assms(7)] assms(4) nm', of "rg_message_id rg"] by metis
  have "handle_event L rg (EncryptedMessage env) b =
      (Ok \<lparr>io_event = None, io_reply_event = Some (EncryptedMessage env2)\<rparr>,
       b\<lparr>cs_crypto_session := Some ((rotated nm y1)\<lparr>staged_master := None\<rparr>)\<rparr>)"
    using y dec r(1-3) by (simp add: handle_event_def handle_encrypted_message_def on_crypto_Some)
  then show thesis using that r by blast
qed

text \<open>The initiator completes the handshake when the response arrives.\<close>

lemma client_completes:
  assumes x: "cs_crypto_session a = Some x"
    and dec: "decrypt_payload L env x = (Ok (RekeyResponse rid pk), x1)"
    and "handle_session_payload L (rg_secret rg) (RekeyResponse rid pk) x1 = (Ok None, x2)"
  shows "handle_event L rg (EncryptedMessage env) a =
    (Ok \<lparr>io_event = Some (RekeyCompleted (epoch x2)), io_reply_event = None\<rparr>,
     a\<lparr>cs_crypto_session := Some x2, cs_outbound_since_rekey := 0\<rparr>)"
  using assms by (simp add: handle_event_def handle_encrypted_message_def on_crypto_Some)

text \<open>The initiator's request in flight, with the client it leaves behind.\<close>

lemma client_requests:
  assumes laws: "crypto_laws L" and a: "cs_crypto_session a = Some x" and can: "can_rekey L x"
    and fresh: "fresh_rekey L (rg_rekey_id ra) (rg_secret ra)"
  defines "req \<equiv> RekeyRequest (rg_rekey_id ra) (PublicKeyBytes (x25519_public L (rg_secret ra)))"
    and "pend \<equiv> Some \<lparr>pr_rekey_id = rg_rekey_id ra, pr_ephemeral_secret = rg_secret ra\<rparr>"
  obtains e1 x1 where "client_start_rekey L ra a = (Ok (EncryptedMessage e1), a\<lparr>cs_crypto_session := Some x1\<rparr>)"
    and "encrypt_payload L (rg_message_id2 ra) req (x\<lparr>pending_rekey := pend\<rparr>) = (Ok e1, x1)"
    and "wf_payload req" and "env_epoch e1 = epoch x" and "epoch x1 = epoch x" and "pending_rekey x1 = pend"
    and "staged_master x1 = None" and "master_secret x1 = master_secret x" and "\<not> rotation_panics L x1"
proof -
  let ?x = "x\<lparr>pending_rekey := pend\<rparr>"
  obtain e1 x1 where s: "start_rekey L (rg_rekey_id ra) (rg_secret ra) x = (Ok req, ?x)"
    "encrypt_payload L (rg_message_id2 ra) req ?x = (Ok e1, x1)" "wf_payload req"
    using request_sent [OF laws can fresh, of "rg_message_id2 ra"] unfolding req_def pend_def by metis
  have start: "client_start_rekey L ra a = (Ok (EncryptedMessage e1), a\<lparr>cs_crypto_session := Some x1\<rparr>)"
    using client_payload_sent [OF _ s(2), of "a\<lparr>cs_crypto_session := Some ?x\<rparr>"] a s(1)
    by (simp add: client_start_rekey_def on_crypto_Some)
  have x1: "x1 = ?x\<lparr>next_outbound_nonce := next_outbound_nonce x1\<rparr>" by (rule encrypt_payload_Ok(2) [OF s(2)])
  have "epoch x1 = epoch x" "pending_rekey x1 = pend" "staged_master x1 = None"
    "master_secret x1 = master_secret x" "\<not> rotation_panics L x1"
    using can_rekey_no_panic [OF can] can
    by (subst x1; simp add: can_rekey_def is_rekey_in_progress_def)+
  moreover have "env_epoch e1 = epoch x" using encrypt_payload_Ok(3) [OF s(2)] by simp
  ultimately show thesis using that start s(2,3) by blast
qed

lemma client_handshake_sessions:
  assumes laws: "crypto_laws L" and a: "cs_crypto_session a = Some x" and b: "cs_crypto_session b = Some y"
    and sync: "in_sync x y" and can: "can_rekey L x" "can_rekey L y"
    and fresh: "fresh_rekey L (rg_rekey_id ra) (rg_secret ra)" "fresh_rekey L (rg_rekey_id ra) (rg_secret rb)"
  obtains e1 p x1 e2 nm y1 where
    "client_start_rekey L ra a = (Ok (EncryptedMessage e1), a\<lparr>cs_crypto_session := Some x1\<rparr>)"
    and "encrypt_payload L (rg_message_id2 ra)
        (RekeyRequest (rg_rekey_id ra) (PublicKeyBytes (x25519_public L (rg_secret ra))))
        (x\<lparr>pending_rekey := Some p\<rparr>) = (Ok e1, x1)"
    and "encrypt_payload L (rg_message_id rb)
        (RekeyResponse (rg_rekey_id ra) (PublicKeyBytes (x25519_public L (rg_secret rb))))
        ((noted e1 y)\<lparr>staged_master := Some nm\<rparr>) = (Ok e2, y1)"
    and "handle_event L rb (EncryptedMessage e1) b =
      (Ok \<lparr>io_event = None, io_reply_event = Some (EncryptedMessage e2)\<rparr>,
       b\<lparr>cs_crypto_session := Some ((rotated nm y1)\<lparr>staged_master := None\<rparr>)\<rparr>)"
    and "handle_event L rc (EncryptedMessage e2) (a\<lparr>cs_crypto_session := Some x1\<rparr>) =
      (Ok \<lparr>io_event = Some (RekeyCompleted (epoch x + 1)), io_reply_event = None\<rparr>,
       a\<lparr>cs_crypto_session := Some ((rotated nm (noted e2 x1))\<lparr>pending_rekey := None\<rparr>),
         cs_outbound_since_rekey := 0\<rparr>)"
    and "env_epoch e1 = epoch x" and "env_epoch e2 = epoch x"
    and "in_sync ((rotated nm (noted e2 x1))\<lparr>pending_rekey := None\<rparr>) ((rotated nm y1)\<lparr>staged_master := None\<rparr>)"
    and "\<not> is_rekey_in_progress ((rotated nm (noted e2 x1))\<lparr>pending_rekey := None\<rparr>)"
    and "\<not> is_rekey_in_progress ((rotated nm y1)\<lparr>staged_master := None\<rparr>)"
proof -
  let ?resp = "RekeyResponse (rg_rekey_id ra) (PublicKeyBytes (x25519_public L (rg_secret rb)))"
  have same: "epoch y = epoch x" "master_secret y = master_secret x" "epoch x \<noteq> - 1"
    using sync can(1) by (simp_all add: in_sync_def paired_def can_rekey_def)
  from client_requests [OF laws a can(1) fresh(1)] obtain e1 x1 where
    start: "client_start_rekey L ra a = (Ok (EncryptedMessage e1), a\<lparr>cs_crypto_session := Some x1\<rparr>)"
    and enc1: "encrypt_payload L (rg_message_id2 ra)
        (RekeyRequest (rg_rekey_id ra) (PublicKeyBytes (x25519_public L (rg_secret ra))))
        (x\<lparr>pending_rekey := Some \<lparr>pr_rekey_id = rg_rekey_id ra, pr_ephemeral_secret = rg_secret ra\<rparr>\<rparr>) = (Ok e1, x1)"
      "wf_payload (RekeyRequest (rg_rekey_id ra) (PublicKeyBytes (x25519_public L (rg_secret ra))))"
    and e1: "env_epoch e1 = epoch x"
    and x1: "epoch x1 = epoch x" "pending_rekey x1 = Some \<lparr>pr_rekey_id = rg_rekey_id ra, pr_ephemeral_secret = rg_secret ra\<rparr>"
      "staged_master x1 = None" "master_secret x1 = master_secret x" "\<not> rotation_panics L x1" .
  note d1 = payload_arrives [OF laws _ _ enc1(2,1), of y]
  obtain nm where nm: "next_master L (rg_secret ra) (rg_secret rb) (master_secret y) = Some nm"
    using next_master_total [OF laws] by blast
  obtain e2 y1 where ans: "encrypt_payload L (rg_message_id rb) ?resp
      ((noted e1 y)\<lparr>staged_master := Some nm\<rparr>) = (Ok e2, y1)" "wf_payload ?resp" "pending_rekey y1 = None"
    "handle_event L rb (EncryptedMessage e1) b =
      (Ok \<lparr>io_event = None, io_reply_event = Some (EncryptedMessage e2)\<rparr>,
       b\<lparr>cs_crypto_session := Some ((rotated nm y1)\<lparr>staged_master := None\<rparr>)\<rparr>)"
    using client_answers [OF laws b can(2) fresh(2) nm d1(1)] e1 same sync by (metis in_sync_upd(1))
  have sync2: "in_sync ((noted e1 y)\<lparr>staged_master := Some nm\<rparr>) x1"
    using in_sync_sym d1(2) sync same by simp
  have e2: "env_epoch e2 = epoch x" using encrypt_payload_Ok(3) [OF ans(1)] same by simp
  have d2: "decrypt_payload L e2 x1 = (Ok ?resp, noted e2 x1)" "in_sync y1 (noted e2 x1)"
    using payload_arrives [OF laws sync2 _ ans(2,1)] same x1(1) by simp_all
  have c: "pending_rekey (noted e2 x1) = Some \<lparr>pr_rekey_id = rg_rekey_id ra, pr_ephemeral_secret = rg_secret ra\<rparr>"
    "next_master L (rg_secret ra) (rg_secret rb) (master_secret (noted e2 x1)) = Some nm"
    "\<not> rotation_panics L (noted e2 x1)" "staged_master (noted e2 x1) = None"
    using nm same(2,3) x1 e2 by (simp_all add: rotation_panics_noted)
  note fin' = response_applied [OF c(1-3) in_sync_sym [OF d2(2)] c(4) ans(3)]
  have "handle_event L rc (EncryptedMessage e2) (a\<lparr>cs_crypto_session := Some x1\<rparr>) =
      (Ok \<lparr>io_event = Some (RekeyCompleted (epoch x + 1)), io_reply_event = None\<rparr>,
       a\<lparr>cs_crypto_session := Some ((rotated nm (noted e2 x1))\<lparr>pending_rekey := None\<rparr>),
         cs_outbound_since_rekey := 0\<rparr>)"
    using client_completes [OF _ d2(1) fin'(1), of "a\<lparr>cs_crypto_session := Some x1\<rparr>"] x1(1) by simp
  then show thesis
    by (rule that [OF start enc1(1) ans(1) ans(4) _ e1 e2]) (use fin' in simp_all)
qed

lemma client_handshake:
  assumes laws: "crypto_laws L" and a: "cs_crypto_session a = Some x" and b: "cs_crypto_session b = Some y"
    and sync: "in_sync x y" and can: "can_rekey L x" "can_rekey L y"
    and fresh: "fresh_rekey L (rg_rekey_id ra) (rg_secret ra)" "fresh_rekey L (rg_rekey_id ra) (rg_secret rb)"
  shows "\<exists>e1 a1 e2 b1 a2 x2 y2.
    client_start_rekey L ra a = (Ok (EncryptedMessage e1), a1) \<and>
    handle_event L rb (EncryptedMessage e1) b =
      (Ok \<lparr>io_event = None, io_reply_event = Some (EncryptedMessage e2)\<rparr>, b1) \<and>
    handle_event L rc (EncryptedMessage e2) a1 =
      (Ok \<lparr>io_event = Some (RekeyCompleted (epoch x + 1)), io_reply_event = None\<rparr>, a2) \<and>
    env_epoch e1 = epoch x \<and> env_epoch e2 = epoch x \<and>
    cs_crypto_session a2 = Some x2 \<and> cs_crypto_session b1 = Some y2 \<and> in_sync x2 y2 \<and>
    epoch x2 = epoch x + 1 \<and> \<not> is_rekey_in_progress x2 \<and> \<not> is_rekey_in_progress y2 \<and>
    cs_outbound_since_rekey a2 = 0 \<and> next_outbound_nonce y2 = next_outbound_nonce y + 1"
proof (rule client_handshake_sessions [OF assms, of rc], goal_cases)
  case (1 e1 p x1 e2 nm y1)
  have "epoch x1 = epoch x" by (subst encrypt_payload_Ok(2) [OF 1(2)]) simp
  moreover have "next_outbound_nonce y1 = next_outbound_nonce y + 1"
    using encrypt_payload_Ok(1) [OF 1(3)] encrypt_Ok_state by fastforce
  ultimately show ?case using 1 by (intro exI conjI) (assumption | simp)+
qed

section \<open>Crossing handshakes\<close>

text \<open>
  When both clients have sent a request, each rejects the other's: no response is ever produced, and
  both stay in the middle of their handshake.
\<close>

lemma client_rejects_request:
  assumes y: "cs_crypto_session b = Some y" and "pending_rekey y = Some p"
    and dec: "decrypt_payload L env y = (Ok (RekeyRequest rid pk), y1)"
  shows "handle_event L rg (EncryptedMessage env) b =
    (Err (CryptoErr RekeyAlreadyInProgress), b\<lparr>cs_crypto_session := Some y1\<rparr>)"
    and "pending_rekey y1 = Some p"
proof -
  have "y1 = noted env y"
    using dec decrypt_Ok_opens by (auto simp: decrypt_payload_def and_then_eq_Ok_iff)
  then show p: "pending_rekey y1 = Some p" using assms(2) by simp
  show "handle_event L rg (EncryptedMessage env) b =
    (Err (CryptoErr RekeyAlreadyInProgress), b\<lparr>cs_crypto_session := Some y1\<rparr>)"
    using y dec pending_blocks(2) [OF p]
    by (simp add: handle_event_def handle_encrypted_message_def on_crypto_Some)
qed

end
