(* ===== verification/Client_Cli.thy ===== *)
theory Client_Cli
  imports Client_Pair
begin

text \<open>
  Properties of the command line client: the fingerprint argument, what it ever puts on the wire,
  what it ever reports about the peer key, and how the event loop reacts to errors.
\<close>

section \<open>Fingerprint arguments\<close>

text \<open>Lowercasing a non-ASCII character never gives an ASCII capital (Unicode case mapping).\<close>

definition lowers :: "crates \<Rightarrow> bool" where
  "lowers L \<longleftrightarrow> (\<forall>pre c post x. 0x80 \<le> c \<longrightarrow> x \<in> set (unicode_lower_table L pre c post) \<longrightarrow>
     \<not> is_ascii_uppercase x)"

lemma hex_lower_ascii:
  assumes "hex_lower c"
  shows "c < 0x80" "\<not> is_ascii_uppercase c" "\<not> is_whitespace c" "is_ascii_hexdigit c"
proof -
  have c: "unat c < 0x80" "\<not> is_ascii_uppercase c" "is_ascii_hexdigit c"
    using assms
    by (auto simp: hex_lower_def is_ascii_uppercase_def is_ascii_hexdigit_def is_ascii_digit_def
        word_le_nat_alt)
  then show "c < 0x80" "\<not> is_ascii_uppercase c" "is_ascii_hexdigit c" by (simp_all add: word_less_nat_alt)
  show "\<not> is_whitespace c"
    using assms by (auto simp: hex_lower_def is_whitespace_def word_le_nat_alt)
qed

lemma to_lowercase_from_id:
  "list_all hex_lower s \<Longrightarrow> to_lowercase_from u pre s = s"
  by (induction s arbitrary: pre) (simp_all add: hex_lower_ascii)

text \<open>The spelling of an ASCII text in lower case.\<close>

definition lower_char :: "uchar \<Rightarrow> uchar" where
  "lower_char c = (if is_ascii_uppercase c then c + 32 else c)"

lemma lower_char_hex:
  assumes "hex_lower (lower_char c)"
  shows "c < 0x80" and "\<not> is_whitespace c"
proof -
  have "c < 0x80 \<and> \<not> is_whitespace c"
  proof (cases "is_ascii_uppercase c")
    case True
    then show ?thesis
      by (auto simp: is_ascii_uppercase_def is_whitespace_def word_le_nat_alt word_less_nat_alt)
  qed (use assms hex_lower_ascii [of c] in \<open>simp add: lower_char_def\<close>)
  then show "c < 0x80" "\<not> is_whitespace c" by simp_all
qed

lemma to_lowercase_from_hex:
  "list_all hex_lower (map lower_char s) \<Longrightarrow> to_lowercase_from u pre s = map lower_char s"
proof (induction s arbitrary: pre)
  case (Cons c s)
  then have "c < 0x80" by (intro lower_char_hex) simp
  then show ?case using Cons by (simp add: lower_char_def)
qed simp

lemma lower_char_hex_lower: "hex_lower c \<Longrightarrow> lower_char c = c"
  by (simp add: lower_char_def hex_lower_ascii)

lemma map_lower_char: "list_all hex_lower s \<Longrightarrow> map lower_char s = s"
  by (induction s) (simp_all add: lower_char_hex_lower)

lemma dropWhile_whitespace_hex:
  "list_all is_whitespace w \<Longrightarrow> list_all hex_lower (map lower_char s) \<Longrightarrow> s \<noteq> [] \<Longrightarrow>
     dropWhile is_whitespace (w @ s @ t) = s @ t"
  by (induction w) (auto simp: neq_Nil_conv lower_char_hex)

lemma trim_hex_any:
  assumes "list_all is_whitespace w" and "list_all is_whitespace v" and "list_all hex_lower (map lower_char s)"
    and "s \<noteq> []"
  shows "trim (w @ s @ v) = s"
proof -
  have "dropWhile is_whitespace (w @ s @ v) = s @ v" using assms by (intro dropWhile_whitespace_hex)
  moreover have "dropWhile is_whitespace (rev v @ rev s @ []) = rev s @ []"
    by (rule dropWhile_whitespace_hex) (use assms in \<open>simp_all add: list_all_iff\<close>)
  ultimately show ?thesis by (simp add: trim_def)
qed

lemma trim_hex:
  assumes "list_all is_whitespace w" and "list_all is_whitespace v" and "list_all hex_lower s" and "s \<noteq> []"
  shows "trim (w @ s @ v) = s"
  using trim_hex_any [OF assms(1,2) _ assms(4)] map_lower_char [OF assms(3)] assms(3) by simp

lemma as_bytes_hex: "list_all hex_lower s \<Longrightarrow> length (as_bytes s) = length s"
  by (subst as_bytes_ascii) (auto simp: list_all_iff is_ascii_def hex_lower_ascii)

lemma normalize_any_case:
  assumes "list_all is_whitespace w" and "list_all is_whitespace v"
    and "list_all hex_lower (map lower_char s)" and "length s = 64"
  shows "normalize_fingerprint L (w @ s @ v) = Some (map lower_char s)"
proof -
  have "s \<noteq> []" using assms(4) by auto
  then have "trim (w @ s @ v) = s" using assms by (intro trim_hex_any) simp_all
  moreover have "list_all is_ascii_hexdigit (map lower_char s)"
    using assms(3) by (auto simp: list_all_iff hex_lower_ascii)
  ultimately show ?thesis
    using as_bytes_hex [OF assms(3)] assms(4)
    by (simp add: normalize_fingerprint_def to_lowercase_def to_lowercase_from_hex [OF assms(3)] Let_def)
qed

lemma normalize_hex:
  assumes "list_all is_whitespace w" and "list_all is_whitespace v"
    and "list_all hex_lower s" and "length s = 64"
  shows "normalize_fingerprint L (w @ s @ v) = Some s"
  using normalize_any_case [OF assms(1,2) _ assms(4)] map_lower_char [OF assms(3)] assms(3) by simp

lemma to_lowercase_from_no_upper:
  assumes "lowers L"
  shows "x \<in> set (to_lowercase_from (unicode_lower_table L) pre s) \<Longrightarrow> \<not> is_ascii_uppercase x"
proof (induction s arbitrary: pre)
  case (Cons c s)
  show ?case
  proof (cases "c < 0x80")
    case True
    have "\<not> is_ascii_uppercase (c + 32)" if "is_ascii_uppercase c"
    proof -
      have "unat (c + 32) = unat c + 32"
        using that by (simp add: is_ascii_uppercase_def word_le_nat_alt unat_word_ariths)
      then show ?thesis using that by (auto simp: is_ascii_uppercase_def word_le_nat_alt)
    qed
    then show ?thesis using Cons True by (auto split: if_splits)
  next
    case False
    then have "x \<in> set (unicode_lower_table L pre c s) \<or>
        x \<in> set (to_lowercase_from (unicode_lower_table L) (pre @ [c]) s)"
      using Cons.prems by simp
    then show ?thesis using Cons.IH assms False unfolding lowers_def not_less by blast
  qed
qed simp

lemma normalized_shape:
  assumes "lowers L" and "normalize_fingerprint L raw = Some n"
  shows "list_all hex_lower n" and "length n = 64"
proof -
  have n: "n = to_lowercase (unicode_lower_table L) (trim raw)" "length (as_bytes n) = 64"
    "list_all is_ascii_hexdigit n"
    using assms(2) by (auto simp: normalize_fingerprint_def Let_def split: if_splits)
  have "\<not> is_ascii_uppercase x" if "x \<in> set n" for x
    using to_lowercase_from_no_upper [OF assms(1)] that by (simp add: n(1) to_lowercase_def)
  then show h: "list_all hex_lower n"
    using n(3)
    by (auto simp: list_all_iff hex_lower_def is_ascii_hexdigit_def is_ascii_digit_def
        is_ascii_uppercase_def word_le_nat_alt)
      (fastforce simp: is_ascii_uppercase_def word_le_nat_alt)+
  show "length n = 64" using n(2) as_bytes_hex [OF h] by simp
qed

lemma normalized_pin:
  assumes "lowers L" and "normalize_fingerprint L raw = Some n"
  shows "expect_peer_fingerprint L n s = s\<lparr>cs_expected_peer_fingerprint := Some n\<rparr>"
proof -
  have "n \<noteq> []" using normalized_shape(2) [OF assms] by auto
  then have "trim n = n" using trim_hex [of "[]" "[]" n] normalized_shape(1) [OF assms] by simp
  then show ?thesis
    using normalized_shape(1) [OF assms]
    by (simp add: expect_peer_fingerprint_def to_lowercase_def to_lowercase_from_id)
qed

section \<open>What goes on the wire\<close>

text \<open>An event a client may put on the wire: its own key, or an envelope from it to its peer.\<close>

definition own_event :: "client_session \<Rightarrow> wire_event \<Rightarrow> bool" where
  "own_event s e \<longleftrightarrow> e = client_hello s \<or> e = peer_key_event s \<or>
     (case e of EncryptedMessage env \<Rightarrow>
        env_sender env = cs_local_id s \<and> env_recipient env = cs_peer_id s | _ \<Rightarrow> False)"

definition own_envelope :: "client_session \<Rightarrow> wire_event \<Rightarrow> bool" where
  "own_envelope s e \<longleftrightarrow> (case e of EncryptedMessage env \<Rightarrow>
     env_sender env = cs_local_id s \<and> env_recipient env = cs_peer_id s | _ \<Rightarrow> False)"

lemma own_envelope_event: "own_envelope s e \<Longrightarrow> own_event s e"
  by (simp add: own_envelope_def own_event_def)

lemma own_envelope_frame: "client_frame s t \<Longrightarrow> own_envelope t e = own_envelope s e"
  by (cases e) (simp_all add: own_envelope_def client_frame_def)

lemma client_encrypt_payload_own:
  assumes "client_inv L s" and "client_encrypt_payload L mid p s = (Ok ev, s')"
  shows "own_envelope s ev"
proof -
  obtain x env x' where x: "cs_crypto_session s = Some x" "encrypt_payload L mid p x = (Ok env, x')"
    "ev = EncryptedMessage env"
    using assms(2)
    by (auto simp: client_encrypt_payload_def on_crypto_def and_then_eq_Ok_iff
        split: option.splits prod.splits)
  then obtain bs where "encrypt L mid bs x = (Ok env, x')" using encrypt_payload_Ok(1) by blast
  then show ?thesis
    using assms(1) x(1,3) by (auto simp: own_envelope_def client_inv_def encrypt_Ok_iff)
qed

lemma client_start_rekey_own:
  assumes "client_inv L s" and "client_start_rekey L rg s = (Ok ev, s')"
  shows "own_envelope s ev"
proof -
  obtain p s1 where s1: "on_crypto (start_rekey L (rg_rekey_id rg) (rg_secret rg)) s = (Ok p, s1)"
    "client_encrypt_payload L (rg_message_id2 rg) p s1 = (Ok ev, s')"
    using assms(2) by (auto simp: client_start_rekey_def and_then_eq_Ok_iff)
  have "client_frame s s1"
    using on_crypto_frame [OF start_rekey_identity [of _ L "rg_rekey_id rg" "rg_secret rg"], of s] s1(1) by simp
  then show ?thesis
    using client_encrypt_payload_own [OF client_inv_frame [OF assms(1)] s1(2)] own_envelope_frame by blast
qed

lemma encrypt_line_own:
  assumes inv: "client_inv L s" and "encrypt_line L rg line s = (Ok evs, s')"
  shows "list_all (own_envelope s) evs"
proof -
  obtain ev s1 where s1: "client_encrypt_payload L (rg_message_id rg) (Chat line) s = (Ok ev, s1)"
    using assms(2) by (auto simp: encrypt_line_def and_then_eq_Ok_iff)
  have f: "client_frame s s1"
    using client_encrypt_payload_frame [of s L "rg_message_id rg" "Chat line"] s1 by simp
  have own: "own_envelope s ev" by (rule client_encrypt_payload_own [OF inv s1])
  have "own_envelope s req" if "client_start_rekey L rg (s1\<lparr>cs_outbound_since_rekey := n\<rparr>) = (Ok req, t)" for n req t
  proof -
    have g: "client_frame s (s1\<lparr>cs_outbound_since_rekey := n\<rparr>)" using f by simp
    show ?thesis
      using client_start_rekey_own [OF client_inv_frame [OF inv g] that] own_envelope_frame [OF g] by simp
  qed
  then show ?thesis
    using assms(2) own
    by (auto simp: encrypt_line_def s1 Let_def and_then_eq_Ok_iff split: option.splits if_splits)
qed

lemma handle_event_reply_own:
  assumes inv: "client_inv L s" and "handle_event L rg e s = (Ok out, s')"
    and "io_reply_event out = Some reply"
  shows "own_envelope s reply"
proof -
  obtain env where e: "e = EncryptedMessage env" "handle_encrypted_message L rg env s = (Ok out, s')"
    using assms(2,3)
    by (auto simp: handle_event_def inbound_outcome_default_def Let_def
        split: wire_event.splits if_splits option.splits)
  obtain p s1 where s1: "on_crypto (decrypt_payload L env) s = (Ok p, s1)"
    using e(2) by (auto simp: handle_encrypted_message_def and_then_eq_Ok_iff)
  have f1: "client_frame s s1" using on_crypto_frame [OF decrypt_payload_identity [of _ L env], of s] s1 by simp
  obtain rid pk where p: "p = RekeyRequest rid pk"
    using e(2) s1 assms(3)
    by (cases p) (auto simp: handle_encrypted_message_def and_then_eq_Ok_iff on_crypto_def Let_def
        split: option.splits prod.splits)
  obtain r s2 renv s3 where r: "on_crypto (handle_session_payload L (rg_secret rg) p) s1 = (Ok (Some r), s2)"
    "on_crypto (encrypt_payload L (rg_message_id rg) r) s2 = (Ok renv, s3)" "reply = EncryptedMessage renv"
    using e(2) s1 assms(3)
    by (auto simp: handle_encrypted_message_def p and_then_eq_Ok_iff split: option.splits)
  have "client_frame s1 s2"
    using on_crypto_frame [OF handle_session_payload_identity [of _ L "rg_secret rg" p], of s1] r(1) by simp
  then have f2: "client_frame s s2" using client_frame_trans f1 by blast
  have "client_encrypt_payload L (rg_message_id rg) r s2 = (Ok reply, s3)"
    using r(2,3) by (simp add: client_encrypt_payload_def)
  then show ?thesis
    using client_encrypt_payload_own [OF client_inv_frame [OF inv f2]] own_envelope_frame [OF f2] by blast
qed

section \<open>The invariant of the client\<close>

definition honest_output :: "cli \<Rightarrow> cli_output \<Rightarrow> bool" where
  "honest_output c x = (case x of
      FingerprintVerified fp \<Rightarrow> cl_pinned c = Some fp
    | FingerprintUnverified _ \<Rightarrow> cl_pinned c = None
    | ChatLine _ \<Rightarrow> is_ready (cl_session c)
    | RotatedTo _ \<Rightarrow> is_ready (cl_session c)
    | _ \<Rightarrow> True)"

definition cli_inv :: "crates \<Rightarrow> cli \<Rightarrow> bool" where
  "cli_inv L c \<longleftrightarrow>
     client_inv L (cl_session c) \<and>
     cs_expected_peer_fingerprint (cl_session c) = cl_pinned c \<and>
     (\<forall>t \<in> set (cl_sent c). \<exists>e. json_of_wire L e = Some t \<and> own_event (cl_session c) e) \<and>
     list_all (honest_output c) (cl_output c)"

text \<open>Two client states that speak for the same session and have not lost readiness.\<close>

definition cli_next :: "cli \<Rightarrow> cli \<Rightarrow> bool" where
  "cli_next c d \<longleftrightarrow>
     cl_pinned d = cl_pinned c \<and>
     cs_local_id (cl_session d) = cs_local_id (cl_session c) \<and>
     cs_peer_id (cl_session d) = cs_peer_id (cl_session c) \<and>
     cs_keypair (cl_session d) = cs_keypair (cl_session c) \<and>
     (is_ready (cl_session c) \<longrightarrow> is_ready (cl_session d))"

lemma own_event_cong:
  "cs_local_id t = cs_local_id s \<Longrightarrow> cs_peer_id t = cs_peer_id s \<Longrightarrow> cs_keypair t = cs_keypair s \<Longrightarrow>
     own_event t e = own_event s e"
  by (cases e) (simp_all add: own_event_def client_hello_def peer_key_event_def)

lemma honest_output_next: "cli_next c d \<Longrightarrow> honest_output c x \<Longrightarrow> honest_output d x"
  by (cases x) (simp_all add: honest_output_def cli_next_def)

lemma cli_inv_next:
  assumes "cli_inv L c" and "cli_next c d" and "client_inv L (cl_session d)"
    and "cs_expected_peer_fingerprint (cl_session d) = cl_pinned d"
    and "cl_sent d = cl_sent c" and "cl_output d = cl_output c"
  shows "cli_inv L d"
  using assms own_event_cong [of "cl_session d" "cl_session c"]
  by (auto simp: cli_inv_def list_all_iff cli_next_def intro: honest_output_next [OF assms(2)])

lemma send_event_inv:
  assumes "cli_inv L c" and "own_event (cl_session c) e"
  shows "cli_inv L (snd (send_event L net e c))" and "cli_next c (snd (send_event L net e c))"
    and "cl_session (snd (send_event L net e c)) = cl_session c"
  using assms
  by (auto simp: send_event_def cli_inv_def cli_next_def list_all_iff honest_output_def split: option.splits
      cli_output.splits)

lemma send_events_inv:
  assumes "cli_inv L c" and "list_all (own_event (cl_session c)) es"
  shows "cli_inv L (snd (send_events L net es c))"
  using assms
proof (induction es arbitrary: c)
  case (Cons e es)
  show ?case
  proof (cases "send_event L net e c")
    case (Pair r d)
    have d: "cli_inv L d" "cl_session d = cl_session c"
      using send_event_inv [OF Cons.prems(1), of e net] Cons.prems(2) by (simp_all add: Pair)
    then show ?thesis using Cons by (cases r) (simp_all add: Pair)
  qed
qed simp

lemma say_inv: "cli_inv L c \<Longrightarrow> honest_output c x \<Longrightarrow> cli_inv L (say x c)"
  by (auto simp: cli_inv_def say_def list_all_iff honest_output_def split: cli_output.splits)

lemma say_session [simp]: "cl_session (say x c) = cl_session c" "cl_pinned (say x c) = cl_pinned c"
  by (simp_all add: say_def)

lemma handle_event_keeps:
  assumes "snd (handle_event L rg e s) = t"
  shows "cs_local_id t = cs_local_id s" "cs_peer_id t = cs_peer_id s" "cs_keypair t = cs_keypair s"
    "cs_expected_peer_fingerprint t = cs_expected_peer_fingerprint s" "is_ready s \<longrightarrow> is_ready t"
proof -
  have "cs_local_id t = cs_local_id s \<and> cs_peer_id t = cs_peer_id s \<and> cs_keypair t = cs_keypair s \<and>
      cs_expected_peer_fingerprint t = cs_expected_peer_fingerprint s \<and> (is_ready s \<longrightarrow> is_ready t)"
    by (rule handle_event_cases [of s L rg e])
      (auto simp: assms [symmetric] client_frame_def is_ready_def rel_option_iff split: option.splits)
  then show "cs_local_id t = cs_local_id s" "cs_peer_id t = cs_peer_id s" "cs_keypair t = cs_keypair s"
    "cs_expected_peer_fingerprint t = cs_expected_peer_fingerprint s" "is_ready s \<longrightarrow> is_ready t"
    by simp_all
qed

lemma with_session_frame:
  assumes "cli_inv L c" and "client_frame (cl_session c) (snd (f (cl_session c)))"
  shows "cli_inv L (snd (with_session f c))"
proof -
  obtain r t where f: "f (cl_session c) = (r, t)" by fastforce
  have t: "client_frame (cl_session c) t" using assms(2) f by simp
  have "cli_inv L (c\<lparr>cl_session := t\<rparr>)"
    using t assms(1) client_inv_frame [OF _ t]
    by (intro cli_inv_next [OF assms(1)])
      (auto simp: cli_next_def client_frame_def is_ready_def cli_inv_def rel_option_iff split: option.splits)
  then show ?thesis by (simp add: with_session_def f)
qed

lemma and_then_cli_inv:
  assumes "cli_inv L (snd r)" and "\<And>x d. r = (Ok x, d) \<Longrightarrow> cli_inv L (snd (k x d))"
  shows "cli_inv L (snd (and_then r k))"
  by (rule and_then_state [where R = "\<lambda>_ d. cli_inv L d"]) (use assms in auto)

lemma send_events_single:
  "snd (send_events L net [ev] c) = snd (send_event L net ev c)"
proof (cases "send_event L net ev c")
  case (Pair r d)
  then show ?thesis by (cases r) simp_all
qed

lemma continue_inv:
  "cli_inv L (snd r) \<Longrightarrow> cli_inv L (snd (and_then r (\<lambda>_ d. (Ok Continue, d))))"
  by (rule and_then_cli_inv) simp_all

text \<open>A session operation that keeps the frame, followed by sending what it produced.\<close>

lemma produced_inv:
  assumes inv: "cli_inv L c" and frame: "client_frame (cl_session c) t"
    and own: "list_all (own_envelope (cl_session c)) evs"
  shows "cli_inv L (c\<lparr>cl_session := t\<rparr>)" and "cli_inv L (snd (send_events L net evs (c\<lparr>cl_session := t\<rparr>)))"
proof -
  show t: "cli_inv L (c\<lparr>cl_session := t\<rparr>)"
    using with_session_frame [OF inv, of "\<lambda>_. (Ok (), t)"] frame by (simp add: with_session_def)
  have "list_all (own_event t) evs"
    using own own_envelope_frame [OF frame] own_envelope_event unfolding list_all_iff by blast
  then show "cli_inv L (snd (send_events L net evs (c\<lparr>cl_session := t\<rparr>)))"
    using send_events_inv [OF t] by simp
qed

lemma on_line_inv:
  assumes inv: "cli_inv L c"
  shows "cli_inv L (snd (on_line L net rg line c))"
proof -
  let ?s = "cl_session c"
  have ci: "client_inv L ?s" using inv by (simp add: cli_inv_def)
  obtain r t where r: "client_start_rekey L rg ?s = (r, t)" by fastforce
  have rt: "client_frame ?s t" using client_start_rekey_frame [of ?s L rg] r by simp
  have rekey: "cli_inv L (c\<lparr>cl_session := t\<rparr>)"
    "r = Ok ev \<Longrightarrow> cli_inv L (snd (send_event L net ev (c\<lparr>cl_session := t\<rparr>)))" for ev
    using produced_inv(1) [OF inv rt, of "[]"] produced_inv(2) [OF inv rt, of "[ev]" net]
      client_start_rekey_own [OF ci] r send_events_single by simp_all
  obtain q u where q: "encrypt_line L rg line ?s = (q, u)" by fastforce
  have qu: "client_frame ?s u" using encrypt_line_frame [of ?s L rg line] q by simp
  have chat: "cli_inv L (c\<lparr>cl_session := u\<rparr>)"
    "q = Ok evs \<Longrightarrow> cli_inv L (snd (send_events L net evs (c\<lparr>cl_session := u\<rparr>)))" for evs
    using produced_inv(1) [OF inv qu, of "[]"] produced_inv(2) [OF inv qu, of evs net]
      encrypt_line_own [OF ci] q by simp_all
  show ?thesis
    unfolding on_line_def with_session_def r q
    using inv rekey chat
    by (auto intro!: say_inv continue_inv simp: honest_output_def split: result.split)
qed

lemma handle_event_ready:
  assumes "handle_event L rg e s = (Ok out, t)" and "io_event out = Some x"
  shows "is_ready t"
proof -
  have "is_ready s"
  proof (rule ccontr)
    assume "\<not> is_ready s"
    then have "handle_encrypted_message L rg env s = (Err MissingPeerKey, s)" for env
      by (simp add: handle_encrypted_message_def on_crypto_def is_ready_def)
    then show False
      using assms
      by (auto simp: handle_event_def inbound_outcome_default_def Let_def
          split: wire_event.splits if_splits option.splits)
  qed
  then show ?thesis using handle_event_keeps(5) [of L rg e s t] assms(1) by simp
qed

lemma announce_inv:
  assumes "cli_inv L c" and "io_event out \<noteq> None \<longrightarrow> is_ready (cl_session c)"
  shows "cli_inv L (announce e out c)" and "cl_session (announce e out c) = cl_session c"
    and "cl_pinned (announce e out c) = cl_pinned c"
  using assms
  by (auto simp: announce_def intro!: say_inv
      simp: honest_output_def split: option.split inbound_event.split)

lemma show_fingerprint_inv:
  assumes inv: "cli_inv L c"
  shows "cli_inv L (show_fingerprint L w c)" and "cl_session (show_fingerprint L w c) = cl_session c"
proof -
  have "honest_output c (FingerprintVerified fp)"
    if "cl_pinned c \<noteq> None" "peer_fingerprint L (cl_session c) = Some fp" for fp
    using inv that by (auto simp: honest_output_def cli_inv_def client_inv_def peer_fingerprint_def)
  then show "cli_inv L (show_fingerprint L w c)"
    using inv by (auto simp: show_fingerprint_def intro!: say_inv split: option.split)
      (simp add: honest_output_def)
  show "cl_session (show_fingerprint L w c) = cl_session c"
    by (simp add: show_fingerprint_def split: option.split)
qed

text \<open>The end of the handling of a text: the fingerprint, and the client's own key in reply.\<close>

lemma introduce_inv:
  assumes "cli_inv L d"
  shows "cli_inv L (snd (let d = show_fingerprint L w d in
    and_then (if b then send_event L net (peer_key_event (cl_session d)) d else (Ok (), d))
      (\<lambda>_ d. (Ok Continue, d))))"
proof -
  let ?d = "show_fingerprint L w d"
  have d: "cli_inv L ?d" by (rule show_fingerprint_inv [OF assms])
  have "own_event (cl_session ?d) (peer_key_event (cl_session ?d))" by (simp add: own_event_def)
  then have "cli_inv L (snd (if b then send_event L net (peer_key_event (cl_session ?d)) ?d else (Ok (), ?d)))"
    using d send_event_inv(1) [OF d] by simp
  then show ?thesis unfolding Let_def by (rule continue_inv)
qed

lemma on_text_inv:
  assumes inv: "cli_inv L c"
  shows "cli_inv L (snd (on_text L net rg payload c))"
proof (cases "wire_of_json L payload")
  case (Some e)
  let ?s = "cl_session c"
  have ci: "client_inv L ?s" using inv by (simp add: cli_inv_def)
  obtain r t where r: "handle_event L rg e ?s = (r, t)" by fastforce
  note keeps = handle_event_keeps [of L rg e ?s t, unfolded r, simplified]
  have "client_inv L t" using client_inv_act [OF ci, of "ReceiveEvent rg e"] r by (simp add: client_act_def)
  then have t: "cli_inv L (c\<lparr>cl_session := t\<rparr>)"
    using inv keeps by (intro cli_inv_next [OF inv]) (auto simp: cli_next_def cli_inv_def)
  show ?thesis
  proof (cases r)
    case (Ok out)
    let ?c = "announce e out (c\<lparr>cl_session := t\<rparr>)"
    have "io_event out \<noteq> None \<longrightarrow> is_ready (cl_session (c\<lparr>cl_session := t\<rparr>))"
      using handle_event_ready [OF r [unfolded Ok]] by auto
    note a = announce_inv(1) [OF t this, of e] announce_inv(2) [OF t this, of e, simplified]
    have "own_event t rep" if "io_reply_event out = Some rep" for rep
      using handle_event_reply_own [OF ci r [unfolded Ok] that] keeps
      by (auto simp: own_envelope_def own_event_def split: wire_event.splits)
    then have reply: "cli_inv L (snd (case io_reply_event out of None \<Rightarrow> (Ok (), ?c)
        | Some rep \<Rightarrow> send_event L net rep ?c))"
      using a send_event_inv [OF a(1)] by (auto split: option.split)
    have "cli_inv L (snd (and_then (case io_reply_event out of None \<Rightarrow> (Ok (), ?c)
        | Some rep \<Rightarrow> send_event L net rep ?c) (\<lambda>_ d. let d = show_fingerprint L (is_ready ?s) d in
        and_then (if needs_peer_key_reply (is_ready ?s) e
                  then send_event L net (peer_key_event (cl_session d)) d else (Ok (), d))
          (\<lambda>_ d. (Ok Continue, d)))))"
      by (rule and_then_cli_inv [OF reply]) (use reply introduce_inv in \<open>metis snd_conv\<close>)
    then show ?thesis by (simp add: on_text_def Some with_session_def r Ok Let_def)
  next
    case (Err x)
    then show ?thesis
      using say_inv [OF t, of "RejectedEvent x"]
      by (simp add: on_text_def Some with_session_def r honest_output_def)
  next
    case Panic
    then show ?thesis using t by (simp add: on_text_def Some with_session_def r)
  qed
qed (simp add: on_text_def inv)

lemma cli_step_inv:
  assumes inv: "cli_inv L c"
  shows "cli_inv L (snd (cli_step L net rg input c))"
proof -
  have s: "cli_inv L (snd (send_event L net (peer_key_event (cl_session c)) c))"
    by (rule send_event_inv [OF inv]) (simp add: own_event_def)
  have tick: "cli_inv L (snd (and_then (send_event L net (peer_key_event (cl_session c)) c) (\<lambda>_ d. (Ok Continue, d))))"
    by (rule continue_inv [OF s])
  show ?thesis
    using inv tick on_line_inv [OF inv] on_text_inv [OF inv]
    by (simp add: cli_step_def split: cli_input.split option.split ws_message.split)
qed

lemma cli_loop_inv:
  "cli_inv L c \<Longrightarrow> cli_inv L (snd (cli_loop L net inputs c))"
proof (induction inputs arbitrary: c)
  case (Cons x inputs)
  obtain rg i where x: "x = (rg, i)" by fastforce
  have "cli_inv L (snd (cli_step L net rg i c))" by (rule cli_step_inv [OF Cons.prems])
  then show ?case
    using Cons.IH by (auto simp: x split: prod.split result.split flow.split)
qed simp

lemma run_start_inv:
  assumes "lowers L" and "run_start L reachable net secret args = Ok c"
  shows "cli_inv L c"
    and "cl_pinned c = (case ar_verify_fingerprint args of None \<Rightarrow> None | Some raw \<Rightarrow> normalize_fingerprint L raw)"
    and "ar_verify_fingerprint args \<noteq> None \<longrightarrow> cl_pinned c \<noteq> None"
proof -
  obtain local peer where ids: "client_id_parse (ar_id args) = Ok local" "client_id_parse (ar_peer args) = Ok peer"
    using assms(2) by (auto simp: run_start_def split: result.splits)
  define s0 where "s0 = (case ar_rekey_after args of None \<Rightarrow> client_session_new L secret local peer
    | Some k \<Rightarrow> set_auto_rekey_after k (client_session_new L secret local peer))"
  define pin where "pin = (case ar_verify_fingerprint args of None \<Rightarrow> None | Some raw \<Rightarrow> normalize_fingerprint L raw)"
  define s1 where "s1 = (case pin of None \<Rightarrow> s0 | Some p \<Rightarrow> expect_peer_fingerprint L p s0)"
  let ?c = "\<lparr>cl_session = s1, cl_pinned = pin, cl_sent = [], cl_output = []\<rparr>"
  have some: "ar_verify_fingerprint args \<noteq> None \<longrightarrow> pin \<noteq> None"
    using assms(2) by (auto simp: run_start_def ids pin_def Let_def split: option.splits if_splits)
  have c: "and_then (send_event L net (client_hello s1) ?c) (\<lambda>_ d. send_event L net (peer_key_event s1) d) = (Ok (), c)"
    using assms(2)
    by (auto simp: run_start_def ids s0_def s1_def pin_def Let_def split: option.splits if_splits prod.splits result.splits)
  have s0: "client_inv L s0" "cs_expected_peer_fingerprint s0 = None"
    using client_inv_new [of L secret local peer]
    by (auto simp: s0_def set_auto_rekey_after_def client_inv_def client_session_new_def split: option.splits)
  have "cs_expected_peer_fingerprint s1 = pin \<and> client_inv L s1"
  proof (cases pin)
    case (Some p)
    then have "s1 = s0\<lparr>cs_expected_peer_fingerprint := Some p\<rparr>"
      using normalized_pin [OF assms(1)] by (auto simp: s1_def pin_def split: option.splits)
    moreover have "cs_peer_public_key s0 = None"
      by (simp add: s0_def set_auto_rekey_after_def client_session_new_def split: option.split)
    ultimately show ?thesis using Some s0 by (simp add: client_inv_def)
  qed (simp add: s1_def s0)
  then have inv: "cli_inv L ?c" by (simp add: cli_inv_def)
  obtain d where d: "send_event L net (client_hello s1) ?c = (Ok (), d)" "send_event L net (peer_key_event s1) d = (Ok (), c)"
    using c by (auto simp: and_then_eq_Ok_iff)
  have "cli_inv L d" "cl_session d = s1" "cl_pinned d = pin"
    using send_event_inv [OF inv, of "client_hello s1" net] d(1) by (simp_all add: own_event_def cli_next_def)
  then show "cli_inv L c"
    and "cl_pinned c = (case ar_verify_fingerprint args of None \<Rightarrow> None | Some raw \<Rightarrow> normalize_fingerprint L raw)"
    and "ar_verify_fingerprint args \<noteq> None \<longrightarrow> cl_pinned c \<noteq> None"
    using send_event_inv [of L d "peer_key_event s1" net] d(2) some
    by (simp_all add: own_event_def cli_next_def pin_def)
qed

section \<open>What ends the client\<close>

text \<open>A decodable event never ends the client by itself: only a failing send does.\<close>

lemma on_text_survives:
  assumes "wire_of_json L payload = Some e" and "\<And>sent. net sent" and "\<And>e. json_of_wire L e \<noteq> None"
    and "fst (handle_event L rg e (cl_session c)) \<noteq> Panic"
  shows "fst (on_text L net rg payload c) = Ok Continue"
proof -
  have send: "fst (send_event L net x d) = Ok ()" for x d
    using assms(2,3) by (auto simp: send_event_def split: option.split)
  then have send2: "fst (and_then (send_event L net x d) k) = fst (k () (snd (send_event L net x d)))" for x d k
    by (metis and_then_Ok prod.collapse)
  obtain r t where r: "handle_event L rg e (cl_session c) = (r, t)" by fastforce
  show ?thesis
    using assms(1,4)
    by (cases r) (auto simp: on_text_def with_session_def r Let_def send2 split: option.split)
qed

text \<open>Asking for a rekey while one is under way ends the client.\<close>

lemma rekey_twice_exits:
  assumes "cs_crypto_session (cl_session c) = Some x" and "pending_rekey x = Some p"
  shows "on_line L net rg (str ''/rekey'') c = (Err (CliStartRekey (CryptoErr RekeyAlreadyInProgress)), c)"
proof -
  have "client_start_rekey L rg (cl_session c) =
      (Err (CryptoErr RekeyAlreadyInProgress), cl_session c)"
    using assms by (simp add: client_start_rekey_def on_crypto_Some pending_blocks(1))
  then show ?thesis
    using assms(1) by (simp add: on_line_def is_ready_def with_session_def str_def)
qed

section \<open>Whole runs keep the identity of the client\<close>

text \<open>One iteration of the loop keeps the identity of the client and its pin.\<close>

lemma cli_next_refl [simp]: "cli_next c c"
  by (simp add: cli_next_def)

lemma cli_next_trans: "cli_next c d \<Longrightarrow> cli_next d e \<Longrightarrow> cli_next c e"
  by (simp add: cli_next_def)

lemma and_then_next:
  assumes "cli_next c (snd r)" and "\<And>x d. cli_next d (snd (k x d))"
  shows "cli_next c (snd (and_then r k))"
  by (rule and_then_state) (use assms cli_next_trans in auto)

lemma send_event_next: "cli_next c (snd (send_event L net e c))"
  by (simp add: send_event_def cli_next_def split: option.split)

lemma send_events_next: "cli_next c (snd (send_events L net es c))"
  by (induction es arbitrary: c) (simp_all add: and_then_next send_event_next)

lemma say_next: "cli_next c d \<Longrightarrow> cli_next c (say x d)"
  by (simp add: cli_next_def)

lemma session_next:
  assumes "client_frame (cl_session c) t"
  shows "cli_next c (c\<lparr>cl_session := t\<rparr>)"
  using assms by (auto simp: cli_next_def client_frame_def is_ready_def rel_option_iff split: option.splits)

lemma on_line_next: "cli_next c (snd (on_line L net rg line c))"
proof -
  obtain r t where r: "client_start_rekey L rg (cl_session c) = (r, t)" by fastforce
  obtain q u where q: "encrypt_line L rg line (cl_session c) = (q, u)" by fastforce
  have n: "cli_next c (c\<lparr>cl_session := t\<rparr>)" "cli_next c (c\<lparr>cl_session := u\<rparr>)"
    using session_next [of c t] session_next [of c u] client_start_rekey_frame [of "cl_session c" L rg]
      encrypt_line_frame [of "cl_session c" L rg line] r q by simp_all
  have s: "cli_next c (snd (and_then (send_event L net e (c\<lparr>cl_session := t\<rparr>)) (\<lambda>_ d. (Ok Continue, d))))"
    "cli_next c (snd (and_then (send_events L net es (c\<lparr>cl_session := u\<rparr>)) (\<lambda>_ d. (Ok Continue, d))))" for e es
    by (rule and_then_next; use cli_next_trans n send_event_next send_events_next in auto)+
  show ?thesis
    unfolding on_line_def with_session_def r q
    by (simp add: s n say_next split: result.split)
qed

lemma on_text_next: "cli_next c (snd (on_text L net rg payload c))"
proof (cases "wire_of_json L payload")
  case (Some e)
  obtain r t where r: "handle_event L rg e (cl_session c) = (r, t)" by fastforce
  have n: "cli_next c (c\<lparr>cl_session := t\<rparr>)"
    using handle_event_keeps [of L rg e "cl_session c" t] r by (simp add: cli_next_def)
  have ann: "cli_next c (announce e out (c\<lparr>cl_session := t\<rparr>))" for out
    using n say_next [OF n] by (auto simp: announce_def split: option.split inbound_event.split)
  have fpr: "cli_next d (show_fingerprint L w d)" for d w
    by (auto simp: show_fingerprint_def intro: say_next split: option.split)
  have last: "cli_next d (snd (and_then (if b then send_event L net (peer_key_event (cl_session d')) d'
      else (Ok (), d')) (\<lambda>_ d. (Ok Continue, d))))" if "cli_next d d'" for d d' b
    by (rule and_then_next) (use that cli_next_trans send_event_next in auto)
  have "cli_next c (snd (and_then
      (case io_reply_event out of None \<Rightarrow> (Ok (), announce e out (c\<lparr>cl_session := t\<rparr>))
        | Some reply \<Rightarrow> send_event L net reply (announce e out (c\<lparr>cl_session := t\<rparr>)))
      (\<lambda>_ d. let d = show_fingerprint L w d in
        and_then (if b then send_event L net (peer_key_event (cl_session d)) d else (Ok (), d))
          (\<lambda>_ d. (Ok Continue, d)))))" for out w b
    by (rule and_then_next)
      (use ann cli_next_trans [OF ann send_event_next] last [OF fpr] in \<open>auto simp: Let_def split: option.split\<close>)
  then show ?thesis
    using say_next [OF n] n by (simp add: on_text_def Some with_session_def r Let_def split: result.split)
qed (simp add: on_text_def)

lemma cli_step_next: "cli_next c (snd (cli_step L net rg i c))"
proof -
  have "cli_next c (snd (and_then (send_event L net e c) (\<lambda>_ d. (Ok Continue, d))))" for e
    by (rule and_then_next) (simp_all add: send_event_next)
  then show ?thesis
    by (simp add: cli_step_def on_line_next on_text_next split: cli_input.split option.split ws_message.split)
qed

lemma cli_loop_next: "cli_next c (snd (cli_loop L net inputs c))"
proof (induction inputs arbitrary: c)
  case (Cons x inputs)
  obtain rg i where x: "x = (rg, i)" by fastforce
  obtain r d where r: "cli_step L net rg i c = (r, d)" by fastforce
  have "cli_next c d" using cli_step_next [of c L net rg i] r by simp
  then show ?case
    using cli_next_trans [OF _ Cons.IH, of c d] by (auto simp: x r split: result.split flow.split)
qed simp

lemma run_start_ids:
  assumes "run_start L reachable net secret args = Ok c"
  shows "as_str (cs_local_id (cl_session c)) = ar_id args" "as_str (cs_peer_id (cl_session c)) = ar_peer args"
    "cs_keypair (cl_session c) = key_pair_generate L secret"
proof -
  obtain local peer where ids: "client_id_parse (ar_id args) = Ok local" "client_id_parse (ar_peer args) = Ok peer"
    using assms by (auto simp: run_start_def split: result.splits)
  have "cs_local_id (cl_session c) = local \<and> cs_peer_id (cl_session c) = peer \<and>
      cs_keypair (cl_session c) = key_pair_generate L secret"
    using assms
    by (auto simp: run_start_def ids Let_def client_session_new_def set_auto_rekey_after_def
        expect_peer_fingerprint_def send_event_def and_then_eq_Ok_iff
        split: option.splits if_splits prod.splits result.splits)
  then show "as_str (cs_local_id (cl_session c)) = ar_id args" "as_str (cs_peer_id (cl_session c)) = ar_peer args"
    "cs_keypair (cl_session c) = key_pair_generate L secret"
    using ids by (auto simp: client_id_parse_Ok_iff)
qed

end
