(* ===== verification/Scenario.thy ===== *)
theory Scenario
  imports Client_Cli
begin

text \<open>
  A concrete conversation between Alice and Bob over the concrete instance of the crates, for the
  witnesses of the properties: their sessions right after the key exchange, an envelope in flight,
  and random values that satisfy the length conditions.
\<close>

section \<open>Sessions\<close>

definition secret_a :: bytes where
  "secret_a = replicate 32 1"

definition secret_b :: bytes where
  "secret_b = replicate 32 2"

definition session_a :: crypto_session where
  "session_a = crypto_session_new toy_crates (key_pair_generate toy_crates secret_a)
     (key_pair_public_key (key_pair_generate toy_crates secret_b)) alice bob"

definition session_b :: crypto_session where
  "session_b = crypto_session_new toy_crates (key_pair_generate toy_crates secret_b)
     (key_pair_public_key (key_pair_generate toy_crates secret_a)) bob alice"

lemma sessions_in_sync: "in_sync session_a session_b"
  unfolding session_a_def session_b_def by (rule in_sync_new [OF toy_x25519_agrees])

lemma session_a_fields [simp]:
  "local_id session_a = alice" "peer_id session_a = bob" "epoch session_a = 0"
  "next_outbound_nonce session_a = 0" "inbound_nonces session_a = Map.empty"
  "pending_rekey session_a = None" "staged_master session_a = None"
  by (simp_all add: session_a_def crypto_session_new_def)

lemma session_b_fields [simp]:
  "local_id session_b = bob" "peer_id session_b = alice" "epoch session_b = 0"
  "next_outbound_nonce session_b = 0" "inbound_nonces session_b = Map.empty"
  "pending_rekey session_b = None" "staged_master session_b = None"
  by (simp_all add: session_b_def crypto_session_new_def)

lemma sessions_valid [simp]: "valid_ids session_a" "valid_ids session_b"
  by (simp_all add: valid_ids_def)

lemma sessions_can_rekey [simp]: "can_rekey toy_crates session_a" "can_rekey toy_crates session_b"
  by (simp_all add: can_rekey_def is_rekey_in_progress_def)

lemma sessions_paired: "paired session_a session_b" "synced session_a session_b"
  using sessions_in_sync by (simp_all add: in_sync_def)

section \<open>A message\<close>

definition mid0 :: message_id where
  "mid0 = MessageId 0"

lemma message_sent:
  obtains env s' where "encrypt toy_crates mid0 [1, 2, 3] session_a = (Ok env, s')"
proof -
  have "length [1, 2, 3 :: byte] < aead_max_len" by (simp add: aead_max_len_def)
  then show thesis
    using encrypt_succeeds [OF toy_crypto_laws, of session_a "[1, 2, 3]" mid0] that by auto
qed

definition env0 :: encrypted_envelope where
  "env0 = (case encrypt toy_crates mid0 [1, 2, 3] session_a of (Ok env, _) \<Rightarrow> env)"

definition session_a1 :: crypto_session where
  "session_a1 = snd (encrypt toy_crates mid0 [1, 2, 3] session_a)"

lemma env0_sent: "encrypt toy_crates mid0 [1, 2, 3] session_a = (Ok env0, session_a1)"
  by (rule message_sent) (simp add: env0_def session_a1_def)

lemma env0_fields [simp]:
  "env_sender env0 = alice" "env_recipient env0 = bob" "env_epoch env0 = 0" "env_message_id env0 = mid0"
  using encrypt_header [OF env0_sent] by simp_all

lemma session_a1_eq: "session_a1 = session_a\<lparr>next_outbound_nonce := 1\<rparr>"
  using encrypt_Ok_state [OF env0_sent] by simp

lemma env0_wf: "wf_envelope env0"
proof -
  have "length (outbound_nonce_prefix session_a) = 16"
    by (simp add: session_a_def crypto_session_new_def nonce_prefix_def toy_crates_def)
  then have "wf_nonce (env_nonce env0)"
    using encrypt_nonce(1) [OF env0_sent] by (simp add: wf_nonce_def nonce_number_def)
  then show ?thesis by (simp add: wf_envelope_def)
qed

lemma env0_received: "decrypt toy_crates env0 session_b = (Ok [1, 2, 3], noted env0 session_b)"
proof -
  have "epoch session_b \<noteq> - 1" by simp
  then obtain b' where "decrypt toy_crates env0 session_b = (Ok [1, 2, 3], b')"
    using decrypt_of_encrypt [OF toy_aead_correct sessions_paired _ env0_sent] by blast
  then show ?thesis using decrypt_Ok_opens by blast
qed

lemma env0_replayed:
  "decrypt toy_crates env0 (noted env0 session_b) = (Err DuplicateNonce, noted env0 session_b)"
proof -
  have "opens toy_crates (noted env0 session_b) env0 [1, 2, 3]"
    using decrypt_Ok_opens [OF env0_received] by simp
  from decrypt_opens [OF this] show ?thesis by (simp add: tracked_noted)
qed

lemma session_b_run: "session_run toy_crates session_b [Accepted env0 [1, 2, 3], Silent] (noted env0 session_b)"
  by (rule session_run.advance [OF session_step.accept [OF env0_received]])
    (rule session_run.advance [OF session_step.reject [OF env0_replayed] session_run.finish])

section \<open>Clients\<close>

definition client_a :: client_session where
  "client_a = (client_session_new toy_crates secret_a alice bob)
     \<lparr>cs_peer_public_key := Some (key_pair_public_key (key_pair_generate toy_crates secret_b)),
      cs_crypto_session := Some session_a\<rparr>"

definition client_b :: client_session where
  "client_b = (client_session_new toy_crates secret_b bob alice)
     \<lparr>cs_peer_public_key := Some (key_pair_public_key (key_pair_generate toy_crates secret_a)),
      cs_crypto_session := Some session_b\<rparr>"

lemma client_a_fields [simp]:
  "cs_local_id client_a = alice" "cs_peer_id client_a = bob" "cs_crypto_session client_a = Some session_a"
  "cs_auto_rekey_after client_a = None" "cs_outbound_since_rekey client_a = 0"
  by (simp_all add: client_a_def client_session_new_def)

lemma client_b_fields [simp]:
  "cs_local_id client_b = bob" "cs_peer_id client_b = alice" "cs_crypto_session client_b = Some session_b"
  "cs_auto_rekey_after client_b = None"
  by (simp_all add: client_b_def client_session_new_def)

lemma clients_linked: "linked client_a client_b"
  unfolding linked_def using sessions_in_sync by simp

lemma client_a_inv: "client_inv toy_crates client_a"
  by (simp add: client_inv_def client_a_def client_session_new_def session_a_def crypto_session_new_def)

definition rng0 :: rng where
  "rng0 = \<lparr>rg_message_id = mid0, rg_message_id2 = MessageId 1, rg_rekey_id = RekeyId (replicate 16 9),
     rg_secret = replicate 32 3\<rparr>"

lemma rng0_fresh: "fresh_rekey toy_crates (rg_rekey_id rng0) (rg_secret rng0)"
  by (simp add: rng0_def fresh_rekey_def wf_rekey_id_def wf_public_key_def toy_crates_def)

definition hello_line :: ustring where
  "hello_line = str ''hi''"

lemma hello_line_short:
  "json_of_payload toy_crates (Chat hello_line) = Some bs \<Longrightarrow> length bs < aead_max_len"
  by (auto simp: toy_crates_def toy_payload_toks_def length_toks hello_line_def str_def aead_max_len_def)

lemma toy_lowers: "lowers toy_crates"
proof -
  have "\<not> is_ascii_uppercase c" if "0x80 \<le> c" for c
    using that by (auto simp: is_ascii_uppercase_def word_le_nat_alt)
  then show ?thesis by (simp add: lowers_def toy_crates_def)
qed

end
