(* ===== verification/Service.thy ===== *)
theory Service
  imports Event
begin

text \<open>
  The service contracts, \<open>crates/chat-core/src/service.rs\<close>. A Rust trait is a record of operations
  over an implementation state: the code that is generic over the trait takes the record as an
  argument. The default methods of \<open>EventHook\<close> and \<open>AuthProvider\<close> give the no-op instances.
\<close>

datatype router_error =
    ClientAlreadyConnected
  | ClientNotConnected
  | SenderMismatch
  | UnknownRecipient
  | UnsupportedEvent

datatype auth_error = ConnectDenied

record 'r message_router =
  mr_connect :: "client_id \<Rightarrow> 'r \<Rightarrow> (unit, router_error) result \<times> 'r"
  mr_disconnect :: "client_id \<Rightarrow> 'r \<Rightarrow> (unit, router_error) result \<times> 'r"
  mr_route :: "client_id \<Rightarrow> wire_event \<Rightarrow> 'r \<Rightarrow> (unit, router_error) result \<times> 'r"
  mr_drain_outbox :: "client_id \<Rightarrow> 'r \<Rightarrow> wire_event list \<times> 'r"

record 'h event_hook =
  eh_on_connect :: "client_id \<Rightarrow> 'h \<Rightarrow> 'h"
  eh_on_disconnect :: "client_id \<Rightarrow> 'h \<Rightarrow> 'h"
  eh_on_route_accepted :: "client_id \<Rightarrow> wire_event \<Rightarrow> 'h \<Rightarrow> 'h"
  eh_on_route_rejected :: "client_id \<Rightarrow> wire_event \<Rightarrow> router_error \<Rightarrow> 'h \<Rightarrow> 'h"

record 'a auth_provider =
  ap_authorize_connect :: "client_id \<Rightarrow> 'a \<Rightarrow> (unit, auth_error) result \<times> 'a"

definition noop_event_hook :: "unit event_hook" where
  "noop_event_hook =
     \<lparr>eh_on_connect = (\<lambda>_ h. h), eh_on_disconnect = (\<lambda>_ h. h),
      eh_on_route_accepted = (\<lambda>_ _ h. h), eh_on_route_rejected = (\<lambda>_ _ _ h. h)\<rparr>"

definition noop_auth_provider :: "unit auth_provider" where
  "noop_auth_provider = \<lparr>ap_authorize_connect = (\<lambda>_ a. (Ok (), a))\<rparr>"

primrec relay_code_of_router_error :: "router_error \<Rightarrow> relay_error_code" where
  "relay_code_of_router_error SenderMismatch = CodeSenderMismatch"
| "relay_code_of_router_error UnknownRecipient = CodeUnknownRecipient"
| "relay_code_of_router_error UnsupportedEvent = CodeUnsupportedEvent"
| "relay_code_of_router_error ClientNotConnected = CodeClientNotConnected"
| "relay_code_of_router_error ClientAlreadyConnected = CodeClientAlreadyConnected"

primrec relay_code_of_auth_error :: "auth_error \<Rightarrow> relay_error_code" where
  "relay_code_of_auth_error ConnectDenied = CodeConnectDenied"

lemma relay_code_of_router_error_inj:
  "relay_code_of_router_error e = relay_code_of_router_error f \<longleftrightarrow> e = f"
  by (cases e; cases f) simp_all

lemma relay_codes_known:
  "relay_code_of_router_error e \<in> set known_codes"
  "relay_code_of_auth_error d \<in> set known_codes"
  "relay_code_of_router_error e \<noteq> relay_code_of_auth_error d"
  by (cases e; cases d; simp add: known_codes_def)+

end
