(* ===== verification/Properties_Core.thy ===== *)
theory Properties_Core
  imports Scenario Service
begin

text \<open>
  The properties of the protocol types: client identities, the base64 form of the byte newtypes, the
  wire strings of the relay's error codes, and key fingerprints.
\<close>

text \<open>
  C33: A client identity is exactly a string of 1 to 64 characters, each an ASCII letter, digit, dash,
  underscore or dot. Parsing returns the string unchanged; otherwise it reports the first of the
  three violations in the order empty, too long, invalid character.
\<close>

theorem client_id_parse_decides:
  "(client_id_parse s = Ok c \<longleftrightarrow>
     as_str c = s \<and> length s \<in> {1 .. 64} \<and>
     set s \<subseteq> {x. is_ascii_alphanumeric x} \<union> set (str ''-_.'')) \<and>
   (client_id_parse s = Err e \<longleftrightarrow>
     s = [] \<and> e = EmptyClientId \<or> 64 < length s \<and> e = ClientIdTooLong \<or>
     length s \<in> {1 .. 64} \<and> \<not> set s \<subseteq> {x. is_ascii_alphanumeric x} \<union> set (str ''-_.'') \<and>
       e = ClientIdInvalidCharacter)"
proof -
  have chars: "list_all is_allowed_client_id_char s \<longleftrightarrow>
      set s \<subseteq> {x. is_ascii_alphanumeric x} \<union> set (str ''-_.'')"
    by (auto simp: list_all_iff is_allowed_client_id_char_def str_def)
  show ?thesis
    unfolding client_id_parse_def chars CLIENT_ID_MAX_LEN_def
    by (cases c; cases s) auto
qed

text \<open>
  C34: The byte newtypes survive the wire. For every base64 engine that reads back what it writes, a
  public key, a nonce, a ciphertext and a rekey id of the right length deserialize from their own
  serialization to themselves.
\<close>

theorem byte_codecs_roundtrip:
  assumes "base64_roundtrip b64" and "wf_public_key k" and "wf_nonce n" and "wf_rekey_id r"
  shows "deserialize_public_key b64 (Ok (serialize_public_key b64 k)) = Ok k \<and>
    deserialize_nonce b64 (Ok (serialize_nonce b64 n)) = Ok n \<and>
    deserialize_rekey_id b64 (Ok (serialize_rekey_id b64 r)) = Ok r \<and>
    deserialize_ciphertext b64 (Ok (serialize_ciphertext b64 c)) = Ok c"
  using public_key_codec.codec_roundtrip [OF assms(1)] nonce_codec.codec_roundtrip [OF assms(1)]
    rekey_id_codec.codec_roundtrip [OF assms(1)] ciphertext_codec.codec_roundtrip [OF assms(1)] assms(2-)
  by (simp add: wf_public_key_def wf_nonce_def wf_rekey_id_def)

theorem byte_codecs_roundtrip_witness:
  "deserialize_public_key toy_base64 (Ok (serialize_public_key toy_base64 some_key)) = Ok some_key \<and>
   deserialize_nonce toy_base64 (Ok (serialize_nonce toy_base64 (NonceBytes (replicate 24 7)))) =
     Ok (NonceBytes (replicate 24 7))"
  using byte_codecs_roundtrip [OF toy_base64_roundtrip, of some_key "NonceBytes (replicate 24 7)"
      "RekeyId (replicate 16 0)"]
  by (simp add: some_key_def wf_public_key_def wf_nonce_def wf_rekey_id_def)

text \<open>
  C35: Deserialization accepts nothing else. Whatever string arrives, an accepted public key has 32
  bytes, a nonce 24 and a rekey id 16; base64 of any other length is refused with the error that
  names the expected length.
\<close>

theorem byte_codecs_reject:
  assumes "base64_roundtrip b64"
  shows "(deserialize_public_key b64 d = Ok k \<longrightarrow> wf_public_key k) \<and>
    (deserialize_nonce b64 d = Ok n \<longrightarrow> wf_nonce n) \<and>
    (deserialize_rekey_id b64 d = Ok r \<longrightarrow> wf_rekey_id r) \<and>
    (length bs \<noteq> 32 \<longrightarrow> deserialize_public_key b64 (Ok (b64_encode b64 bs)) =
       Err (Custom (str ''public key must decode to exactly 32 bytes''))) \<and>
    (length bs \<noteq> 24 \<longrightarrow> deserialize_nonce b64 (Ok (b64_encode b64 bs)) =
       Err (Custom (str ''nonce must decode to exactly 24 bytes''))) \<and>
    (length bs \<noteq> 16 \<longrightarrow> deserialize_rekey_id b64 (Ok (b64_encode b64 bs)) =
       Err (Custom (str ''rekey id must decode to exactly 16 bytes'')))"
proof -
  have "b64_decode b64 (as_bytes (b64_encode b64 bs)) = Some bs"
    using assms by (simp add: base64_roundtrip_def)
  then show ?thesis
    using public_key_codec.codec_length nonce_codec.codec_length rekey_id_codec.codec_length
    by (simp add: wf_public_key_def wf_nonce_def wf_rekey_id_def codec_defs deserialize_bytes_from_base64_def)
qed

theorem byte_codecs_reject_witness:
  "deserialize_nonce toy_base64 (Ok (b64_encode toy_base64 [1, 2, 3])) =
     Err (Custom (str ''nonce must decode to exactly 24 bytes''))"
  using byte_codecs_reject [OF toy_base64_roundtrip, where bs = "[1, 2, 3]"] by simp

text \<open>
  C36: Error codes and their wire strings. Every string read from the wire keeps its spelling, so an
  unknown code of a newer relay is passed on unchanged; a code survives the round trip unless it is
  the open variant holding the spelling of a known code; and the codes the relay sends for its router
  and connect errors are pairwise different and come back as themselves.
\<close>

theorem relay_code_roundtrip:
  "as_wire_str (from_wire raw) = raw \<and>
   (from_wire (as_wire_str c) = c \<longleftrightarrow> c \<notin> CodeOther ` as_wire_str ` set known_codes) \<and>
   deserialize_relay_error_code (Ok (serialize_relay_error_code (relay_code_of_router_error e))) =
     Ok (relay_code_of_router_error e) \<and>
   deserialize_relay_error_code (Ok (serialize_relay_error_code (relay_code_of_auth_error a))) =
     Ok (relay_code_of_auth_error a) \<and>
   inj relay_code_of_router_error \<and> relay_code_of_router_error e \<noteq> relay_code_of_auth_error a"
proof -
  have "c \<notin> CodeOther ` as_wire_str ` set known_codes \<longleftrightarrow> canonical_code c"
    by (auto simp: canonical_code_def split: relay_error_code.splits)
  then show ?thesis
    using relay_codes_known from_wire_known relay_code_of_router_error_inj
    by (simp add: as_wire_str_from_wire from_wire_as_wire_str_iff deserialize_relay_error_code_def
        serialize_relay_error_code_def map_ok_def inj_def)
qed

text \<open>
  C37: Fingerprints identify keys and survive being copied. A fingerprint is 64 lowercase hexadecimal
  digits, and two keys have the same one exactly when their SHA-256 digests are equal. With any white
  space around it and any of its letters in upper case, the fingerprint a client prints is accepted as an
  argument and normalized to that fingerprint; every accepted argument is normalized to 64 lowercase
  hexadecimal digits, and pinning stores that normal form as it is.
\<close>

theorem fingerprint_argument_roundtrip:
  assumes "digest_lengths L" and "lowers L"
    and "list_all is_whitespace before" and "list_all is_whitespace after"
    and "map lower_char spelling = fingerprint L k"
  shows "length (fingerprint L k) = 64 \<and> set (fingerprint L k) \<subseteq> set (str ''0123456789abcdef'') \<and>
    (fingerprint L k = fingerprint L k' \<longleftrightarrow>
       sha256_digest L (public_key_as_array k) = sha256_digest L (public_key_as_array k')) \<and>
    normalize_fingerprint L (before @ fingerprint L k @ after) = Some (fingerprint L k) \<and>
    normalize_fingerprint L (before @ spelling @ after) = Some (fingerprint L k) \<and>
    (normalize_fingerprint L raw = Some n \<longrightarrow>
       length n = 64 \<and> list_all hex_lower n \<and>
       cs_expected_peer_fingerprint (expect_peer_fingerprint L n s) = Some n)"
proof -
  have "list_all (\<lambda>b. set (hex_byte b) \<subseteq> set (str ''0123456789abcdef'')) (map of_nat [0 ..< 256])"
    by code_simp
  then have hex: "set (hex_byte b) \<subseteq> set (str ''0123456789abcdef'')" for b by (rule byte_cases_all)
  have "set (fingerprint L k) \<subseteq> set (str ''0123456789abcdef'')"
    unfolding fingerprint_def set_concat set_map using hex by blast
  moreover have "length spelling = 64"
    using fingerprint_shape [OF assms(1), of k] assms(5) by (metis length_map)
  ultimately show ?thesis
    using normalize_hex [OF assms(3,4)] normalize_any_case [OF assms(3,4), of spelling] assms(5) fingerprint_shape [OF assms(1), of k] fingerprint_eq_iff [of L k k']
      normalized_shape [OF assms(2)] normalized_pin [OF assms(2)] by simp
qed

definition upper_char :: "uchar \<Rightarrow> uchar" where
  "upper_char c = (if is_ascii_lowercase c then c - 32 else c)"

lemma lower_upper_char: "hex_lower c \<Longrightarrow> lower_char (upper_char c) = c"
  by (auto simp: hex_lower_def lower_char_def upper_char_def is_ascii_lowercase_def is_ascii_uppercase_def
      word_le_nat_alt unat_sub_if_size)

theorem fingerprint_argument_roundtrip_witness:
  "length (fingerprint toy_crates some_key) = 64 \<and>
   normalize_fingerprint toy_crates (str '' '' @ map upper_char (fingerprint toy_crates some_key) @ str '' '') =
     Some (fingerprint toy_crates some_key)"
proof -
  have ws: "list_all is_whitespace (str '' '')" by (simp add: str_def is_whitespace_def)
  have "map lower_char (map upper_char (fingerprint toy_crates some_key)) = fingerprint toy_crates some_key"
    using fingerprint_shape [OF toy_digest_lengths, of some_key]
    by (simp add: comp_def lower_upper_char list_all_iff map_idI)
  from fingerprint_argument_roundtrip [OF toy_digest_lengths toy_lowers ws ws this] show ?thesis by blast
qed

end
