(* ===== verification/Properties_Crypto.thy ===== *)
theory Properties_Crypto
  imports Scenario "HOL-Library.Multiset"
begin

text \<open>
  The properties of the crypto session, each with a witness over the conversation of Scenario.
\<close>

section \<open>Runs of a session\<close>

text \<open>
  C5: No envelope is accepted twice. In every run of a fresh session, whatever methods are called in
  whatever order and across any number of rekeys, the accepted envelopes differ in epoch or nonce.
  Without overflow checks this needs fewer than \<open>2 ^ 32\<close> steps, so that the epoch does not wrap.
\<close>

theorem replay_never_accepted:
  assumes "session_run L (crypto_session_new L kp pk x y) ls s'"
    and "overflow_checks L \<or> length ls < 2 ^ 32"
  shows "distinct (map (\<lambda>env. (env_epoch env, env_nonce env)) (accepted ls))"
proof -
  have "no_epoch_wrap L (length ls) (crypto_session_new L kp pk x y)"
    "tracks_window (crypto_session_new L kp pk x y)"
    using assms(2) by (simp_all add: no_epoch_wrap_def tracks_window_def crypto_session_new_def)
  from session_run_accepted [OF assms(1) this] show ?thesis
    by (simp add: envelope_key_def [abs_def])
qed

theorem replay_never_accepted_witness:
  "session_run toy_crates session_b [Accepted env0 [1, 2, 3], Silent] (noted env0 session_b) \<and>
   distinct (map (\<lambda>env. (env_epoch env, env_nonce env)) (accepted [Accepted env0 [1, 2, 3], Silent]))"
  using session_b_run replay_never_accepted [OF session_b_run [unfolded session_b_def]] by simp

text \<open>
  C6: Outbound nonces never repeat. In every run of a session the envelopes it emits carry pairwise
  different nonces, across rekeys and failed operations; the counter stops with an error instead of
  wrapping around.
\<close>

theorem nonces_never_reused:
  assumes "session_run L s ls s'"
  shows "distinct (map env_nonce (emitted ls))"
  by (rule session_run_emitted_distinct [OF assms])

theorem nonces_never_reused_witness:
  "\<exists>env1 s'. session_run toy_crates session_a [Emitted env0 [1, 2, 3], Emitted env1 []] s' \<and>
     distinct (map env_nonce (emitted [Emitted env0 [1, 2, 3], Emitted env1 []]))"
proof -
  obtain env1 s' where e: "encrypt toy_crates mid0 [] session_a1 = (Ok env1, s')"
    using encrypt_succeeds [OF toy_crypto_laws, of session_a1 "[]" mid0]
    by (auto simp: aead_max_len_def session_a1_eq)
  have "session_run toy_crates session_a [Emitted env0 [1, 2, 3], Emitted env1 []] s'"
    by (rule session_run.advance [OF session_step.emit [OF env0_sent]])
      (rule session_run.advance [OF session_step.emit [OF e] session_run.finish])
  with nonces_never_reused [OF this] show ?thesis by blast
qed

text \<open>
  C28: The replay state stays small: a session that started fresh tracks at most the current and the
  previous epoch.
\<close>

theorem tracked_epochs_bounded:
  assumes "session_run L (crypto_session_new L kp pk x y) ls s'"
    and "overflow_checks L \<or> length ls < 2 ^ 32"
  shows "dom (inbound_nonces s') \<subseteq> {epoch s', epoch s' - 1} \<and> card (dom (inbound_nonces s')) \<le> 2"
proof -
  have "no_epoch_wrap L (length ls) (crypto_session_new L kp pk x y)"
    "tracks_window (crypto_session_new L kp pk x y)"
    using assms(2) by (simp_all add: no_epoch_wrap_def tracks_window_def crypto_session_new_def)
  from session_run_accepted [OF assms(1) this] have w: "tracks_window s'" by blast
  have "g = epoch s' \<or> g = epoch s' - 1" if "g \<in> dom (inbound_nonces s')" for g
  proof -
    have "unat g \<le> unat (epoch s')" "unat (epoch s') \<le> unat g + 1"
      using w that by (auto simp: tracks_window_def)
    then consider "unat (epoch s') = unat g" | "unat (epoch s') = unat g + 1" by linarith
    then show ?thesis
    proof cases
      case 1
      then show ?thesis by (simp add: word_unat_eq_iff)
    next
      case 2
      then have "of_nat (unat (epoch s')) = (of_nat (unat g + 1) :: u32)" by simp
      then show ?thesis by simp
    qed
  qed
  then have sub: "dom (inbound_nonces s') \<subseteq> {epoch s', epoch s' - 1}" by blast
  have "card {epoch s', epoch s' - 1} \<le> 2" by (simp add: card_insert_if)
  then show ?thesis using sub card_mono [OF _ sub] by (auto intro: le_trans)
qed

theorem tracked_epochs_bounded_witness:
  "session_run toy_crates session_b [Accepted env0 [1, 2, 3], Silent] (noted env0 session_b) \<and>
   dom (inbound_nonces (noted env0 session_b)) = {0} \<and>
   card (dom (inbound_nonces (noted env0 session_b))) \<le> 2"
  using session_b_run tracked_epochs_bounded [OF session_b_run [unfolded session_b_def]]
  by (simp add: session_b_def [symmetric] dom_inbound_noted toy_crates_def)

section \<open>Messages\<close>

text \<open>
  C7: The header of a message is authenticated. Under an AEAD whose ciphertexts open under their own
  key, nonce and associated data only, an envelope that carries the ciphertext of a sent envelope
  and is accepted by any session at all is that sent envelope: sender, recipient, message id, epoch
  and nonce included.
\<close>

theorem header_authenticated:
  assumes "aead_authentic L" and "json_aad_injective L"
    and "valid_client_id (local_id a)" and "valid_client_id (peer_id a)"
    and "encrypt L mid pt a = (Ok env, a')"
    and "wf_envelope env'" and "env_ciphertext env' = env_ciphertext env"
    and "decrypt L env' b = (Ok pt', b')"
  shows "env' = env"
  by (rule accepted_header_genuine(1) [OF assms(1-5) _ _ assms(7,8)])
    (use assms(6) in \<open>simp_all add: wf_envelope_def\<close>)

theorem header_authenticated_witness:
  "decrypt toy_crates env0 session_b = (Ok [1, 2, 3], noted env0 session_b) \<and>
   \<not> (\<exists>pt s. decrypt toy_crates (env0\<lparr>env_message_id := MessageId 7\<rparr>) session_b = (Ok pt, s))"
proof -
  have "wf_envelope (env0\<lparr>env_message_id := MessageId 7\<rparr>)" using env0_wf by (simp add: wf_envelope_def)
  moreover have "env0\<lparr>env_message_id := MessageId 7\<rparr> \<noteq> env0"
  proof
    assume "env0\<lparr>env_message_id := MessageId 7\<rparr> = env0"
    then have "env_message_id (env0\<lparr>env_message_id := MessageId 7\<rparr>) = env_message_id env0" by (rule arg_cong)
    then show False by (simp add: mid0_def)
  qed
  ultimately show ?thesis
    using env0_received
      header_authenticated [OF toy_aead_authentic toy_json_aad_injective _ _ env0_sent,
        of "env0\<lparr>env_message_id := MessageId 7\<rparr>" session_b]
    by auto
qed

text \<open>
  C13: Messages may arrive in any order. A batch of messages encrypted by one session decrypts to
  its plaintexts at the paired session, in every order of arrival.
\<close>

theorem messages_in_any_order:
  assumes "aead_correct L" and "paired a b" and "synced a b" and "epoch b \<noteq> - 1"
    and enc: "encrypt_all L ms a = (Ok xs, a')" and perm: "mset ys = mset xs"
  shows "\<exists>b'. decrypt_all L (map fst ys) b = (Ok (map snd ys), b')"
proof (rule decrypt_all_opens)
  note all = encrypt_all_opens [OF assms(1,2,4) enc]
  have set: "set ys = set xs" using perm by (rule mset_eq_setD)
  show "distinct (map (\<lambda>(env, pt). env_nonce env) ys)"
    using all perm by (metis mset_eq_imp_distinct_iff mset_map)
  show "\<forall>(env, pt) \<in> set ys. opens L b env pt \<and> env_nonce env \<notin> tracked b (env_epoch env)"
    using all synced_fresh [OF assms(3)] unfolding set by fastforce
qed

theorem messages_in_any_order_witness:
  "\<exists>xs a' b'. encrypt_all toy_crates [(mid0, [1]), (mid0, [2])] session_a = (Ok xs, a') \<and>
     length xs = 2 \<and> decrypt_all toy_crates (map fst (rev xs)) session_b = (Ok (map snd (rev xs)), b')"
proof -
  obtain e1 s1 where 1: "encrypt toy_crates mid0 [1] session_a = (Ok e1, s1)"
    using encrypt_succeeds [OF toy_crypto_laws, of session_a "[1]" mid0] by (auto simp: aead_max_len_def)
  obtain e2 s2 where 2: "encrypt toy_crates mid0 [2] s1 = (Ok e2, s2)"
    using encrypt_succeeds [OF toy_crypto_laws, of s1 "[2]" mid0] encrypt_Ok_state [OF 1]
    by (auto simp: aead_max_len_def)
  have enc: "encrypt_all toy_crates [(mid0, [1]), (mid0, [2])] session_a = (Ok [(e1, [1]), (e2, [2])], s2)"
    by (simp add: 1 2)
  have "epoch session_b \<noteq> - 1" by simp
  with messages_in_any_order [OF toy_aead_correct sessions_paired _ enc, of "rev [(e1, [1]), (e2, [2])]"]
  obtain b' where "decrypt_all toy_crates (map fst (rev [(e1, [1]), (e2, [2])])) session_b =
      (Ok (map snd (rev [(e1, [1]), (e2, [2])])), b')"
    by fastforce
  with enc show ?thesis by (intro exI [of _ "[(e1, [1]), (e2, [2])]"]) auto
qed

text \<open>
  C31: The nonce counter is used to its end and not beyond. At the largest counter value encryption
  fails with \<open>NonceExhausted\<close> and changes nothing; below it a successful encryption uses the next
  number, in the last eight of the 24 bytes of the nonce.
\<close>

theorem nonce_counter_exhausts:
  assumes "cipher_for L (epoch s) s = Ok k"
  shows "(next_outbound_nonce s = - 1 \<longrightarrow> encrypt L mid pt s = (Err NonceExhausted, s)) \<and>
    (\<forall>env s'. encrypt L mid pt s = (Ok env, s') \<longrightarrow>
       unat (next_outbound_nonce s') = unat (next_outbound_nonce s) + 1 \<and>
       nonce_as_array (env_nonce env) = outbound_nonce_prefix s @ be_bytes 8 (next_outbound_nonce s'))"
proof -
  have "encrypt L mid pt s = (Err NonceExhausted, s)" if "next_outbound_nonce s = - 1"
  proof -
    have "next_nonce s = (Err NonceExhausted, s)" using that by (simp add: next_nonce_Err_iff)
    then show ?thesis by (simp add: encrypt_def assms)
  qed
  moreover have "unat (next_outbound_nonce s') = unat (next_outbound_nonce s) + 1 \<and>
      nonce_as_array (env_nonce env) = outbound_nonce_prefix s @ be_bytes 8 (next_outbound_nonce s')"
    if "encrypt L mid pt s = (Ok env, s')" for env s'
    using encrypt_nonce [OF that] by (simp add: nonce_number_def)
  ultimately show ?thesis by blast
qed

theorem nonce_counter_exhausts_witness:
  "encrypt toy_crates mid0 [1] (session_a\<lparr>next_outbound_nonce := - 1\<rparr>) =
     (Err NonceExhausted, session_a\<lparr>next_outbound_nonce := - 1\<rparr>)"
proof -
  have "\<exists>k. cipher_for toy_crates (epoch (session_a\<lparr>next_outbound_nonce := - 1\<rparr>))
      (session_a\<lparr>next_outbound_nonce := - 1\<rparr>) = Ok k"
    by (simp add: cipher_for_def toy_crates_def)
  then show ?thesis using nonce_counter_exhausts [of toy_crates "session_a\<lparr>next_outbound_nonce := - 1\<rparr>"] by auto
qed

section \<open>Decisions and failures\<close>

text \<open>
  The decision \<open>decrypt\<close> is meant to make, without early returns and machine arithmetic: the tests
  in their order, the window of epochs over the natural numbers, and the set of accepted nonces.
\<close>

definition decrypt_reference :: "crates \<Rightarrow> encrypted_envelope \<Rightarrow> crypto_session \<Rightarrow> (bytes, crypto_error) result"
where
  "decrypt_reference L env s =
     (if env_sender env \<noteq> peer_id s \<or> env_recipient env \<noteq> local_id s then Err UnexpectedPeer
      else if overflow_checks L \<and> 0 < unat (epoch s) \<and> unat (env_epoch env) = 2 ^ 32 - 1 then Panic
      else if unat (env_epoch env) \<noteq> unat (epoch s) \<and> unat (env_epoch env) + 1 \<noteq> unat (epoch s)
        then Err UnknownEpoch
      else case cipher_for L (env_epoch env) s of
          Panic \<Rightarrow> Panic | Err e \<Rightarrow> Err e
        | Ok cipher \<Rightarrow>
        case associated_data_for L (env_sender env) (env_recipient env) (env_message_id env)
            (env_epoch env) of
          Panic \<Rightarrow> Panic | Err e \<Rightarrow> Err e
        | Ok aad \<Rightarrow>
        case aead_decrypt L cipher (nonce_as_array (env_nonce env)) aad
            (ciphertext_as_bytes (env_ciphertext env)) of
          None \<Rightarrow> Err AuthenticationFailed
        | Some pt \<Rightarrow> if env_nonce env \<in> tracked s (env_epoch env) then Err DuplicateNonce else Ok pt)"

lemma decrypt_window_steps:
  assumes "env_sender env = peer_id s" and "env_recipient env = local_id s"
    and "\<not> epoch_panics L (env_epoch env) s" and "in_window (env_epoch env) s"
  shows "decrypt L env s = (case cipher_for L (env_epoch env) s of
        Panic \<Rightarrow> (Panic, s) | Err e \<Rightarrow> (Err e, s)
      | Ok cipher \<Rightarrow> (case associated_data_for L (env_sender env) (env_recipient env) (env_message_id env)
          (env_epoch env) of
          Panic \<Rightarrow> (Panic, s) | Err e \<Rightarrow> (Err e, s)
        | Ok aad \<Rightarrow> (case aead_decrypt L cipher (nonce_as_array (env_nonce env)) aad
            (ciphertext_as_bytes (env_ciphertext env)) of
            None \<Rightarrow> (Err AuthenticationFailed, s)
          | Some pt \<Rightarrow> if env_nonce env \<in> tracked s (env_epoch env) then (Err DuplicateNonce, s)
              else (Ok pt, noted env s))))"
proof -
  obtain b where b: "is_previous_epoch L (env_epoch env) s = Some b"
    using assms(3) is_previous_epoch_None_iff by (cases "is_previous_epoch L (env_epoch env) s") auto
  have go: "\<not> (env_epoch env \<noteq> epoch s \<and> \<not> b)"
    using assms(4) is_previous_epoch_Some [OF b] by (simp add: in_window_def)
  have mark: "mark_inbound env s = (if env_nonce env \<in> tracked s (env_epoch env)
      then (Err DuplicateNonce, s) else (Ok (), noted env s))"
    by (simp add: mark_inbound_Ok_iff mark_inbound_Err_iff)
  have eq: "decrypt L env s =
      and_then (cipher_for L (env_epoch env) s, s) (\<lambda>cipher self.
      and_then (associated_data_for L (env_sender env) (env_recipient env) (env_message_id env)
        (env_epoch env), self) (\<lambda>aad self.
      and_then (ok_or (aead_decrypt L cipher (nonce_as_array (env_nonce env)) aad
        (ciphertext_as_bytes (env_ciphertext env))) AuthenticationFailed, self) (\<lambda>plaintext self.
      and_then (mark_inbound env self) (\<lambda>_ self. (Ok plaintext, self)))))"
    unfolding decrypt_def b using assms(1,2) go by (simp only: option.case if_False simp_thms not_not)
  show ?thesis
    unfolding eq and_then_def by (simp add: mark split: result.split option.split)
qed

text \<open>
  C27: Decryption agrees with the reference decision on every envelope and every session, and it
  changes the session exactly when it succeeds, by noting the nonce under the epoch of the envelope.
\<close>

theorem decrypt_matches_reference:
  "decrypt L env s =
     (decrypt_reference L env s, if is_ok (decrypt_reference L env s) then noted env s else s)"
proof -
  have p: "overflow_checks L \<and> 0 < unat (epoch s) \<and> unat (env_epoch env) = 2 ^ 32 - 1 \<longleftrightarrow>
      epoch_panics L (env_epoch env) s"
    by (simp add: epoch_panics_def word_less_nat_alt word_unat_eq_iff unsigned_minus_1_eq_mask mask_eq_exp_minus_1)
  have w: "unat (env_epoch env) \<noteq> unat (epoch s) \<and> unat (env_epoch env) + 1 \<noteq> unat (epoch s) \<longleftrightarrow>
      \<not> in_window (env_epoch env) s"
    by (simp add: in_window_def word_unat_eq_iff)
  note ref = decrypt_reference_def [of L env s, unfolded p w]
  consider (peer) "env_sender env \<noteq> peer_id s \<or> env_recipient env \<noteq> local_id s"
    | (panic) "env_sender env = peer_id s" "env_recipient env = local_id s" "epoch_panics L (env_epoch env) s"
    | (unknown) "env_sender env = peer_id s" "env_recipient env = local_id s"
        "\<not> epoch_panics L (env_epoch env) s" "\<not> in_window (env_epoch env) s"
    | (window) "env_sender env = peer_id s" "env_recipient env = local_id s"
        "\<not> epoch_panics L (env_epoch env) s" "in_window (env_epoch env) s" by blast
  then show ?thesis
  proof cases
    case peer
    then show ?thesis by (simp add: ref decrypt_UnexpectedPeer)
  next
    case panic
    then have "is_previous_epoch L (env_epoch env) s = None" by (simp only: is_previous_epoch_None_iff)
    with panic show ?thesis by (simp add: ref decrypt_def)
  next
    case unknown
    then show ?thesis by (simp add: ref decrypt_UnknownEpoch)
  next
    case window
    note steps = decrypt_window_steps [OF window]
    show ?thesis using window steps by (simp add: ref split: result.split option.split)
  qed
qed

text \<open>
  C26: Decryption panics in one case only, and that case is reachable by the peer: in a build with
  overflow checks, a session that has left epoch zero panics on an envelope of its peer that claims
  the largest epoch, whatever its ciphertext is.
\<close>

theorem forged_epoch_panics:
  "fst (decrypt L env s) = Panic \<longleftrightarrow>
     env_sender env = peer_id s \<and> env_recipient env = local_id s \<and>
     overflow_checks L \<and> 0 < epoch s \<and> env_epoch env = - 1"
  by (simp add: decrypt_Panic_iff epoch_panics_def)

text \<open>
  C20: A message in flight across a rekey is lost. A session that has a next master secret staged commits
  it. If the key derivation gives different keys for the old and the new secret and the AEAD is ideal, it
  then refuses an envelope its peer sealed before the switch, although the envelope's epoch is still the
  previous one, in the window the session accepts: the key of the old epoch is derived from the new secret.
\<close>

theorem in_flight_previous_epoch_lost:
  assumes "aead_authentic L" and "kdf_total L" and "aead_key_injective L"
    and "paired a b" and "epoch b \<noteq> - 1" and "encrypt L mid pt a = (Ok env, a')"
    and "staged_master b = Some nm" and "kdf_tells_apart L (master_secret b) nm"
    and "commit_staged_rekey L b = (Ok (), b')"
  shows "unat (env_epoch env) + 1 = unat (epoch b') \<and> decrypt L env b' = (Err AuthenticationFailed, b')"
proof -
  let ?b = "b\<lparr>staged_master := None\<rparr>"
  have b': "b' = rotated nm ?b"
    using assms(7,9) by (auto simp: commit_staged_rekey_def apply_next_master_Ok_iff split: option.splits)
  have pair: "paired a ?b" "epoch ?b \<noteq> - 1" using assms(4,5) by (simp_all add: paired_def)
  obtain c where "cipher_for L (epoch a) a = Ok c" using assms(6) by (auto simp: encrypt_Ok_iff)
  then have c: "cipher_for L (epoch ?b) ?b = Ok c" using cipher_for_cong [of a ?b] pair(1) by (simp add: paired_def)
  obtain c' where c': "cipher_for L (epoch ?b) (rotated nm ?b) = Ok c'" "c' \<noteq> c"
    by (rule ciphers_differ [OF assms(2,3) _ _ c, of "rotated nm ?b"]) (use assms(8) in simp_all)
  have "env_epoch env = epoch b" using encrypt_header [OF assms(6)] assms(4) by (simp add: paired_def)
  then show ?thesis
    using in_flight_fails [OF assms(1) pair assms(6) c'(1) c c'(2)] assms(5) unat_add_one [of "epoch b"]
    by (simp add: b' add_overflows_one_iff)
qed

theorem in_flight_previous_epoch_lost_witness:
  "\<exists>b'. commit_staged_rekey toy_crates (session_b\<lparr>staged_master := Some (replicate 32 0)\<rparr>) = (Ok (), b') \<and>
     decrypt toy_crates env0 session_b = (Ok [1, 2, 3], noted env0 session_b) \<and>
     decrypt toy_crates env0 b' = (Err AuthenticationFailed, b')"
proof -
  let ?b = "session_b\<lparr>staged_master := Some (replicate 32 0)\<rparr>"
  let ?b' = "(rotated (replicate 32 0) ?b)\<lparr>staged_master := None\<rparr>"
  have "commit_staged_rekey toy_crates ?b = (Ok (), ?b')"
    by (rule rekey_commit_rotates) (simp_all add: rotation_panics_def)
  moreover have "paired session_a ?b" "epoch ?b \<noteq> - 1" using sessions_paired by (simp_all add: paired_def)
  moreover have "master_secret session_b = replicate 32 3"
    by (simp add: session_b_def crypto_session_new_def key_pair_generate_def key_pair_public_key_def
        toy_crates_def secret_a_def secret_b_def numeral_eq_Suc)
  then have "kdf_tells_apart toy_crates (master_secret ?b) (replicate 32 0)"
    by (simp add: kdf_tells_apart_def toy_crates_def sum_list_replicate)
  ultimately show ?thesis
    using in_flight_previous_epoch_lost [OF toy_aead_authentic toy_kdf_total toy_aead_key_injective _ _ env0_sent]
      env0_received by fastforce
qed

text \<open>
  C24: A pending handshake is never given up. However a run continues, a session that waits for the
  response to its rekey request either still waits and refuses every new handshake, its own and its
  peer's, or it has accepted a response with exactly that rekey id on the way.
\<close>

theorem pending_rekey_survives:
  assumes "session_run L s ls s'" and "pending_rekey s = Some p"
  shows "(pending_rekey s' = Some p \<and>
      (\<forall>rid sk. start_rekey L rid sk s' = (Err RekeyAlreadyInProgress, s')) \<and>
      (\<forall>sk rid pk. handle_session_payload L sk (RekeyRequest rid pk) s' = (Err RekeyAlreadyInProgress, s'))) \<or>
    (\<exists>ls1 ls2 t t' sk pk. ls = ls1 @ Silent # ls2 \<and> session_run L s ls1 t \<and> pending_rekey t = Some p \<and>
      handle_session_payload L sk (RekeyResponse (pr_rekey_id p) pk) t = (Ok None, t') \<and>
      pending_rekey t' = None \<and> session_run L t' ls2 s')"
  using assms
proof (induction rule: session_run.induct)
  case (finish s)
  then show ?case using pending_blocks [OF finish(1)] by simp
next
  case (advance s l s' ls s'')
  from step_keeps_pending [OF advance(1,4)] show ?case
  proof (elim disjE conjE exE)
    assume keep: "pending_rekey s' = Some p"
    from advance.IH [OF keep] show ?thesis
    proof (elim disjE exE conjE)
      fix ls1 ls2 t t' sk pk
      assume a: "ls = ls1 @ Silent # ls2" "session_run L s' ls1 t" "pending_rekey t = Some p"
        "handle_session_payload L sk (RekeyResponse (pr_rekey_id p) pk) t = (Ok None, t')"
        "pending_rekey t' = None" "session_run L t' ls2 s''"
      have "l # ls = (l # ls1) @ Silent # ls2" using a(1) by simp
      then show ?thesis using session_run.advance [OF advance(1) a(2)] a(3-6) by blast
    qed blast
  next
    fix sk pk
    assume h: "pending_rekey s' = None"
      "handle_session_payload L sk (RekeyResponse (pr_rekey_id p) pk) s = (Ok None, s')"
    have "l = Silent"
      using advance(1,4) h(1) by (cases l) (auto elim!: EmittedE AcceptedE simp: encrypt_Ok_iff decrypt_Ok_iff)
    then have "l # ls = [] @ Silent # ls" by simp
    then show ?thesis using h advance(2,4) session_run.finish [of L s] by blast
  qed
qed

theorem pending_rekey_survives_witness:
  "\<exists>p s. start_rekey toy_crates (RekeyId (replicate 16 9)) secret_a session_a = (Ok p, s) \<and>
     handle_session_payload toy_crates secret_b (RekeyResponse (RekeyId (replicate 16 8)) some_key) s =
       (Err UnknownRekeyId, s) \<and>
     handle_session_payload toy_crates secret_b (RekeyRequest (RekeyId (replicate 16 8)) some_key) s =
       (Err RekeyAlreadyInProgress, s)"
proof -
  define q where "q = \<lparr>pr_rekey_id = RekeyId (replicate 16 9), pr_ephemeral_secret = secret_a\<rparr>"
  let ?s = "session_a\<lparr>pending_rekey := Some q\<rparr>"
  have u: "handle_session_payload toy_crates secret_b (RekeyResponse (RekeyId (replicate 16 8)) some_key) ?s =
      (Err UnknownRekeyId, ?s)"
    by (rule handle_response_unknown) (simp add: q_def numeral_eq_Suc)
  have "session_run toy_crates ?s [] ?s" "pending_rekey ?s = Some q" by (simp_all add: session_run.finish)
  from pending_rekey_survives [OF this] u show ?thesis
    by (simp add: start_rekey_def q_def)
qed

section \<open>Key derivation\<close>

text \<open>
  C32: Keys are separated by conversation, epoch and master secret. Take two sessions, each opened by a pair
  of valid identities and led through any run, rekeys included. Asked for the key of an epoch each, the two
  give the same answer under every key derivation function exactly when the pairs of identities are the same,
  in either order, the epochs are equal and the master secrets are equal. So the two ends of one conversation
  agree, and a derivation function without collisions gives every other conversation, epoch and secret its
  own key.
\<close>

theorem key_derivation_separated:
  assumes "kdf_total L" and "aead_key_injective L"
    and "valid_client_id a" "valid_client_id b" "valid_client_id c" "valid_client_id d"
    and "session_run L (crypto_session_new L kp pk a b) ls s" and "session_run L (crypto_session_new L kp' pk' c d) ls' t"
  shows "(\<forall>kdf. cipher_for (L\<lparr>hkdf_sha256 := kdf\<rparr>) e s = cipher_for (L\<lparr>hkdf_sha256 := kdf\<rparr>) e' t) \<longleftrightarrow>
    {a, b} = {c, d} \<and> e = e' \<and> master_secret s = master_secret t"
proof -
  have info: "session_info_bytes s = session_info a b" "session_info_bytes t = session_info c d"
    using session_run_identity [OF assms(7)] session_run_identity [OF assms(8)]
    by (simp_all add: same_identity_def crypto_session_new_def)
  have "(\<forall>kdf. cipher_for (L\<lparr>hkdf_sha256 := kdf\<rparr>) e s = cipher_for (L\<lparr>hkdf_sha256 := kdf\<rparr>) e' t) \<longleftrightarrow>
      master_secret s = master_secret t \<and> session_info a b @ be_bytes 4 e = session_info c d @ be_bytes 4 e'"
    unfolding info [symmetric] by (rule cipher_input_eq [OF assms(1,2)])
  also have "\<dots> \<longleftrightarrow> {a, b} = {c, d} \<and> e = e' \<and> master_secret s = master_secret t"
    using kdf_info_inj [OF assms(3-6), of e e'] session_info_sym [of a b] by (auto simp: doubleton_eq_iff)
  finally show ?thesis .
qed

theorem key_derivation_separated_witness:
  "(\<forall>kdf. cipher_for (toy_crates\<lparr>hkdf_sha256 := kdf\<rparr>) 7 session_a = cipher_for (toy_crates\<lparr>hkdf_sha256 := kdf\<rparr>) 7 session_b) \<and>
   \<not> (\<forall>kdf. cipher_for (toy_crates\<lparr>hkdf_sha256 := kdf\<rparr>) 1 session_a = cipher_for (toy_crates\<lparr>hkdf_sha256 := kdf\<rparr>) 2 session_b)"
proof -
  have same: "master_secret session_a = master_secret session_b" using sessions_paired by (simp add: paired_def)
  note sep = key_derivation_separated [OF toy_kdf_total toy_aead_key_injective alice_bob(3,4,4,3)
      session_run.finish session_run.finish]
  show ?thesis using same unfolding session_a_def session_b_def sep by (simp add: insert_commute)
qed

end
