(* ===== verification/Properties_Client.thy ===== *)
theory Properties_Client
  imports Scenario
begin

text \<open>
  The properties of the client session and of the command line client.
\<close>

section \<open>Key exchange and pinning\<close>

text \<open>The key an action offers, if the client would accept it: from its peer, to itself, fitting the pin.\<close>

definition acceptable_key :: "crates \<Rightarrow> client_session \<Rightarrow> client_action \<Rightarrow> public_key_bytes option" where
  "acceptable_key L s a = (case a of
      ReceiveEvent rg (PeerKey f t pk) \<Rightarrow>
        if f = cs_peer_id s \<and> t = cs_local_id s \<and> pin_accepts L s pk then Some pk else None
    | _ \<Rightarrow> None)"

lemma handle_event_key:
  "cs_peer_public_key (snd (handle_event L rg e s)) =
     (if cs_peer_public_key s = None then acceptable_key L s (ReceiveEvent rg e) else cs_peer_public_key s)"
proof (cases e)
  case (PeerKey f t pk)
  then show ?thesis
    by (auto simp: handle_event_def acceptable_key_def pin_accepts_def Let_def split: option.split)
next
  case (EncryptedMessage env)
  then show ?thesis
    using handle_encrypted_message_frame [of s L rg env]
    by (simp add: handle_event_def acceptable_key_def client_frame_def)
qed (simp_all add: handle_event_def acceptable_key_def)

lemma client_act_key:
  "cs_peer_public_key (client_act L a s) =
     (if cs_peer_public_key s = None then acceptable_key L s a else cs_peer_public_key s)"
  using handle_event_key encrypt_line_frame [of s L] client_start_rekey_frame [of s L]
  by (cases a) (simp_all add: client_act_def acceptable_key_def client_frame_def)

lemma acceptable_key_act: "acceptable_key L (client_act L a s) = acceptable_key L s"
  by (simp add: fun_eq_iff acceptable_key_def pin_accepts_def client_act_keeps
      split: client_action.split wire_event.split)

text \<open>
  C29: The first acceptable key wins and is never replaced. After any sequence of inbound events, typed
  lines and rekey commands, the client's peer key is the one it had; if it had none, it is the key of
  the first event that came from its peer, was addressed to it and fits the pin, and there is none
  otherwise.
\<close>

theorem first_acceptable_key_wins:
  "cs_peer_public_key (fold (client_act L) as s) =
     (case (cs_peer_public_key s, List.map_filter (acceptable_key L s) as) of
        (Some pk, _) \<Rightarrow> Some pk
      | (None, pk # _) \<Rightarrow> Some pk
      | (None, []) \<Rightarrow> None)"
proof (induction as arbitrary: s)
  case Nil
  then show ?case by (simp add: map_filter_simps split: option.split)
next
  case (Cons a as)
  show ?case
    unfolding fold_Cons comp_def Cons.IH acceptable_key_act client_act_key
    by (auto simp: map_filter_simps split: option.split list.split)
qed

section \<open>Whole runs of the client\<close>

text \<open>
  C11: A pinned client never trusts another key. When the client is started with a fingerprint
  argument and whatever happens afterwards, the argument is a well-formed fingerprint, the only key
  the client ever holds has that fingerprint, it never reports a key as unverified and reports only
  the pinned fingerprint as verified, and no chat line is shown before that key was accepted.
\<close>

theorem pinned_client:
  assumes "lowers L" and "cli_run L reachable net secret inputs args = (r, Some c')"
    and "ar_verify_fingerprint args = Some raw"
  shows "\<exists>n. normalize_fingerprint L raw = Some n \<and>
    (\<forall>pk. cs_peer_public_key (cl_session c') = Some pk \<longrightarrow> fingerprint L pk = n) \<and>
    (\<forall>fp. FingerprintUnverified fp \<notin> set (cl_output c')) \<and>
    (\<forall>fp. FingerprintVerified fp \<in> set (cl_output c') \<longrightarrow> fp = n) \<and>
    (\<forall>line. ChatLine line \<in> set (cl_output c') \<longrightarrow> cs_peer_public_key (cl_session c') \<noteq> None)"
proof -
  obtain c where run: "run_start L reachable net secret args = Ok c" "cli_loop L net inputs c = (r, c')"
    by (rule cli_run_SomeE [OF assms(2)])
  note start = run_start_inv [OF assms(1) run(1)]
  obtain n where n: "normalize_fingerprint L raw = Some n" "cl_pinned c = Some n"
    using start(2,3) assms(3) by auto
  have inv: "cli_inv L c'" using cli_loop_inv [OF start(1), of net inputs] run(2) by simp
  have pin: "cl_pinned c' = Some n" using cli_loop_next [of c L net inputs] run(2) n(2) by (simp add: cli_next_def)
  have honest: "honest_output c' x" if "x \<in> set (cl_output c')" for x
    using inv that by (simp add: cli_inv_def list_all_iff)
  have "fingerprint L pk = n" if "cs_peer_public_key (cl_session c') = Some pk" for pk
    using inv pin that by (simp add: cli_inv_def client_inv_def)
  moreover have "cs_peer_public_key (cl_session c') \<noteq> None" if "ChatLine line \<in> set (cl_output c')" for line
    using honest [OF that] inv by (auto simp: honest_output_def is_ready_def cli_inv_def client_inv_def)
  moreover have "fp = n" if "FingerprintVerified fp \<in> set (cl_output c')" for fp
    using honest [OF that] pin by (simp add: honest_output_def)
  moreover have "FingerprintUnverified fp \<notin> set (cl_output c')" for fp
    using honest [of "FingerprintUnverified fp"] pin by (auto simp: honest_output_def)
  ultimately show ?thesis using n(1) by blast
qed

definition args0 :: args where
  "args0 = \<lparr>ar_server = str ''ws://127.0.0.1:3000/ws'', ar_id = str ''alice'', ar_peer = str ''bob'',
     ar_verify_fingerprint = Some (fingerprint toy_crates (PublicKeyBytes secret_b)), ar_rekey_after = None\<rparr>"

lemma args0_starts: "\<exists>c. run_start toy_crates (\<lambda>_. True) (\<lambda>_. True) secret_a args0 = Ok c"
proof -
  have ids: "client_id_parse (str ''alice'') = Ok alice" "client_id_parse (str ''bob'') = Ok bob"
    using alice_bob(3,4) by (simp_all add: valid_client_id_def alice_def bob_def)
  have "normalize_fingerprint toy_crates (fingerprint toy_crates (PublicKeyBytes secret_b)) =
      Some (fingerprint toy_crates (PublicKeyBytes secret_b))"
    using normalize_hex [of "[]" "[]"] fingerprint_shape [OF toy_digest_lengths] by simp
  moreover have "json_of_wire toy_crates e = Some (map of_nat (toy_wire_toks e))" for e
    by (simp add: toy_crates_def)
  ultimately show ?thesis
    by (simp add: run_start_def args0_def ids send_event_def Let_def)
qed

lemma args0_client:
  assumes "run_start toy_crates (\<lambda>_. True) (\<lambda>_. True) secret_a args0 = Ok c"
  shows "cs_local_id (cl_session c) = alice" "cs_peer_id (cl_session c) = bob" "cs_peer_public_key (cl_session c) = None"
    "cs_crypto_session (cl_session c) = None"
    "cs_expected_peer_fingerprint (cl_session c) = Some (fingerprint toy_crates (PublicKeyBytes secret_b))"
proof -
  have ids: "client_id_parse (str ''alice'') = Ok alice" "client_id_parse (str ''bob'') = Ok bob"
    using alice_bob(3,4) by (simp_all add: valid_client_id_def alice_def bob_def)
  have norm: "normalize_fingerprint toy_crates (fingerprint toy_crates (PublicKeyBytes secret_b)) =
      Some (fingerprint toy_crates (PublicKeyBytes secret_b))"
    using normalize_hex [of "[]" "[]"] fingerprint_shape [OF toy_digest_lengths] by simp
  have json: "json_of_wire toy_crates e = Some (map of_nat (toy_wire_toks e))" for e by (simp add: toy_crates_def)
  show "cs_local_id (cl_session c) = alice" "cs_peer_id (cl_session c) = bob" "cs_peer_public_key (cl_session c) = None"
    "cs_crypto_session (cl_session c) = None"
    "cs_expected_peer_fingerprint (cl_session c) = Some (fingerprint toy_crates (PublicKeyBytes secret_b))"
    using assms
    by (auto simp: run_start_def args0_def ids norm json normalized_pin [OF toy_lowers norm] send_event_def Let_def
        client_session_new_def)
qed

text \<open>Bob's key arrives, fits the pin and is accepted.\<close>

theorem pinned_client_witness:
  "\<exists>t r c'. wire_of_json toy_crates t = Some (PeerKey bob alice (PublicKeyBytes secret_b)) \<and>
     cli_run toy_crates (\<lambda>_. True) (\<lambda>_. True) secret_a [(rng0, Socket (Some (Some (WsText t))))] args0 = (r, Some c') \<and>
     cs_peer_public_key (cl_session c') = Some (PublicKeyBytes secret_b) \<and>
     (\<forall>pk. cs_peer_public_key (cl_session c') = Some pk \<longrightarrow>
        fingerprint toy_crates pk = fingerprint toy_crates (PublicKeyBytes secret_b))"
proof -
  let ?k = "PublicKeyBytes secret_b"
  have "wf_wire_event (PeerKey bob alice ?k)" by (simp add: wf_public_key_def secret_b_def)
  then obtain t where t: "wire_of_json toy_crates t = Some (PeerKey bob alice ?k)"
    using toy_json_wire_roundtrip unfolding json_wire_roundtrip_def by blast
  obtain c where c: "run_start toy_crates (\<lambda>_. True) (\<lambda>_. True) secret_a args0 = Ok c" using args0_starts by blast
  obtain r c' where run: "cli_run toy_crates (\<lambda>_. True) (\<lambda>_. True) secret_a [(rng0, Socket (Some (Some (WsText t))))] args0 = (r, Some c')"
    using c by (force simp: cli_run_def split: prod.split)
  note f = args0_client [OF c]
  have h: "handle_event toy_crates rng0 (PeerKey bob alice ?k) (cl_session c) = (Ok inbound_outcome_default,
      (cl_session c)\<lparr>cs_peer_public_key := Some ?k, cs_crypto_session :=
        Some (crypto_session_new toy_crates (cs_keypair (cl_session c)) ?k alice bob)\<rparr>)"
    using peer_key_opens [of "cl_session c" toy_crates ?k rng0] f by (simp add: pin_accepts_def)
  have json: "json_of_wire toy_crates e = Some (map of_nat (toy_wire_toks e))" for e by (simp add: toy_crates_def)
  have key: "cs_peer_public_key (cl_session c') = Some ?k"
    using run c t h f
    by (auto simp: cli_run_def cli_step_def on_text_def with_session_def announce_def inbound_outcome_default_def
        control_status_def needs_peer_key_reply_def send_event_def show_fingerprint_def say_def is_ready_def json
        split: option.splits prod.splits result.splits flow.splits if_splits)
  have norm: "normalize_fingerprint toy_crates (fingerprint toy_crates ?k) = Some (fingerprint toy_crates ?k)"
    using normalize_hex [of "[]" "[]"] fingerprint_shape [OF toy_digest_lengths] by simp
  have raw: "ar_verify_fingerprint args0 = Some (fingerprint toy_crates ?k)" by (simp add: args0_def)
  from pinned_client [OF toy_lowers run raw] norm run key t show ?thesis by auto
qed

text \<open>
  C12: The client speaks only for itself. Everything it ever writes to the socket, from start-up
  through any sequence of timer ticks, typed lines and inbound messages, is the encoding of its own
  hello, of its own key addressed to the peer it was started for, or of an envelope from its own id to
  that peer.
\<close>

theorem client_sends_only_own_events:
  assumes "lowers L" and "cli_run L reachable net secret inputs args = (r, Some c')"
    and "x \<in> set (cl_sent c')"
  shows "\<exists>e. json_of_wire L e = Some x \<and>
    (e = ClientHello (ClientId (ar_id args)) (PublicKeyBytes (x25519_public L secret)) \<or>
     e = PeerKey (ClientId (ar_id args)) (ClientId (ar_peer args)) (PublicKeyBytes (x25519_public L secret)) \<or>
     (\<exists>env. e = EncryptedMessage env \<and> env_sender env = ClientId (ar_id args) \<and>
        env_recipient env = ClientId (ar_peer args)))"
proof -
  obtain c where run: "run_start L reachable net secret args = Ok c" "cli_loop L net inputs c = (r, c')"
    by (rule cli_run_SomeE [OF assms(2)])
  have inv: "cli_inv L c'" using cli_loop_inv [OF run_start_inv(1) [OF assms(1) run(1)], of net inputs] run(2) by simp
  note ids = run_start_ids [OF run(1)]
  have next_c: "cli_next c c'" using cli_loop_next [of c L net inputs] run(2) by simp
  have id: "cs_local_id (cl_session c') = ClientId (ar_id args)" "cs_peer_id (cl_session c') = ClientId (ar_peer args)"
    "cs_keypair (cl_session c') = key_pair_generate L secret"
    using next_c ids
    by (cases "cs_local_id (cl_session c)"; cases "cs_peer_id (cl_session c)"; simp add: cli_next_def)+
  obtain e where "json_of_wire L e = Some x" "own_event (cl_session c') e"
    using inv assms(3) by (auto simp: cli_inv_def)
  then show ?thesis
    by (cases e) (auto simp: own_event_def client_hello_def peer_key_event_def id key_pair_generate_def
        key_pair_public_key_def)
qed

theorem client_sends_only_own_events_witness:
  "\<exists>r c' x e. cli_run toy_crates (\<lambda>_. True) (\<lambda>_. True) secret_a [(rng0, Tick)] args0 = (r, Some c') \<and>
     x \<in> set (cl_sent c') \<and>
     json_of_wire toy_crates e = Some x \<and>
     (e = ClientHello (ClientId (ar_id args0)) (PublicKeyBytes (x25519_public toy_crates secret_a)) \<or>
      e = PeerKey (ClientId (ar_id args0)) (ClientId (ar_peer args0)) (PublicKeyBytes (x25519_public toy_crates secret_a)) \<or>
      (\<exists>env. e = EncryptedMessage env \<and> env_sender env = ClientId (ar_id args0) \<and>
         env_recipient env = ClientId (ar_peer args0)))"
proof -
  obtain c where c: "run_start toy_crates (\<lambda>_. True) (\<lambda>_. True) secret_a args0 = Ok c"
    using args0_starts by blast
  obtain r c' where l: "cli_loop toy_crates (\<lambda>_. True) [(rng0, Tick)] c = (r, c')" by fastforce
  have json: "\<exists>t. json_of_wire toy_crates e = Some t" for e by (simp add: toy_crates_def)
  have "cl_sent c \<noteq> []"
    using c by (auto simp: run_start_def Let_def send_event_def and_then_eq_Ok_iff
        split: option.splits if_splits prod.splits result.splits)
  moreover have "set (cl_sent c) \<subseteq> set (cl_sent c')"
    using l json by (auto simp: cli_step_def send_event_def split: option.splits if_splits)
  ultimately obtain x where "x \<in> set (cl_sent c')" by (cases "cl_sent c") auto
  moreover have run: "cli_run toy_crates (\<lambda>_. True) (\<lambda>_. True) secret_a [(rng0, Tick)] args0 = (r, Some c')"
    using c l by (simp add: cli_run_def)
  ultimately show ?thesis using client_sends_only_own_events [OF toy_lowers run] by blast
qed

text \<open>What can make the session panic: epoch arithmetic in a build with overflow checks, nothing else.\<close>

lemma decrypt_payload_no_panic:
  assumes "\<not> epoch_panics L (env_epoch env) x"
  shows "fst (decrypt_payload L env x) \<noteq> Panic"
  using assms by (simp add: decrypt_payload_def fst_and_then_Panic_iff decrypt_Panic_iff)

lemma handle_session_payload_no_panic:
  assumes "\<not> rotation_panics L x"
  shows "fst (handle_session_payload L sk p x) \<noteq> Panic"
  using assms apply_next_master_Panic_iff
  by (cases p)
    (auto simp: handle_session_payload_def fst_and_then_Panic_iff compute_next_master_def Let_def
      split: option.split)

lemma commit_no_panic:
  assumes "\<not> rotation_panics L x"
  shows "fst (commit_staged_rekey L x) \<noteq> Panic"
  using assms by (simp add: commit_staged_rekey_def apply_next_master_Panic_iff split: option.split)

lemma on_crypto_no_panic:
  assumes "\<And>x. cs_crypto_session s = Some x \<Longrightarrow> fst (f x) \<noteq> Panic"
  shows "fst (on_crypto f s) \<noteq> Panic"
  using assms by (auto simp: on_crypto_def split: option.split prod.split)

lemma on_crypto_Ok:
  assumes "on_crypto f s = (Ok r, t)"
  obtains x y where "cs_crypto_session s = Some x" and "f x = (Ok r, y)" and "cs_crypto_session t = Some y"
  using assms by (auto simp: on_crypto_def split: option.splits prod.splits)

lemma encrypt_payload_quiet:
  "fst (encrypt_payload L mid p x) \<noteq> Panic"
  "encrypt_payload L mid p x = (Ok env, y) \<Longrightarrow> rotation_panics L y = rotation_panics L x"
proof -
  show "fst (encrypt_payload L mid p x) \<noteq> Panic"
    using encrypt_no_panic by (auto simp: encrypt_payload_def fst_and_then_Panic_iff)
  assume "encrypt_payload L mid p x = (Ok env, y)"
  then have "y = x\<lparr>next_outbound_nonce := next_outbound_nonce y\<rparr>" by (rule encrypt_payload_Ok(2))
  then show "rotation_panics L y = rotation_panics L x" by (metis rotation_panics_upd(3))
qed

lemma answer_no_panic:
  assumes "\<And>x. cs_crypto_session s = Some x \<Longrightarrow> \<not> rotation_panics L x"
  shows "fst (and_then (on_crypto (handle_session_payload L sk (RekeyRequest rid pk)) s) (\<lambda>reply s.
    case reply of None \<Rightarrow> (Err UnexpectedSessionPayload, s)
    | Some reply \<Rightarrow> and_then (on_crypto (encrypt_payload L mid reply) s) (\<lambda>env s.
        and_then (on_crypto (commit_staged_rekey L) s) (\<lambda>_ s. (Ok (out env), s))))) \<noteq> Panic"
proof -
  have 1: "fst (on_crypto (handle_session_payload L sk (RekeyRequest rid pk)) s) \<noteq> Panic"
    using assms by (intro on_crypto_no_panic handle_session_payload_no_panic)
  have 2: "fst (on_crypto (encrypt_payload L mid q) t) \<noteq> Panic" for q t
    by (intro on_crypto_no_panic encrypt_payload_quiet(1))
  have 3: "fst (on_crypto (commit_staged_rekey L) u) \<noteq> Panic"
    if h: "on_crypto (handle_session_payload L sk (RekeyRequest rid pk)) s = (Ok r, t)"
      and e: "on_crypto (encrypt_payload L mid q) t = (Ok env, u)" for r t q env u
  proof (rule on_crypto_no_panic, rule commit_no_panic)
    fix z
    assume z: "cs_crypto_session u = Some z"
    obtain x y where x: "cs_crypto_session s = Some x"
      "handle_session_payload L sk (RekeyRequest rid pk) x = (Ok r, y)" "cs_crypto_session t = Some y"
      by (rule on_crypto_Ok [OF h])
    then have "rotation_panics L y = rotation_panics L x"
      by (auto simp: handle_request_iff split: if_splits option.splits)
    then show "\<not> rotation_panics L z"
      using on_crypto_Ok [OF e] encrypt_payload_quiet(2) assms [OF x(1)] x(3) z by (metis option.inject)
  qed
  show ?thesis
    using 1 2 3 by (auto simp: fst_and_then_Panic_iff split: option.splits)
qed

lemma handle_encrypted_message_no_panic:
  assumes "\<And>x. overflow_checks L \<Longrightarrow> cs_crypto_session s = Some x \<Longrightarrow>
      env_epoch env \<noteq> - 1 \<and> \<not> rotation_panics L x"
  shows "fst (handle_encrypted_message L rg env s) \<noteq> Panic"
proof -
  have dec: "fst (on_crypto (decrypt_payload L env) s) \<noteq> Panic"
    using assms by (intro on_crypto_no_panic decrypt_payload_no_panic) (auto simp: epoch_panics_def)
  have quiet: "\<not> rotation_panics L y"
    if d: "on_crypto (decrypt_payload L env) s = (Ok p, t)" and y: "cs_crypto_session t = Some y" for p t y
  proof -
    obtain x where x: "cs_crypto_session s = Some x" "decrypt_payload L env x = (Ok p, y)"
      using on_crypto_Ok [OF d] y by (metis option.inject)
    then have "y = noted env x"
      using decrypt_Ok_opens by (auto simp: decrypt_payload_def and_then_eq_Ok_iff)
    then show ?thesis
      using assms [OF _ x(1)] rotation_panics_noted [of env L x] by (auto simp: rotation_panics_def)
  qed
  have show_epoch: "fst (on_crypto (\<lambda>z. (Ok (f z), z)) t) \<noteq> Panic"
    for f :: "crypto_session \<Rightarrow> inbound_outcome" and t
    by (rule on_crypto_no_panic) simp
  show ?thesis
    unfolding handle_encrypted_message_def fst_and_then_Panic_iff [of "on_crypto (decrypt_payload L env) s"]
  proof (intro notI, elim disjE exE conjE)
    fix p t
    assume d: "on_crypto (decrypt_payload L env) s = (Ok p, t)"
    have "fst (on_crypto (handle_session_payload L (rg_secret rg) p) t) \<noteq> Panic"
      using quiet [OF d] by (intro on_crypto_no_panic handle_session_payload_no_panic)
    moreover note answer_no_panic [of t L "rg_secret rg" _ _ "rg_message_id rg"
      "\<lambda>env. \<lparr>io_event = None, io_reply_event = Some (EncryptedMessage env)\<rparr>", OF quiet [OF d]]
    moreover assume "fst (case p of
         Chat text_line \<Rightarrow>
           (Ok \<lparr>io_event = Some (InboundChat text_line), io_reply_event = None\<rparr>, t)
       | RekeyRequest rekey_id ephemeral_public_key \<Rightarrow>
           and_then (on_crypto (handle_session_payload L (rg_secret rg)
                       (RekeyRequest rekey_id ephemeral_public_key)) t) (\<lambda>reply self.
             case reply of
               None \<Rightarrow> (Err UnexpectedSessionPayload, self)
             | Some reply \<Rightarrow>
               and_then (on_crypto (encrypt_payload L (rg_message_id rg) reply) self)
                 (\<lambda>reply_envelope self.
               and_then (on_crypto (commit_staged_rekey L) self) (\<lambda>_ self.
                 (Ok \<lparr>io_event = None, io_reply_event = Some (EncryptedMessage reply_envelope)\<rparr>, self))))
       | RekeyResponse rekey_id ephemeral_public_key \<Rightarrow>
           and_then (on_crypto (handle_session_payload L (rg_secret rg)
                       (RekeyResponse rekey_id ephemeral_public_key)) t) (\<lambda>_ self.
             let self = self\<lparr>cs_outbound_since_rekey := 0\<rparr> in
             on_crypto (\<lambda>session.
               (Ok \<lparr>io_event = Some (RekeyCompleted (epoch session)), io_reply_event = None\<rparr>, session)) self)) = Panic"
    ultimately show False
      using show_epoch by (cases p) (auto simp: fst_and_then_Panic_iff [of "on_crypto f s" for f s] Let_def)
  qed (use dec in simp)
qed

lemma handle_event_no_panic:
  assumes "\<And>x env. overflow_checks L \<Longrightarrow> cs_crypto_session s = Some x \<Longrightarrow> e = EncryptedMessage env \<Longrightarrow>
      env_epoch env \<noteq> - 1 \<and> \<not> rotation_panics L x"
  shows "fst (handle_event L rg e s) \<noteq> Panic"
  using handle_encrypted_message_no_panic [of L s _ rg] assms
  by (auto simp: handle_event_def Let_def split: wire_event.splits option.splits)

text \<open>
  C39: No message of the network ends the client. As long as sends succeed, every decodable text,
  whatever event it holds and whatever the session thinks of it, lets the client go on. In a build with
  overflow checks this needs that an envelope does not claim the largest epoch and that the session has
  not reached it.
\<close>

theorem cli_survives_inbound:
  assumes "wire_of_json L payload = Some e" and "\<And>sent. net sent" and "\<And>e. json_of_wire L e \<noteq> None"
    and "\<And>x env. overflow_checks L \<Longrightarrow> cs_crypto_session (cl_session c) = Some x \<Longrightarrow>
      e = EncryptedMessage env \<Longrightarrow> env_epoch env \<noteq> - 1 \<and> epoch x \<noteq> - 1 \<and> inbound_nonces x (- 1) = None"
  shows "fst (cli_step L net rg (Socket (Some (Some (WsText payload)))) c) = Ok Continue"
proof -
  have "fst (handle_event L rg e (cl_session c)) \<noteq> Panic"
    by (rule handle_event_no_panic) (use assms(4) in \<open>auto simp: rotation_panics_def\<close>)
  from on_text_survives [OF assms(1-3) this] show ?thesis by (simp add: cli_step_def)
qed

definition cli_a :: cli where
  "cli_a = \<lparr>cl_session = client_a, cl_pinned = None, cl_sent = [], cl_output = []\<rparr>"

theorem cli_survives_inbound_witness:
  "\<exists>x. wire_of_json toy_crates x = Some (PeerKey bob alice some_key) \<and>
     fst (handle_event toy_crates rng0 (PeerKey bob alice some_key) client_a) = Err UnexpectedPeerKey \<and>
     fst (cli_step toy_crates (\<lambda>_. True) rng0 (Socket (Some (Some (WsText x)))) cli_a) = Ok Continue"
proof -
  have "wf_wire_event (PeerKey bob alice some_key)" by (simp add: some_key_def wf_public_key_def)
  then obtain x where x: "wire_of_json toy_crates x = Some (PeerKey bob alice some_key)"
    using toy_json_wire_roundtrip unfolding json_wire_roundtrip_def by blast
  have "cs_peer_public_key client_a = Some (PublicKeyBytes secret_b)"
    by (simp add: client_a_def client_session_new_def key_pair_generate_def key_pair_public_key_def toy_crates_def)
  moreover have "PublicKeyBytes secret_b \<noteq> some_key" by (simp add: secret_b_def some_key_def numeral_eq_Suc)
  ultimately have e: "fst (handle_event toy_crates rng0 (PeerKey bob alice some_key) client_a) = Err UnexpectedPeerKey"
    by (simp add: handle_event_def)
  have json: "json_of_wire toy_crates e \<noteq> None" for e by (simp add: toy_crates_def)
  have "fst (cli_step toy_crates (\<lambda>_. True) rng0 (Socket (Some (Some (WsText x)))) cli_a) = Ok Continue"
    by (rule cli_survives_inbound [OF x TrueI json]) simp
  with x e show ?thesis by blast
qed

text \<open>
  C40: A second \<open>/rekey\<close> command ends the client. While a handshake waits for its response, the command
  returns the error out of the event loop instead of reporting it and going on.
\<close>

theorem rekey_command_twice_exits:
  assumes "cs_crypto_session (cl_session c) = Some x" and "pending_rekey x = Some p"
  shows "cli_step L net rg (Line (Some (Some (str ''/rekey'')))) c =
    (Err (CliStartRekey (CryptoErr RekeyAlreadyInProgress)), c)"
  using rekey_twice_exits [OF assms] by (simp add: cli_step_def)

theorem rekey_command_twice_exits_witness:
  "\<exists>c. fst (cli_loop toy_crates (\<lambda>_. True) [(rng0, Line (Some (Some (str ''/rekey''))))] cli_a) = Ok Continue \<and>
     snd (cli_loop toy_crates (\<lambda>_. True) [(rng0, Line (Some (Some (str ''/rekey''))))] cli_a) = c \<and>
     cli_step toy_crates (\<lambda>_. True) rng0 (Line (Some (Some (str ''/rekey'')))) c =
       (Err (CliStartRekey (CryptoErr RekeyAlreadyInProgress)), c)"
proof -
  obtain env a1 where r: "start_rekey toy_crates (rg_rekey_id rng0) (rg_secret rng0) session_a =
      (Ok (RekeyRequest (rg_rekey_id rng0) (PublicKeyBytes (x25519_public toy_crates (rg_secret rng0)))),
       session_a\<lparr>pending_rekey := Some \<lparr>pr_rekey_id = rg_rekey_id rng0, pr_ephemeral_secret = rg_secret rng0\<rparr>\<rparr>)"
    "encrypt_payload toy_crates (rg_message_id2 rng0)
      (RekeyRequest (rg_rekey_id rng0) (PublicKeyBytes (x25519_public toy_crates (rg_secret rng0))))
      (session_a\<lparr>pending_rekey := Some \<lparr>pr_rekey_id = rg_rekey_id rng0, pr_ephemeral_secret = rg_secret rng0\<rparr>\<rparr>) =
      (Ok env, a1)"
    using request_sent [OF toy_crypto_laws sessions_can_rekey(1) rng0_fresh, of "rg_message_id2 rng0"] by metis
  have a1: "pending_rekey a1 = Some \<lparr>pr_rekey_id = rg_rekey_id rng0, pr_ephemeral_secret = rg_secret rng0\<rparr>"
    by (subst encrypt_payload_Ok(2) [OF r(2)]) simp
  have s: "client_start_rekey toy_crates rng0 client_a =
      (Ok (EncryptedMessage env), client_a\<lparr>cs_crypto_session := Some a1\<rparr>)"
    using client_payload_sent [OF _ r(2), of "client_a\<lparr>cs_crypto_session := Some (session_a\<lparr>pending_rekey :=
        Some \<lparr>pr_rekey_id = rg_rekey_id rng0, pr_ephemeral_secret = rg_secret rng0\<rparr>\<rparr>)\<rparr>"] r(1)
    by (simp add: client_start_rekey_def on_crypto_Some)
  obtain x where x: "json_of_wire toy_crates (EncryptedMessage env) = Some x" by (simp add: toy_crates_def)
  let ?c = "cli_a\<lparr>cl_session := client_a\<lparr>cs_crypto_session := Some a1\<rparr>, cl_sent := [x]\<rparr>"
  have "cli_loop toy_crates (\<lambda>_. True) [(rng0, Line (Some (Some (str ''/rekey''))))] cli_a = (Ok Continue, ?c)"
    by (simp add: cli_step_def on_line_def cli_a_def is_ready_def with_session_def s send_event_def x str_def)
  moreover have "cs_crypto_session (cl_session ?c) = Some a1" by simp
  ultimately show ?thesis using rekey_command_twice_exits [OF _ a1, of ?c toy_crates "\<lambda>_. True" rng0] by simp
qed

section \<open>Rekey between two clients\<close>

text \<open>
  C4: A rekey completes in one exchange. When two clients in agreement, neither of them in a
  handshake, run the request, the response and its reception, both end one epoch later with the same
  new master secret and in agreement again, no handshake left over and the line counter reset; both
  control messages travel under the old epoch.
\<close>

theorem rekey_end_to_end:
  assumes "crypto_laws L" and "cs_crypto_session a = Some x" and "cs_crypto_session b = Some y"
    and "in_sync x y" and "can_rekey L x" and "can_rekey L y"
    and "fresh_rekey L (rg_rekey_id ra) (rg_secret ra)" and "fresh_rekey L (rg_rekey_id ra) (rg_secret rb)"
  shows "\<exists>e1 a1 e2 b1 a2 x2 y2.
    client_start_rekey L ra a = (Ok (EncryptedMessage e1), a1) \<and>
    handle_event L rb (EncryptedMessage e1) b =
      (Ok \<lparr>io_event = None, io_reply_event = Some (EncryptedMessage e2)\<rparr>, b1) \<and>
    handle_event L rc (EncryptedMessage e2) a1 =
      (Ok \<lparr>io_event = Some (RekeyCompleted (epoch x + 1)), io_reply_event = None\<rparr>, a2) \<and>
    env_epoch e1 = epoch x \<and> env_epoch e2 = epoch x \<and>
    cs_crypto_session a2 = Some x2 \<and> cs_crypto_session b1 = Some y2 \<and> in_sync x2 y2 \<and>
    epoch x2 = epoch x + 1 \<and> \<not> is_rekey_in_progress x2 \<and> \<not> is_rekey_in_progress y2 \<and>
    cs_outbound_since_rekey a2 = 0"
  using client_handshake [OF assms, of rc] by blast

theorem rekey_end_to_end_witness:
  "\<exists>e1 a1 e2 b1 a2 x2 y2.
    client_start_rekey toy_crates rng0 client_a = (Ok (EncryptedMessage e1), a1) \<and>
    handle_event toy_crates rng0 (EncryptedMessage e1) client_b =
      (Ok \<lparr>io_event = None, io_reply_event = Some (EncryptedMessage e2)\<rparr>, b1) \<and>
    handle_event toy_crates rng0 (EncryptedMessage e2) a1 =
      (Ok \<lparr>io_event = Some (RekeyCompleted 1), io_reply_event = None\<rparr>, a2) \<and>
    cs_crypto_session a2 = Some x2 \<and> cs_crypto_session b1 = Some y2 \<and> in_sync x2 y2 \<and> epoch x2 = 1"
  using rekey_end_to_end [OF toy_crypto_laws client_a_fields(3) client_b_fields(3) sessions_in_sync
      sessions_can_rekey rng0_fresh rng0_fresh, of rng0]
  by (simp only: session_a_fields add_0) blast

text \<open>Sending keeps two sessions in agreement, whether or not the envelope arrives.\<close>

lemma in_sync_sent:
  assumes "in_sync a b" and enc: "encrypt_payload L mid p a = (Ok env, a')"
  shows "in_sync a' b"
proof -
  obtain bs where e: "encrypt L mid bs a = (Ok env, a')" using encrypt_payload_Ok(1) [OF enc] by blast
  have a': "a' = a\<lparr>next_outbound_nonce := next_outbound_nonce a'\<rparr>" by (rule encrypt_payload_Ok(2) [OF enc])
  have "unat (next_outbound_nonce a) \<le> unat (next_outbound_nonce a')"
    using session_step_counter_le [OF session_step.emit [OF e]] .
  moreover have "nonce_number a' = nonce_number a" by (subst a') (auto simp: nonce_number_def)
  ultimately have "synced a' b" using assms(1) by (fastforce simp: in_sync_def synced_def)
  moreover have "synced b a'" "paired a' b"
    using assms(1) by (subst a'; simp add: in_sync_def synced_def paired_def)+
  ultimately show ?thesis by (simp add: in_sync_def)
qed

lemma start_rekey_sent:
  assumes "client_start_rekey L rg a = (Ok ev, a')" and "cs_crypto_session a = Some x"
  obtains env x' p where "ev = EncryptedMessage env" and "a' = a\<lparr>cs_crypto_session := Some x'\<rparr>"
    and "encrypt_payload L (rg_message_id2 rg)
      (RekeyRequest (rg_rekey_id rg) (PublicKeyBytes (x25519_public L (rg_secret rg))))
      (x\<lparr>pending_rekey := Some p\<rparr>) = (Ok env, x')"
proof -
  let ?p = "\<lparr>pr_rekey_id = rg_rekey_id rg, pr_ephemeral_secret = rg_secret rg\<rparr>"
  let ?req = "RekeyRequest (rg_rekey_id rg) (PublicKeyBytes (x25519_public L (rg_secret rg)))"
  have "pending_rekey x = None"
    using assms by (rule_tac ccontr) (simp add: client_start_rekey_def on_crypto_def start_rekey_def)
  then have "client_encrypt_payload L (rg_message_id2 rg) ?req
      (a\<lparr>cs_crypto_session := Some (x\<lparr>pending_rekey := Some ?p\<rparr>)\<rparr>) = (Ok ev, a')"
    using assms by (simp add: client_start_rekey_def on_crypto_def start_rekey_def)
  then show thesis
    by (rule client_encrypt_payload_OkE) (auto intro: that)
qed

text \<open>
  C25: Two rekey requests that cross block each other. When both clients of a working pair have sent a
  request before they see the other's, each rejects the other's request with an error and sends no
  response, and both are left waiting for a response that will not come.
\<close>

theorem crossing_rekeys_block:
  assumes laws: "crypto_laws L" and "linked a b"
    and ep: "\<And>y. cs_crypto_session b = Some y \<Longrightarrow> epoch y \<noteq> - 1"
    and fresh: "fresh_rekey L (rg_rekey_id ra) (rg_secret ra)" "fresh_rekey L (rg_rekey_id rb) (rg_secret rb)"
    and sa: "client_start_rekey L ra a = (Ok ea, a1)" and sb: "client_start_rekey L rb b = (Ok eb, b1)"
  shows "\<exists>a2 b2 x2 y2. handle_event L rga eb a1 = (Err (CryptoErr RekeyAlreadyInProgress), a2) \<and>
    handle_event L rgb ea b1 = (Err (CryptoErr RekeyAlreadyInProgress), b2) \<and>
    cs_crypto_session a2 = Some x2 \<and> pending_rekey x2 \<noteq> None \<and>
    cs_crypto_session b2 = Some y2 \<and> pending_rekey y2 \<noteq> None"
proof -
  obtain x y where xy: "cs_crypto_session a = Some x" "cs_crypto_session b = Some y" "in_sync x y"
    "valid_ids x" "valid_ids y" using assms(2) by (rule linkedE)
  obtain enva x1 p where a: "ea = EncryptedMessage enva" "a1 = a\<lparr>cs_crypto_session := Some x1\<rparr>"
    "encrypt_payload L (rg_message_id2 ra) (RekeyRequest (rg_rekey_id ra)
      (PublicKeyBytes (x25519_public L (rg_secret ra)))) (x\<lparr>pending_rekey := Some p\<rparr>) = (Ok enva, x1)"
    using sa xy(1) by (rule start_rekey_sent)
  obtain envb y1 q where b: "eb = EncryptedMessage envb" "b1 = b\<lparr>cs_crypto_session := Some y1\<rparr>"
    "encrypt_payload L (rg_message_id2 rb) (RekeyRequest (rg_rekey_id rb)
      (PublicKeyBytes (x25519_public L (rg_secret rb)))) (y\<lparr>pending_rekey := Some q\<rparr>) = (Ok envb, y1)"
    using sb xy(2) by (rule start_rekey_sent)
  have px: "pending_rekey x1 = Some p" "epoch x1 = epoch x"
    by (subst encrypt_payload_Ok(2) [OF a(3)]; simp)+
  have py: "pending_rekey y1 = Some q" "epoch y1 = epoch y"
    by (subst encrypt_payload_Ok(2) [OF b(3)]; simp)+
  have e: "epoch x = epoch y" "epoch y \<noteq> - 1" using xy(3) ep [OF xy(2)] by (simp_all add: in_sync_def paired_def)
  have s1: "in_sync (x\<lparr>pending_rekey := Some p\<rparr>) y1"
    using in_sync_sym [OF in_sync_sent [OF _ b(3), of x]] in_sync_sym [OF xy(3)] by simp
  have s2: "in_sync (y\<lparr>pending_rekey := Some q\<rparr>) x1"
    using in_sync_sym [OF in_sync_sent [OF _ a(3), of y]] xy(3) by simp
  have "decrypt_payload L enva y1 = (Ok (RekeyRequest (rg_rekey_id ra)
      (PublicKeyBytes (x25519_public L (rg_secret ra)))), noted enva y1)"
    using payload_arrives(1) [OF laws s1 _ _ a(3)] py e fresh(1) by (simp add: fresh_rekey_def)
  note rb = client_rejects_request [OF _ py(1) this, of b1]
  have "decrypt_payload L envb x1 = (Ok (RekeyRequest (rg_rekey_id rb)
      (PublicKeyBytes (x25519_public L (rg_secret rb)))), noted envb x1)"
    using payload_arrives(1) [OF laws s2 _ _ b(3)] px e fresh(2) by (simp add: fresh_rekey_def)
  note ra = client_rejects_request [OF _ px(1) this, of a1]
  show ?thesis using ra rb a(1,2) b(1,2) by simp
qed

lemma client_rejects_epoch:
  assumes "cs_crypto_session a = Some x" and "env_sender env = peer_id x" and "env_recipient env = local_id x"
    and "env_epoch env = epoch x + 1" and "epoch x \<noteq> - 1" and "epoch x + 1 \<noteq> - 1"
  shows "handle_event L rg (EncryptedMessage env) a = (Err (CryptoErr UnknownEpoch), a)"
proof -
  have "1 + epoch x \<noteq> 0" using assms(5) by (metis add.commute add_eq_0_iff2)
  then have "\<not> in_window (env_epoch env) x"
    using assms(4) unatSuc [of "epoch x"] by (auto simp: in_window_def add.commute word_unat_eq_iff)
  then have "decrypt L env x = (Err UnknownEpoch, x)"
    using assms by (intro decrypt_UnknownEpoch) (simp_all add: epoch_panics_def)
  then show ?thesis
    using assms(1) by (simp add: handle_event_def handle_encrypted_message_def on_crypto_Some decrypt_payload_def)
qed

text \<open>
  C23: A line that overtakes the rekey response is lost. The responder of a rekey sends its response
  under the old epoch and its next line under the new one. An initiator that receives the line first
  rejects it as one of an unknown epoch; had the two arrived in the order in which they were sent, the
  rekey would have completed and the line would have been shown.
\<close>

theorem line_overtaking_response_lost:
  assumes laws: "crypto_laws L" and a: "cs_crypto_session a = Some x" and b: "cs_crypto_session b = Some y"
    and sync: "in_sync x y" and can: "can_rekey L x" "can_rekey L y"
    and fresh: "fresh_rekey L (rg_rekey_id ra) (rg_secret ra)" "fresh_rekey L (rg_rekey_id ra) (rg_secret rb)"
    and ep: "epoch x + 1 \<noteq> - 1"
    and request: "client_start_rekey L ra a = (Ok (EncryptedMessage e1), a1)"
    and answer: "handle_event L rb (EncryptedMessage e1) b =
      (Ok \<lparr>io_event = None, io_reply_event = Some (EncryptedMessage e2)\<rparr>, b1)"
    and line: "client_encrypt_payload L mid (Chat line) b1 = (Ok (EncryptedMessage m), b2)"
  shows "handle_event L rc (EncryptedMessage m) a1 = (Err (CryptoErr UnknownEpoch), a1) \<and>
    (\<exists>a2 a3. handle_event L rc (EncryptedMessage e2) a1 =
        (Ok \<lparr>io_event = Some (RekeyCompleted (epoch x + 1)), io_reply_event = None\<rparr>, a2) \<and>
      handle_event L rd (EncryptedMessage m) a2 =
        (Ok \<lparr>io_event = Some (InboundChat line), io_reply_event = None\<rparr>, a3))"
proof -
  obtain x1 p where x1: "a1 = a\<lparr>cs_crypto_session := Some x1\<rparr>"
    "encrypt_payload L (rg_message_id2 ra) (RekeyRequest (rg_rekey_id ra)
      (PublicKeyBytes (x25519_public L (rg_secret ra)))) (x\<lparr>pending_rekey := Some p\<rparr>) = (Ok e1, x1)"
    using start_rekey_sent [OF request a] by (metis wire_event.inject(3))
  have same: "epoch x1 = epoch x" "local_id x1 = local_id x" "peer_id x1 = peer_id x"
    by (subst encrypt_payload_Ok(2) [OF x1(2)]; simp)+
  obtain a2 x2 y2 where fin: "handle_event L rc (EncryptedMessage e2) a1 =
      (Ok \<lparr>io_event = Some (RekeyCompleted (epoch x + 1)), io_reply_event = None\<rparr>, a2)"
    "cs_crypto_session a2 = Some x2" "cs_crypto_session b1 = Some y2" "in_sync x2 y2" "epoch x2 = epoch x + 1"
    using client_handshake [OF laws a b sync can fresh, of rc] request answer by auto
  have "client_frame a1 a2"
    using handle_encrypted_message_frame [of a1 L rc e2] fin(1) by (simp add: handle_event_def)
  then have "same_identity x1 x2" using x1(1) fin(2) by (simp add: client_frame_def)
  then have ids: "local_id x2 = local_id x" "peer_id x2 = peer_id x" using same by (simp_all add: same_identity_def)
  have y2: "local_id y2 = peer_id x" "peer_id y2 = local_id x" "epoch y2 = epoch x + 1"
    using fin(4,5) ids by (simp_all add: in_sync_def paired_def)
  obtain y3 where enc: "encrypt_payload L mid (Chat line) y2 = (Ok m, y3)"
    using client_encrypt_payload_OkE [OF line fin(3)] by blast
  then have m: "env_sender m = peer_id x1" "env_recipient m = local_id x1" "env_epoch m = epoch x1 + 1"
    using encrypt_payload_Ok(1) [OF enc] encrypt_header y2 same by fastforce+
  have lost: "handle_event L rc (EncryptedMessage m) a1 = (Err (CryptoErr UnknownEpoch), a1)"
    using client_rejects_epoch [OF _ m, of a1] x1(1) same(1) ep can(1) by (simp add: can_rekey_def)
  have "linked b1 a2"
    using fin(2-4) can ids y2 by (auto simp: linked_def valid_ids_def can_rekey_def intro: in_sync_sym)
  then obtain a3 where "handle_event L rd (EncryptedMessage m) a2 =
      (Ok \<lparr>io_event = Some (InboundChat line), io_reply_event = None\<rparr>, a3)"
    using chat_line_received [OF laws _ _ line] fin(2,5) ep by fastforce
  with lost fin(1) show ?thesis by blast
qed

theorem line_overtaking_response_lost_witness:
  "\<exists>e1 a1 e2 b1 m b2 a2 a3. client_start_rekey toy_crates rng0 client_a = (Ok (EncryptedMessage e1), a1) \<and>
     handle_event toy_crates rng0 (EncryptedMessage e1) client_b =
       (Ok \<lparr>io_event = None, io_reply_event = Some (EncryptedMessage e2)\<rparr>, b1) \<and>
     client_encrypt_payload toy_crates (MessageId 8) (Chat hello_line) b1 = (Ok (EncryptedMessage m), b2) \<and>
     handle_event toy_crates rng0 (EncryptedMessage m) a1 = (Err (CryptoErr UnknownEpoch), a1) \<and>
     handle_event toy_crates rng0 (EncryptedMessage e2) a1 =
       (Ok \<lparr>io_event = Some (RekeyCompleted 1), io_reply_event = None\<rparr>, a2) \<and>
     handle_event toy_crates rng0 (EncryptedMessage m) a2 =
       (Ok \<lparr>io_event = Some (InboundChat hello_line), io_reply_event = None\<rparr>, a3)"
proof -
  obtain e1 a1 e2 b1 x2 y2 where h: "client_start_rekey toy_crates rng0 client_a = (Ok (EncryptedMessage e1), a1)"
    "handle_event toy_crates rng0 (EncryptedMessage e1) client_b =
      (Ok \<lparr>io_event = None, io_reply_event = Some (EncryptedMessage e2)\<rparr>, b1)"
    "cs_crypto_session b1 = Some y2" "next_outbound_nonce y2 = 1"
    using client_handshake [OF toy_crypto_laws client_a_fields(3) client_b_fields(3) sessions_in_sync
        sessions_can_rekey rng0_fresh rng0_fresh, of rng0] by auto
  have "client_frame client_b b1"
    using handle_encrypted_message_frame [of client_b toy_crates rng0 e1] h(2) by (simp add: handle_event_def)
  then have "valid_ids y2"
    using h(3) sessions_valid(2) by (simp add: client_frame_def same_identity_def valid_ids_def)
  then obtain m y3 where "encrypt_payload toy_crates (MessageId 8) (Chat hello_line) y2 = (Ok m, y3)"
    by (rule encrypt_payload_succeeds [OF toy_crypto_laws _ _ _ hello_line_short]) (use h(4) in simp_all)
  then have m: "client_encrypt_payload toy_crates (MessageId 8) (Chat hello_line) b1 =
      (Ok (EncryptedMessage m), b1\<lparr>cs_crypto_session := Some y3\<rparr>)"
    by (rule client_payload_sent [OF h(3)])
  have "epoch session_a + 1 \<noteq> - 1" by simp
  from line_overtaking_response_lost [OF toy_crypto_laws client_a_fields(3) client_b_fields(3) sessions_in_sync
      sessions_can_rekey rng0_fresh rng0_fresh this h(1,2) m, of rng0 rng0] h(1,2) m
  show ?thesis by auto
qed

lemma client_starts:
  assumes "crypto_laws L" and "cs_crypto_session a = Some x" and "can_rekey L x"
    and "fresh_rekey L (rg_rekey_id rg) (rg_secret rg)"
  shows "\<exists>env a'. client_start_rekey L rg a = (Ok (EncryptedMessage env), a') \<and>
    (\<exists>x' p. cs_crypto_session a' = Some x' \<and> pending_rekey x' = Some p \<and> pr_rekey_id p = rg_rekey_id rg)"
proof -
  let ?p = "\<lparr>pr_rekey_id = rg_rekey_id rg, pr_ephemeral_secret = rg_secret rg\<rparr>"
  let ?req = "RekeyRequest (rg_rekey_id rg) (PublicKeyBytes (x25519_public L (rg_secret rg)))"
  obtain env x' where r: "start_rekey L (rg_rekey_id rg) (rg_secret rg) x = (Ok ?req, x\<lparr>pending_rekey := Some ?p\<rparr>)"
    "encrypt_payload L (rg_message_id2 rg) ?req (x\<lparr>pending_rekey := Some ?p\<rparr>) = (Ok env, x')"
    using request_sent [OF assms(1,3,4), of "rg_message_id2 rg"] by metis
  have "pending_rekey x' = Some ?p" by (subst encrypt_payload_Ok(2) [OF r(2)]) simp
  moreover have "client_start_rekey L rg a = (Ok (EncryptedMessage env), a\<lparr>cs_crypto_session := Some x'\<rparr>)"
    using client_payload_sent [OF _ r(2), of "a\<lparr>cs_crypto_session := Some (x\<lparr>pending_rekey := Some ?p\<rparr>)\<rparr>"]
      r(1) assms(2) by (simp add: client_start_rekey_def on_crypto_Some)
  ultimately show ?thesis by simp
qed

theorem crossing_rekeys_block_witness:
  "\<exists>ea a1 eb b1 a2 b2. client_start_rekey toy_crates rng0 client_a = (Ok ea, a1) \<and>
     client_start_rekey toy_crates rng0 client_b = (Ok eb, b1) \<and>
     handle_event toy_crates rng0 eb a1 = (Err (CryptoErr RekeyAlreadyInProgress), a2) \<and>
     handle_event toy_crates rng0 ea b1 = (Err (CryptoErr RekeyAlreadyInProgress), b2)"
proof -
  obtain ea a1 where a: "client_start_rekey toy_crates rng0 client_a = (Ok (EncryptedMessage ea), a1)"
    using client_starts [OF toy_crypto_laws client_a_fields(3) sessions_can_rekey(1) rng0_fresh] by blast
  obtain eb b1 where b: "client_start_rekey toy_crates rng0 client_b = (Ok (EncryptedMessage eb), b1)"
    using client_starts [OF toy_crypto_laws client_b_fields(3) sessions_can_rekey(2) rng0_fresh] by blast
  have "epoch y \<noteq> - 1" if "cs_crypto_session client_b = Some y" for y using that by auto
  from crossing_rekeys_block [OF toy_crypto_laws clients_linked this rng0_fresh rng0_fresh a b] a b
  show ?thesis by blast
qed

text \<open>
  C30: The automatic rekey starts at its threshold. A client with a threshold that can start a
  handshake counts the line it sends; when the count reaches the threshold it sends a rekey request
  after the line, and otherwise the line alone; while a handshake is under way it never starts
  another.
\<close>

theorem auto_rekey_threshold:
  assumes laws: "crypto_laws L" and k: "cs_auto_rekey_after a = Some k" and n: "cs_outbound_since_rekey a \<noteq> - 1"
    and x: "cs_crypto_session a = Some x" and "valid_ids x" and "epoch x \<noteq> - 1" and "inbound_nonces x (- 1) = None"
    and enc: "encrypt_payload L (rg_message_id rg) (Chat line) x = (Ok env, x')"
    and "next_outbound_nonce x' \<noteq> - 1" and fresh: "fresh_rekey L (rg_rekey_id rg) (rg_secret rg)"
  shows "if k \<le> cs_outbound_since_rekey a + 1 \<and> \<not> is_rekey_in_progress x
    then \<exists>req a' x2 p. encrypt_line L rg line a = (Ok [EncryptedMessage env, EncryptedMessage req], a') \<and>
      cs_crypto_session a' = Some x2 \<and> pending_rekey x2 = Some p \<and> pr_rekey_id p = rg_rekey_id rg
    else encrypt_line L rg line a = (Ok [EncryptedMessage env],
      a\<lparr>cs_crypto_session := Some x', cs_outbound_since_rekey := cs_outbound_since_rekey a + 1\<rparr>)"
proof -
  note line = encrypt_line_auto [OF k n x enc]
  let ?a = "a\<lparr>cs_crypto_session := Some x', cs_outbound_since_rekey := cs_outbound_since_rekey a + 1\<rparr>"
  have x': "x' = x\<lparr>next_outbound_nonce := next_outbound_nonce x'\<rparr>" by (rule encrypt_payload_Ok(2) [OF enc])
  have can: "can_rekey L x'" if "\<not> is_rekey_in_progress x"
    unfolding can_rekey_def
    by (intro conjI; (subst x')?) (use that assms(5-7,9) in \<open>auto simp: valid_ids_def is_rekey_in_progress_def\<close>)
  have "cs_crypto_session ?a = Some x'" by simp
  from client_starts [OF laws this can fresh] line show ?thesis by auto
qed

theorem auto_rekey_threshold_witness:
  "\<exists>chat req a'. encrypt_line toy_crates rng0 hello_line (set_auto_rekey_after 1 client_a) =
     (Ok [EncryptedMessage chat, EncryptedMessage req], a')"
proof -
  let ?a = "set_auto_rekey_after 1 client_a"
  obtain env x' where e: "encrypt_payload toy_crates (rg_message_id rng0) (Chat hello_line) session_a = (Ok env, x')"
    by (rule encrypt_payload_succeeds [OF toy_crypto_laws sessions_valid(1) _ _ hello_line_short]) simp_all
  obtain bs where bs: "encrypt toy_crates (rg_message_id rng0) bs session_a = (Ok env, x')"
    using encrypt_payload_Ok(1) [OF e] by blast
  have n: "next_outbound_nonce x' \<noteq> - 1" using encrypt_Ok_state [OF bs] by simp
  have f: "cs_auto_rekey_after ?a = Some 1" "cs_outbound_since_rekey ?a \<noteq> - 1" "cs_crypto_session ?a = Some session_a"
    "cs_outbound_since_rekey ?a = 0"
    by (simp_all add: set_auto_rekey_after_def)
  have s: "valid_ids session_a" "epoch session_a \<noteq> - 1" "inbound_nonces session_a (- 1) = None"
    "\<not> is_rekey_in_progress session_a"
    by (simp_all add: is_rekey_in_progress_def)
  from auto_rekey_threshold [OF toy_crypto_laws f(1-3) s(1-3) e n rng0_fresh] f(4) s(4) show ?thesis
    by auto
qed

end
