(* ===== verification/Router.thy ===== *)
theory Router
  imports Service
begin

text \<open>
  The relay's router, \<open>crates/chat-server/src/router.rs\<close>: one outbox per connected client. The
  contract of the trait \<open>MessageRouter\<close> that the server relies on is the locale \<open>relay_router\<close>;
  the queueing properties are proved from that contract, and \<open>InMemoryRouter\<close> is interpreted as an
  instance of it.
\<close>

section \<open>The in-memory router\<close>

record in_memory_router =
  outboxes :: "client_id \<rightharpoonup> wire_event list"

definition in_memory_router_default :: in_memory_router where
  "in_memory_router_default = \<lparr>outboxes = Map.empty\<rparr>"

fun recipient_for :: "client_id \<Rightarrow> wire_event \<Rightarrow> (client_id, router_error) result" where
  "recipient_for connection_id (PeerKey from to public_key) =
     (if from \<noteq> connection_id then Err SenderMismatch else Ok to)"
| "recipient_for connection_id (EncryptedMessage envelope) =
     (if env_sender envelope \<noteq> connection_id then Err SenderMismatch
      else Ok (env_recipient envelope))"
| "recipient_for connection_id (ClientHello client_id public_key) = Err UnsupportedEvent"
| "recipient_for connection_id (Ack message_id) = Err UnsupportedEvent"
| "recipient_for connection_id (ErrorEvent code message) = Err UnsupportedEvent"

fun ack_for :: "wire_event \<Rightarrow> wire_event option" where
  "ack_for (EncryptedMessage envelope) = Some (Ack (env_message_id envelope))"
| "ack_for (ClientHello client_id public_key) = None"
| "ack_for (PeerKey from to public_key) = None"
| "ack_for (Ack message_id) = None"
| "ack_for (ErrorEvent code message) = None"

definition in_memory_connect ::
  "client_id \<Rightarrow> in_memory_router \<Rightarrow> (unit, router_error) result \<times> in_memory_router" where
  "in_memory_connect client_id self =
     (if outboxes self client_id \<noteq> None then (Err ClientAlreadyConnected, self)
      else (Ok (), self\<lparr>outboxes := (outboxes self)(client_id \<mapsto> [])\<rparr>))"

definition in_memory_disconnect ::
  "client_id \<Rightarrow> in_memory_router \<Rightarrow> (unit, router_error) result \<times> in_memory_router" where
  "in_memory_disconnect client_id self =
     (let removed = outboxes self client_id;
          self = self\<lparr>outboxes := (outboxes self)(client_id := None)\<rparr>
      in if removed \<noteq> None then (Ok (), self) else (Err ClientNotConnected, self))"

definition in_memory_route ::
  "client_id \<Rightarrow> wire_event \<Rightarrow> in_memory_router \<Rightarrow> (unit, router_error) result \<times> in_memory_router" where
  "in_memory_route connection_id event self =
     (if outboxes self connection_id = None then (Err ClientNotConnected, self)
      else and_then (recipient_for connection_id event, self) (\<lambda>recipient self.
        let ack = ack_for event in
        case outboxes self recipient of
          None \<Rightarrow> (Err UnknownRecipient, self)
        | Some outbox \<Rightarrow>
          let self = self\<lparr>outboxes := (outboxes self)(recipient \<mapsto> outbox @ [event])\<rparr> in
          case (ack, outboxes self connection_id) of
            (Some ack, Some sender_outbox) \<Rightarrow>
              (Ok (), self\<lparr>outboxes := (outboxes self)(connection_id \<mapsto> sender_outbox @ [ack])\<rparr>)
          | _ \<Rightarrow> (Ok (), self)))"

definition in_memory_drain_outbox ::
  "client_id \<Rightarrow> in_memory_router \<Rightarrow> wire_event list \<times> in_memory_router" where
  "in_memory_drain_outbox client_id self = (case outboxes self client_id of
      Some outbox \<Rightarrow> (outbox, self\<lparr>outboxes := (outboxes self)(client_id \<mapsto> [])\<rparr>)
    | None \<Rightarrow> ([], self))"

definition in_memory_message_router :: "in_memory_router message_router" where
  "in_memory_message_router =
     \<lparr>mr_connect = in_memory_connect, mr_disconnect = in_memory_disconnect,
      mr_route = in_memory_route, mr_drain_outbox = in_memory_drain_outbox\<rparr>"

section \<open>The contract\<close>

text \<open>What a route call decides, given the set of connected clients.\<close>

definition route_outcome :: "client_id \<Rightarrow> wire_event \<Rightarrow> client_id set \<Rightarrow> (client_id, router_error) result" where
  "route_outcome c e C =
     (if c \<notin> C then Err ClientNotConnected
      else case recipient_for c e of
          Ok rcpt \<Rightarrow> if rcpt \<in> C then Ok rcpt else Err UnknownRecipient
        | Err x \<Rightarrow> Err x
        | Panic \<Rightarrow> Panic)"

text \<open>What an accepted route call puts into the outbox of client \<open>d\<close>.\<close>

definition enqueued :: "client_id \<Rightarrow> wire_event \<Rightarrow> client_id \<Rightarrow> client_id \<Rightarrow> wire_event list" where
  "enqueued c e rcpt d =
     (if d = rcpt then [e] else []) @
     (if d = c then (case ack_for e of None \<Rightarrow> [] | Some a \<Rightarrow> [a]) else [])"

lemma recipient_for_no_panic [simp]: "recipient_for c e \<noteq> Panic"
  by (cases e) simp_all

lemma route_outcome_no_panic [simp]: "route_outcome c e C \<noteq> Panic"
  by (simp add: route_outcome_def split: result.split)

lemma route_outcome_Ok_iff:
  "route_outcome c e C = Ok rcpt \<longleftrightarrow> c \<in> C \<and> recipient_for c e = Ok rcpt \<and> rcpt \<in> C"
  by (auto simp: route_outcome_def split: result.splits)

lemma route_outcome_cases:
  obtains (ok) rcpt where "route_outcome c e C = Ok rcpt" | (err) x where "route_outcome c e C = Err x"
  by (cases "route_outcome c e C") simp_all

locale relay_router =
  fixes R :: "'r message_router"
    and clients :: "'r \<Rightarrow> client_id set"
    and pending :: "'r \<Rightarrow> client_id \<Rightarrow> wire_event list"
  assumes connect_new: "c \<notin> clients r \<Longrightarrow> fst (mr_connect R c r) = Ok ()"
    and connect_clients: "c \<notin> clients r \<Longrightarrow> clients (snd (mr_connect R c r)) = insert c (clients r)"
    and connect_pending: "c \<notin> clients r \<Longrightarrow> pending (snd (mr_connect R c r)) = (pending r)(c := [])"
    and connect_dup: "c \<in> clients r \<Longrightarrow> mr_connect R c r = (Err ClientAlreadyConnected, r)"
    and disconnect_result: "fst (mr_disconnect R c r) =
          (if c \<in> clients r then Ok () else Err ClientNotConnected)"
    and disconnect_clients: "clients (snd (mr_disconnect R c r)) = clients r - {c}"
    and disconnect_pending: "d \<noteq> c \<Longrightarrow> pending (snd (mr_disconnect R c r)) d = pending r d"
    and route_rejected: "route_outcome c e (clients r) = Err x \<Longrightarrow> mr_route R c e r = (Err x, r)"
    and route_accepted: "route_outcome c e (clients r) = Ok rcpt \<Longrightarrow> fst (mr_route R c e r) = Ok ()"
    and route_clients: "clients (snd (mr_route R c e r)) = clients r"
    and route_pending: "route_outcome c e (clients r) = Ok rcpt \<Longrightarrow>
          pending (snd (mr_route R c e r)) d = pending r d @ enqueued c e rcpt d"
    and drain_result: "fst (mr_drain_outbox R c r) = (if c \<in> clients r then pending r c else [])"
    and drain_clients: "clients (snd (mr_drain_outbox R c r)) = clients r"
    and drain_pending: "pending (snd (mr_drain_outbox R c r)) =
          (if c \<in> clients r then (pending r)(c := []) else pending r)"
begin

lemma route_Ok_iff:
  "mr_route R c e r = (Ok u, r') \<longleftrightarrow>
     (\<exists>rcpt. route_outcome c e (clients r) = Ok rcpt) \<and> r' = snd (mr_route R c e r)"
  by (cases rule: route_outcome_cases [of c e "clients r"])
    (use route_accepted route_rejected in \<open>force simp: prod_eq_iff\<close>)+

lemma route_fst: "fst (mr_route R c e r) = (case route_outcome c e (clients r) of
    Ok _ \<Rightarrow> Ok () | Err x \<Rightarrow> Err x | Panic \<Rightarrow> Panic)"
  by (cases rule: route_outcome_cases [of c e "clients r"])
    (simp_all add: route_accepted route_rejected)

lemma connect_fst: "fst (mr_connect R c r) =
    (if c \<in> clients r then Err ClientAlreadyConnected else Ok ())"
  by (simp add: connect_new connect_dup)

end

section \<open>Runs of a router\<close>

datatype router_op =
    OpConnect client_id
  | OpDisconnect client_id
  | OpRoute client_id wire_event
  | OpDrain client_id

definition router_step :: "'r message_router \<Rightarrow> router_op \<Rightarrow> 'r \<Rightarrow> 'r" where
  "router_step R op r = (case op of
      OpConnect c \<Rightarrow> snd (mr_connect R c r)
    | OpDisconnect c \<Rightarrow> snd (mr_disconnect R c r)
    | OpRoute c e \<Rightarrow> snd (mr_route R c e r)
    | OpDrain c \<Rightarrow> snd (mr_drain_outbox R c r))"

definition router_run :: "'r message_router \<Rightarrow> router_op list \<Rightarrow> 'r \<Rightarrow> 'r" where
  "router_run R ops r = fold (router_step R) ops r"

text \<open>What the drains of client \<open>d\<close> return along a run.\<close>

fun handed_out :: "'r message_router \<Rightarrow> client_id \<Rightarrow> router_op list \<Rightarrow> 'r \<Rightarrow> wire_event list" where
  "handed_out R d [] r = []"
| "handed_out R d (op # ops) r =
     (case op of OpDrain c \<Rightarrow> if c = d then fst (mr_drain_outbox R d r) else [] | _ \<Rightarrow> []) @
     handed_out R d ops (router_step R op r)"

text \<open>
  What the accepted route calls of a run owe to client \<open>d\<close>: the events addressed to it, and one
  acknowledgement for each encrypted message of its own.
\<close>

fun owed :: "'r message_router \<Rightarrow> client_id \<Rightarrow> router_op list \<Rightarrow> 'r \<Rightarrow> wire_event list" where
  "owed R d [] r = []"
| "owed R d (op # ops) r =
     (case op of
        OpRoute c e \<Rightarrow> (case (mr_route R c e r, recipient_for c e) of
            ((Ok _, _), Ok rcpt) \<Rightarrow> enqueued c e rcpt d
          | _ \<Rightarrow> [])
      | _ \<Rightarrow> []) @
     owed R d ops (router_step R op r)"

text \<open>
  The same as a specification that knows nothing of a router: it follows the set of connected clients
  through the calls and lets \<open>route_outcome\<close> decide.
\<close>

fun owed_spec :: "client_id \<Rightarrow> router_op list \<Rightarrow> client_id set \<Rightarrow> wire_event list" where
  "owed_spec d [] C = []"
| "owed_spec d (OpConnect c # ops) C = owed_spec d ops (insert c C)"
| "owed_spec d (OpDisconnect c # ops) C = owed_spec d ops (C - {c})"
| "owed_spec d (OpRoute c e # ops) C =
     (case route_outcome c e C of Ok rcpt \<Rightarrow> enqueued c e rcpt d | _ \<Rightarrow> []) @ owed_spec d ops C"
| "owed_spec d (OpDrain c # ops) C = owed_spec d ops C"

text \<open>An event that may legitimately sit in the outbox of \<open>d\<close> after the given operations.\<close>

definition acknowledges :: "client_id \<Rightarrow> message_id \<Rightarrow> router_op \<Rightarrow> bool" where
  "acknowledges d m op = (case op of
      OpRoute c (EncryptedMessage env) \<Rightarrow> c = d \<and> env_sender env = d \<and> env_message_id env = m
    | _ \<Rightarrow> False)"

fun genuine_for :: "client_id \<Rightarrow> router_op list \<Rightarrow> wire_event \<Rightarrow> bool" where
  "genuine_for d ops (PeerKey from to pk) \<longleftrightarrow> to = d \<and> OpRoute from (PeerKey from to pk) \<in> set ops"
| "genuine_for d ops (EncryptedMessage env) \<longleftrightarrow>
     env_recipient env = d \<and> OpRoute (env_sender env) (EncryptedMessage env) \<in> set ops"
| "genuine_for d ops (Ack m) \<longleftrightarrow> list_ex (acknowledges d m) ops"
| "genuine_for d ops (ClientHello c pk) \<longleftrightarrow> False"
| "genuine_for d ops (ErrorEvent code message) \<longleftrightarrow> False"

lemma genuine_for_mono: "genuine_for d ops e \<Longrightarrow> set ops \<subseteq> set ops' \<Longrightarrow> genuine_for d ops' e"
  by (cases e) (auto simp: list_ex_iff)

lemma in_enqueued_iff:
  "x \<in> set (enqueued c e rcpt d) \<longleftrightarrow> d = rcpt \<and> x = e \<or> d = c \<and> ack_for e = Some x"
proof -
  have s: "set (if P then [a] else []) = {y. P \<and> y = a}" for P and a :: wire_event by simp
  show ?thesis
    unfolding enqueued_def set_append by (cases "ack_for e") (simp_all only: option.case s, auto)
qed

lemma enqueued_genuine:
  assumes "recipient_for c e = Ok rcpt" and "x \<in> set (enqueued c e rcpt d)"
  shows "genuine_for d (OpRoute c e # ops) x"
  using assms unfolding in_enqueued_iff
  by (cases e) (auto simp: acknowledges_def split: if_split_asm)

lemma owed_genuine: "x \<in> set (owed R d ops r) \<Longrightarrow> genuine_for d ops x"
proof (induction ops arbitrary: r)
  case (Cons op ops)
  show ?case
  proof (cases "x \<in> set (owed R d ops (router_step R op r))")
    case True
    then show ?thesis using Cons.IH genuine_for_mono by (metis set_subset_Cons)
  next
    case False
    then show ?thesis
      using Cons.prems
      by (auto split: router_op.splits result.splits prod.splits
          intro: enqueued_genuine [OF sym])
  qed
qed simp

context relay_router
begin

lemma step_clients:
  "clients (router_step R op r) = (case op of
      OpConnect c \<Rightarrow> insert c (clients r) | OpDisconnect c \<Rightarrow> clients r - {c} | _ \<Rightarrow> clients r)"
proof (cases op)
  case (OpConnect c)
  then show ?thesis
    by (cases "c \<in> clients r") (simp_all add: router_step_def connect_dup connect_clients insert_absorb)
qed (simp_all add: router_step_def disconnect_clients route_clients drain_clients)

lemma owed_spec_eq: "owed R d ops r = owed_spec d ops (clients r)"
proof (induction ops arbitrary: r)
  case (Cons op ops)
  show ?case
  proof (cases op)
    case (OpRoute c e)
    show ?thesis
    proof (cases rule: route_outcome_cases [of c e "clients r"])
      case (ok rcpt)
      then have "recipient_for c e = Ok rcpt" by (simp add: route_outcome_Ok_iff)
      moreover obtain r' where "mr_route R c e r = (Ok (), r')"
        using route_accepted [OF ok] by (cases "mr_route R c e r") simp
      ultimately show ?thesis using ok by (simp add: OpRoute Cons.IH step_clients)
    next
      case (err x)
      then show ?thesis using route_rejected [OF err] by (simp add: OpRoute Cons.IH step_clients)
    qed
  qed (simp_all add: Cons.IH step_clients)
qed simp

lemma delivery_exact:
  assumes "d \<in> clients r" and "OpDisconnect d \<notin> set ops"
  shows "pending r d @ owed R d ops r = handed_out R d ops r @ pending (router_run R ops r) d"
  using assms
proof (induction ops arbitrary: r)
  case Nil
  then show ?case by (simp add: router_run_def)
next
  case (Cons op ops)
  let ?r = "router_step R op r"
  have IH: "pending ?r d @ owed R d ops ?r = handed_out R d ops ?r @ pending (router_run R ops ?r) d"
    using Cons.prems by (intro Cons.IH) (auto simp: step_clients split: router_op.split)
  have run: "router_run R (op # ops) r = router_run R ops ?r" by (simp add: router_run_def)
  show ?case
  proof (cases op)
    case (OpConnect c)
    then have "pending ?r d = pending r d"
      using Cons.prems(1) connect_pending connect_dup
      by (cases "c \<in> clients r") (auto simp: router_step_def)
    then show ?thesis using IH by (simp add: run [unfolded OpConnect] OpConnect)
  next
    case (OpDisconnect c)
    then have "pending ?r d = pending r d"
      using Cons.prems(2) by (simp add: router_step_def disconnect_pending)
    then show ?thesis using IH by (simp add: run [unfolded OpDisconnect] OpDisconnect)
  next
    case (OpRoute c e)
    show ?thesis
    proof (cases rule: route_outcome_cases [of c e "clients r"])
      case (ok rcpt)
      then have rc: "recipient_for c e = Ok rcpt" by (simp add: route_outcome_Ok_iff)
      obtain r' where r': "mr_route R c e r = (Ok (), r')"
        using route_accepted [OF ok] by (cases "mr_route R c e r") simp
      have "pending ?r d = pending r d @ enqueued c e rcpt d"
        using route_pending [OF ok] by (simp add: router_step_def OpRoute)
      then show ?thesis using IH by (simp add: run [unfolded OpRoute] OpRoute r' rc)
    next
      case (err x)
      then show ?thesis using IH route_rejected [OF err] by (simp add: run [unfolded OpRoute] OpRoute router_step_def)
    qed
  next
    case (OpDrain c)
    then show ?thesis
      using IH Cons.prems(1)
      by (auto simp: run [unfolded OpDrain] router_step_def drain_result drain_pending split: if_splits)
  qed
qed

end

section \<open>The in-memory router meets the contract\<close>

definition imr_clients :: "in_memory_router \<Rightarrow> client_id set" where
  "imr_clients r = dom (outboxes r)"

definition imr_pending :: "in_memory_router \<Rightarrow> client_id \<Rightarrow> wire_event list" where
  "imr_pending r c = (case outboxes r c of None \<Rightarrow> [] | Some q \<Rightarrow> q)"

lemmas in_memory_defs =
  in_memory_message_router_def in_memory_connect_def in_memory_disconnect_def in_memory_route_def
  in_memory_drain_outbox_def imr_clients_def imr_pending_def

lemma in_memory_route_rejected:
  assumes "route_outcome c e (imr_clients r) = Err x"
  shows "in_memory_route c e r = (Err x, r)"
  using assms
  by (auto simp: route_outcome_def in_memory_defs Let_def dom_def
      split: if_splits result.splits option.splits)

lemma in_memory_route_accepted:
  assumes "route_outcome c e (imr_clients r) = Ok rcpt"
  shows "fst (in_memory_route c e r) = Ok ()"
    and "imr_clients (snd (in_memory_route c e r)) = imr_clients r"
    and "imr_pending (snd (in_memory_route c e r)) d = imr_pending r d @ enqueued c e rcpt d"
  using assms
  by (auto simp: route_outcome_Ok_iff in_memory_defs enqueued_def Let_def
      split: option.splits)

interpretation imr: relay_router in_memory_message_router imr_clients imr_pending
proof
  fix c d r e x rcpt
  show "imr_clients (snd (mr_route in_memory_message_router c e r)) = imr_clients r"
    by (cases rule: route_outcome_cases [of c e "imr_clients r"])
      (simp_all add: in_memory_message_router_def in_memory_route_rejected in_memory_route_accepted)
  show "mr_route in_memory_message_router c e r = (Err x, r)"
    if "route_outcome c e (imr_clients r) = Err x"
    using that by (simp add: in_memory_message_router_def in_memory_route_rejected)
  assume "route_outcome c e (imr_clients r) = Ok rcpt"
  note ok = in_memory_route_accepted [OF this]
  show "fst (mr_route in_memory_message_router c e r) = Ok ()"
    "imr_pending (snd (mr_route in_memory_message_router c e r)) d =
       imr_pending r d @ enqueued c e rcpt d"
    using ok by (simp_all add: in_memory_message_router_def)
qed (auto simp: in_memory_defs Let_def fun_eq_iff split: option.splits)

end
