(* ===== verification/Server.thy ===== *)
theory Server
  imports Router Crates
begin

text \<open>
  The WebSocket relay, \<open>crates/chat-server/src/ws.rs\<close>. The first part translates the functions of
  the file as they run without interference. The second part is the connection task of
  \<open>handle_socket\<close> as a program with explicit control points: one step per lock section, channel
  operation or await, so that the steps of many connections interleave as they do on a
  multi-threaded runtime.

  Every connection task creates exactly one pair of channels, so a \<open>ClientHandle\<close> (and each of its
  clones) is the number of the task that created it, and the state of the channels is kept in a
  store indexed by that number. Log output has no effect on the model.
\<close>

section \<open>State\<close>

definition MAX_EVENT_BYTES :: nat where
  "MAX_EVENT_BYTES = 64 * 1024"

definition OUTBOX_CAPACITY :: nat where
  "OUTBOX_CAPACITY = 256"

type_synonym client_handle = nat

text \<open>The two channels of a handle: queued events, whether the receiver lives, close requests.\<close>

record channel =
  ch_events :: "wire_event list"
  ch_receiver :: bool
  ch_close :: nat

record ('r, 'h, 'a) server_state =
  ss_router :: 'r
  ss_hook :: 'h
  ss_auth :: 'a
  ss_connections :: "client_id \<rightharpoonup> client_handle"
  ss_channels :: "client_handle \<Rightarrow> channel"

definition channel_new :: channel where
  "channel_new = \<lparr>ch_events = [], ch_receiver = True, ch_close = 0\<rparr>"

definition server_state_new :: "'r \<Rightarrow> 'h \<Rightarrow> 'a \<Rightarrow> ('r, 'h, 'a) server_state" where
  "server_state_new router hook auth =
     \<lparr>ss_router = router, ss_hook = hook, ss_auth = auth, ss_connections = Map.empty,
      ss_channels = (\<lambda>_. channel_new)\<rparr>"

text \<open>The builder \<open>WsServer\<close>: its listener is a socket, the rest chooses the three providers.\<close>

record ('l, 'r, 'h, 'a) ws_server =
  ws_listener :: 'l
  ws_router :: 'r
  ws_hook :: 'h
  ws_auth :: 'a

definition ws_server_new :: "'l \<Rightarrow> ('l, in_memory_router, unit, unit) ws_server" where
  "ws_server_new listener =
     \<lparr>ws_listener = listener, ws_router = in_memory_router_default, ws_hook = (), ws_auth = ()\<rparr>"

definition with_router :: "'r2 \<Rightarrow> ('l, 'r, 'h, 'a) ws_server \<Rightarrow> ('l, 'r2, 'h, 'a) ws_server" where
  "with_router router self =
     \<lparr>ws_listener = ws_listener self, ws_router = router, ws_hook = ws_hook self,
      ws_auth = ws_auth self\<rparr>"

definition with_hook :: "'h2 \<Rightarrow> ('l, 'r, 'h, 'a) ws_server \<Rightarrow> ('l, 'r, 'h2, 'a) ws_server" where
  "with_hook hook self =
     \<lparr>ws_listener = ws_listener self, ws_router = ws_router self, ws_hook = hook,
      ws_auth = ws_auth self\<rparr>"

definition with_auth_provider ::
  "'a2 \<Rightarrow> ('l, 'r, 'h, 'a) ws_server \<Rightarrow> ('l, 'r, 'h, 'a2) ws_server" where
  "with_auth_provider auth self =
     \<lparr>ws_listener = ws_listener self, ws_router = ws_router self, ws_hook = ws_hook self,
      ws_auth = auth\<rparr>"

text \<open>The state \<open>run\<close> builds before it hands the listener to the HTTP framework.\<close>

definition ws_server_run :: "('l, 'r, 'h, 'a) ws_server \<Rightarrow> ('r, 'h, 'a) server_state" where
  "ws_server_run self = server_state_new (ws_router self) (ws_hook self) (ws_auth self)"

definition serve :: "'l \<Rightarrow> (in_memory_router, unit, unit) server_state" where
  "serve listener = ws_server_run (ws_server_new listener)"

definition serve_with_router :: "'l \<Rightarrow> 'r \<Rightarrow> ('r, unit, unit) server_state" where
  "serve_with_router listener router = ws_server_run (with_router router (ws_server_new listener))"

definition serve_with_router_and_hook :: "'l \<Rightarrow> 'r \<Rightarrow> 'h \<Rightarrow> ('r, 'h, unit) server_state" where
  "serve_with_router_and_hook listener router hook =
     ws_server_run (with_hook hook (with_router router (ws_server_new listener)))"

section \<open>Channels\<close>

text \<open>\<open>try_send\<close> on the bounded channel fails when it is full or its receiver is gone.\<close>

definition try_send ::
  "client_handle \<Rightarrow> wire_event \<Rightarrow> ('r, 'h, 'a) server_state
    \<Rightarrow> bool \<times> ('r, 'h, 'a) server_state" where
  "try_send h event st =
     (let ch = ss_channels st h in
      if ch_receiver ch \<and> length (ch_events ch) < OUTBOX_CAPACITY
      then (True, st\<lparr>ss_channels := (ss_channels st)(h := ch\<lparr>ch_events := ch_events ch @ [event]\<rparr>)\<rparr>)
      else (False, st))"

definition close_send :: "client_handle \<Rightarrow> ('r, 'h, 'a) server_state \<Rightarrow> ('r, 'h, 'a) server_state" where
  "close_send h st =
     (let ch = ss_channels st h in
      st\<lparr>ss_channels := (ss_channels st)(h := ch\<lparr>ch_close := Suc (ch_close ch)\<rparr>)\<rparr>)"

section \<open>Error texts\<close>

primrec router_error_debug :: "router_error \<Rightarrow> ustring" where
  "router_error_debug ClientAlreadyConnected = str ''ClientAlreadyConnected''"
| "router_error_debug ClientNotConnected = str ''ClientNotConnected''"
| "router_error_debug SenderMismatch = str ''SenderMismatch''"
| "router_error_debug UnknownRecipient = str ''UnknownRecipient''"
| "router_error_debug UnsupportedEvent = str ''UnsupportedEvent''"

primrec auth_error_display :: "auth_error \<Rightarrow> ustring" where
  "auth_error_display ConnectDenied = str ''client connect was denied''"

definition routing_error_event :: "router_error \<Rightarrow> wire_event" where
  "routing_error_event error =
     ErrorEvent (relay_code_of_router_error error) (str ''routing failed: '' @ router_error_debug error)"

definition rejection_event :: "auth_error \<Rightarrow> wire_event" where
  "rejection_event error =
     ErrorEvent (relay_code_of_auth_error error) (str ''connect rejected: '' @ auth_error_display error)"

text \<open>The texts \<open>reject_connection\<close> writes to the socket.\<close>

definition reject_connection :: "crates \<Rightarrow> auth_error \<Rightarrow> ustring list" where
  "reject_connection L error = (case json_of_wire L (rejection_event error) of
      Some text \<Rightarrow> [text] | None \<Rightarrow> [])"

section \<open>Reading the socket\<close>

text \<open>What \<open>socket_receiver.next()\<close> yields.\<close>

datatype ws_input =
    TextFrame ustring
  | OtherFrame
  | ProtocolError
  | EndOfStream

datatype hello_outcome = HelloRetry | HelloFrom client_id | HelloAbort

definition hello_frame :: "crates \<Rightarrow> ws_input \<Rightarrow> hello_outcome" where
  "hello_frame L input = (case input of
      TextFrame text \<Rightarrow>
        (case wire_of_json L text of
           Some (ClientHello client_id _) \<Rightarrow> HelloFrom client_id
         | _ \<Rightarrow> HelloRetry)
    | OtherFrame \<Rightarrow> HelloRetry
    | ProtocolError \<Rightarrow> HelloAbort
    | EndOfStream \<Rightarrow> HelloAbort)"

text \<open>The whole loop on a finite stream, with the frames it leaves unread.\<close>

fun read_client_hello :: "crates \<Rightarrow> ws_input list \<Rightarrow> client_id option \<times> ws_input list" where
  "read_client_hello L [] = (None, [])"
| "read_client_hello L (input # rest) = (case hello_frame L input of
      HelloFrom client_id \<Rightarrow> (Some client_id, rest)
    | HelloAbort \<Rightarrow> (None, rest)
    | HelloRetry \<Rightarrow> read_client_hello L rest)"

datatype frame_outcome = FrameContinue | FrameBreak | FrameEvent wire_event

definition loop_frame :: "crates \<Rightarrow> ws_input \<Rightarrow> frame_outcome" where
  "loop_frame L input = (case input of
      TextFrame text \<Rightarrow>
        (case wire_of_json L text of Some event \<Rightarrow> FrameEvent event | None \<Rightarrow> FrameContinue)
    | OtherFrame \<Rightarrow> FrameContinue
    | ProtocolError \<Rightarrow> FrameBreak
    | EndOfStream \<Rightarrow> FrameBreak)"

section \<open>Registration\<close>

definition register_client ::
  "'r message_router \<Rightarrow> 'h event_hook \<Rightarrow> client_id \<Rightarrow> client_handle \<Rightarrow> ('r, 'h, 'a) server_state
    \<Rightarrow> (unit, unit) result \<times> ('r, 'h, 'a) server_state" where
  "register_client R H client_id handle state =
     (let (connected, router) = mr_connect R client_id (ss_router state);
          state = state\<lparr>ss_router := router\<rparr>
      in if \<not> is_ok connected then (Err (), state)
         else
           let state = state\<lparr>ss_connections := (ss_connections state)(client_id \<mapsto> handle)\<rparr>;
               state = state\<lparr>ss_hook := eh_on_connect H client_id (ss_hook state)\<rparr>
           in (Ok (), state))"

definition unregister_client ::
  "'r message_router \<Rightarrow> 'h event_hook \<Rightarrow> client_id \<Rightarrow> ('r, 'h, 'a) server_state
    \<Rightarrow> ('r, 'h, 'a) server_state" where
  "unregister_client R H client_id state =
     (let state = state\<lparr>ss_connections := (ss_connections state)(client_id := None)\<rparr>;
          (disconnected, router) = mr_disconnect R client_id (ss_router state);
          state = state\<lparr>ss_router := router\<rparr>
      in if is_ok disconnected
         then state\<lparr>ss_hook := eh_on_disconnect H client_id (ss_hook state)\<rparr>
         else state)"

section \<open>Routing and delivery\<close>

fun should_report_routing_error :: "wire_event \<Rightarrow> router_error \<Rightarrow> bool" where
  "should_report_routing_error (PeerKey from to public_key) UnknownRecipient = False"
| "should_report_routing_error event error = True"

fun delivery_targets :: "client_id \<Rightarrow> wire_event \<Rightarrow> client_id list" where
  "delivery_targets connection_id (PeerKey from to public_key) = [to]"
| "delivery_targets connection_id (EncryptedMessage envelope) =
     [env_recipient envelope, connection_id]"
| "delivery_targets connection_id (ClientHello client_id public_key) = []"
| "delivery_targets connection_id (Ack message_id) = []"
| "delivery_targets connection_id (ErrorEvent code message) = []"

record outbox_delivery =
  od_handle :: client_handle
  od_client :: client_id
  od_events :: "wire_event list"

text \<open>The section of \<open>flush_outboxes\<close> that holds both locks.\<close>

fun collect_deliveries ::
  "'r message_router \<Rightarrow> (client_id \<rightharpoonup> client_handle) \<Rightarrow> client_id list \<Rightarrow> 'r
    \<Rightarrow> outbox_delivery list \<times> 'r" where
  "collect_deliveries R connections [] router = ([], router)"
| "collect_deliveries R connections (client_id # targets) router =
     (case connections client_id of
        None \<Rightarrow> collect_deliveries R connections targets router
      | Some handle \<Rightarrow>
          let (events, router) = mr_drain_outbox R client_id router;
              (deliveries, router) = collect_deliveries R connections targets router
          in (if events \<noteq> []
              then \<lparr>od_handle = handle, od_client = client_id, od_events = events\<rparr> # deliveries
              else deliveries, router))"

text \<open>One delivery: the first refused event closes the connection and drops the rest.\<close>

fun deliver_events ::
  "client_handle \<Rightarrow> client_id \<Rightarrow> wire_event list \<Rightarrow> ('r, 'h, 'a) server_state
    \<Rightarrow> ('r, 'h, 'a) server_state" where
  "deliver_events h client_id [] state = state"
| "deliver_events h client_id (event # events) state =
     (let (sent, state) = try_send h event state in
      if sent then deliver_events h client_id events state
      else
        let state = close_send h state
        in state\<lparr>ss_connections := (ss_connections state)(client_id := None)\<rparr>)"

definition deliver_all ::
  "outbox_delivery list \<Rightarrow> ('r, 'h, 'a) server_state \<Rightarrow> ('r, 'h, 'a) server_state" where
  "deliver_all deliveries state =
     fold (\<lambda>d. deliver_events (od_handle d) (od_client d) (od_events d)) deliveries state"

definition flush_outboxes ::
  "'r message_router \<Rightarrow> client_id list \<Rightarrow> ('r, 'h, 'a) server_state \<Rightarrow> ('r, 'h, 'a) server_state" where
  "flush_outboxes R targets state =
     (let (deliveries, router) = collect_deliveries R (ss_connections state) targets (ss_router state)
      in deliver_all deliveries (state\<lparr>ss_router := router\<rparr>))"

definition route_and_flush ::
  "'r message_router \<Rightarrow> 'h event_hook \<Rightarrow> client_id \<Rightarrow> wire_event \<Rightarrow> ('r, 'h, 'a) server_state
    \<Rightarrow> (unit, router_error) result \<times> ('r, 'h, 'a) server_state" where
  "route_and_flush R H connection_id event state =
     (let (route_result, router) = mr_route R connection_id event (ss_router state);
          state = state\<lparr>ss_router := router\<rparr>
      in case route_result of
           Ok _ \<Rightarrow>
             let state = state\<lparr>ss_hook := eh_on_route_accepted H connection_id event (ss_hook state)\<rparr>
             in (Ok (), flush_outboxes R (delivery_targets connection_id event) state)
         | Err error \<Rightarrow>
             (Err error,
              state\<lparr>ss_hook := eh_on_route_rejected H connection_id event error (ss_hook state)\<rparr>)
         | Panic \<Rightarrow> (Panic, state))"

section \<open>The connection task\<close>

text \<open>
  Control points of \<open>handle_socket\<close>. From \<open>InsertConnection\<close> to \<open>DisconnectRouter\<close> the task is
  registered in the router under the client id it carries. \<open>Finished\<close> remembers the id the task had,
  if it got that far.
\<close>

datatype task_pc =
    Unopened
  | ReadHello
  | Authorize client_id
  | ConnectRouter client_id
  | InsertConnection client_id
  | HookConnect client_id
  | SelectLoop client_id
  | RouteEvent client_id wire_event
  | HookAccepted client_id wire_event
  | HookRejected client_id wire_event router_error
  | CollectOutboxes client_id wire_event
  | Deliver client_id "outbox_delivery list"
  | RemoveSlow client_id outbox_delivery "outbox_delivery list"
  | ReportError client_id wire_event router_error
  | RemoveConnection client_id
  | DisconnectRouter client_id
  | HookDisconnect client_id
  | AbortWriter client_id
  | Finished "client_id option"

text \<open>The spawned writer: waiting for an event, sending a text, or not running.\<close>

datatype writer_pc = WriterOff | WriterRecv | WriterSend ustring

record ('r, 'h, 'a) relay =
  rl_state :: "('r, 'h, 'a) server_state"
  rl_task :: "nat \<Rightarrow> task_pc"
  rl_writer :: "nat \<Rightarrow> writer_pc"
  rl_sent :: "nat \<Rightarrow> ustring list"

definition relay_new :: "('r, 'h, 'a) server_state \<Rightarrow> ('r, 'h, 'a) relay" where
  "relay_new st =
     \<lparr>rl_state = st, rl_task = (\<lambda>_. Unopened), rl_writer = (\<lambda>_. WriterOff), rl_sent = (\<lambda>_. [])\<rparr>"

text \<open>
  The steps of a task that need nothing from outside. Control points that wait (\<open>Unopened\<close>,
  \<open>ReadHello\<close>, \<open>SelectLoop\<close>, \<open>Finished\<close>) stay where they are. A provider that panics ends the task.
\<close>

definition task_step ::
  "'r message_router \<Rightarrow> 'h event_hook \<Rightarrow> 'a auth_provider \<Rightarrow> crates \<Rightarrow> nat
    \<Rightarrow> task_pc \<times> ustring list \<times> ('r, 'h, 'a) server_state
    \<Rightarrow> task_pc \<times> ustring list \<times> ('r, 'h, 'a) server_state" where
  "task_step R H A L t cfg = (let (pc, sent, state) = cfg in case pc of
      Authorize c \<Rightarrow>
        (let (authorized, auth) = ap_authorize_connect A c (ss_auth state);
             state = state\<lparr>ss_auth := auth\<rparr>
         in case authorized of
              Ok _ \<Rightarrow> (ConnectRouter c, sent,
                     state\<lparr>ss_channels := (ss_channels state)(t := channel_new)\<rparr>)
            | Err error \<Rightarrow> (Finished (Some c), sent @ reject_connection L error, state)
            | Panic \<Rightarrow> (Finished (Some c), sent, state))
    | ConnectRouter c \<Rightarrow>
        (let (connected, router) = mr_connect R c (ss_router state);
             state = state\<lparr>ss_router := router\<rparr>
         in if \<not> is_ok connected
            then (Finished (Some c), sent,
                  state\<lparr>ss_channels := (ss_channels state)(t := (ss_channels state t)\<lparr>ch_receiver := False\<rparr>)\<rparr>)
            else (InsertConnection c, sent, state))
    | InsertConnection c \<Rightarrow>
        (HookConnect c, sent, state\<lparr>ss_connections := (ss_connections state)(c \<mapsto> t)\<rparr>)
    | HookConnect c \<Rightarrow>
        (SelectLoop c, sent, state\<lparr>ss_hook := eh_on_connect H c (ss_hook state)\<rparr>)
    | RouteEvent c e \<Rightarrow>
        (let (route_result, router) = mr_route R c e (ss_router state);
             state = state\<lparr>ss_router := router\<rparr>
         in case route_result of
              Ok _ \<Rightarrow> (HookAccepted c e, sent, state)
            | Err error \<Rightarrow> (HookRejected c e error, sent, state)
            | Panic \<Rightarrow> (Finished (Some c), sent, state))
    | HookAccepted c e \<Rightarrow>
        (CollectOutboxes c e, sent, state\<lparr>ss_hook := eh_on_route_accepted H c e (ss_hook state)\<rparr>)
    | HookRejected c e error \<Rightarrow>
        (if should_report_routing_error e error then ReportError c e error else SelectLoop c, sent,
         state\<lparr>ss_hook := eh_on_route_rejected H c e error (ss_hook state)\<rparr>)
    | CollectOutboxes c e \<Rightarrow>
        (let (deliveries, router) =
               collect_deliveries R (ss_connections state) (delivery_targets c e) (ss_router state)
         in (Deliver c deliveries, sent, state\<lparr>ss_router := router\<rparr>))
    | Deliver c [] \<Rightarrow> (SelectLoop c, sent, state)
    | Deliver c (d # ds) \<Rightarrow>
        (case od_events d of
           [] \<Rightarrow> (Deliver c ds, sent, state)
         | event # events \<Rightarrow>
             let (ok, state) = try_send (od_handle d) event state in
             if ok then (Deliver c (d\<lparr>od_events := events\<rparr> # ds), sent, state)
             else (RemoveSlow c d ds, sent, close_send (od_handle d) state))
    | RemoveSlow c d ds \<Rightarrow>
        (Deliver c ds, sent,
         state\<lparr>ss_connections := (ss_connections state)(od_client d := None)\<rparr>)
    | ReportError c e error \<Rightarrow>
        (SelectLoop c, sent, snd (try_send t (routing_error_event error) state))
    | RemoveConnection c \<Rightarrow>
        (DisconnectRouter c, sent, state\<lparr>ss_connections := (ss_connections state)(c := None)\<rparr>)
    | DisconnectRouter c \<Rightarrow>
        (let (disconnected, router) = mr_disconnect R c (ss_router state);
             state = state\<lparr>ss_router := router\<rparr>
         in (if is_ok disconnected then HookDisconnect c else AbortWriter c, sent, state))
    | HookDisconnect c \<Rightarrow>
        (AbortWriter c, sent, state\<lparr>ss_hook := eh_on_disconnect H c (ss_hook state)\<rparr>)
    | AbortWriter c \<Rightarrow>
        (Finished (Some c), sent,
         state\<lparr>ss_channels := (ss_channels state)(t := (ss_channels state t)\<lparr>ch_receiver := False\<rparr>)\<rparr>)
    | Unopened \<Rightarrow> (pc, sent, state)
    | ReadHello \<Rightarrow> (pc, sent, state)
    | SelectLoop c \<Rightarrow> (pc, sent, state)
    | Finished c \<Rightarrow> (pc, sent, state))"

text \<open>The writer is spawned after registration and aborted at the end.\<close>

definition writer_after :: "task_pc \<Rightarrow> writer_pc \<Rightarrow> writer_pc" where
  "writer_after pc w = (case pc of HookConnect _ \<Rightarrow> WriterRecv | AbortWriter _ \<Rightarrow> WriterOff | _ \<Rightarrow> w)"

definition run_task ::
  "'r message_router \<Rightarrow> 'h event_hook \<Rightarrow> 'a auth_provider \<Rightarrow> crates \<Rightarrow> nat
    \<Rightarrow> ('r, 'h, 'a) relay \<Rightarrow> ('r, 'h, 'a) relay" where
  "run_task R H A L t w =
     (let (pc, sent, state) = task_step R H A L t (rl_task w t, rl_sent w t, rl_state w)
      in w\<lparr>rl_state := state, rl_task := (rl_task w)(t := pc), rl_sent := (rl_sent w)(t := sent),
           rl_writer := (rl_writer w)(t := writer_after (rl_task w t) (rl_writer w t))\<rparr>)"

definition read_hello_next :: "crates \<Rightarrow> ws_input \<Rightarrow> task_pc" where
  "read_hello_next L input = (case hello_frame L input of
      HelloFrom c \<Rightarrow> Authorize c | HelloRetry \<Rightarrow> ReadHello | HelloAbort \<Rightarrow> Finished None)"

definition select_next :: "crates \<Rightarrow> client_id \<Rightarrow> ws_input \<Rightarrow> task_pc" where
  "select_next L c input = (case loop_frame L input of
      FrameContinue \<Rightarrow> SelectLoop c | FrameBreak \<Rightarrow> RemoveConnection c | FrameEvent e \<Rightarrow> RouteEvent c e)"

text \<open>
  \<open>close_receiver.recv()\<close> is ready when a close request is queued, and also when every sender is gone:
  the handle is in no connection table entry and in no delivery under way.
\<close>

fun deliveries_of :: "task_pc \<Rightarrow> outbox_delivery list" where
  "deliveries_of (Deliver c ds) = ds"
| "deliveries_of (RemoveSlow c d ds) = d # ds"
| "deliveries_of _ = []"

definition close_ready :: "nat \<Rightarrow> ('r, 'h, 'a) relay \<Rightarrow> bool" where
  "close_ready t w \<longleftrightarrow>
     0 < ch_close (ss_channels (rl_state w) t) \<or>
     t \<notin> ran (ss_connections (rl_state w)) \<and>
     (\<forall>t'. t \<notin> od_handle ` set (deliveries_of (rl_task w t')))"

definition goto :: "nat \<Rightarrow> task_pc \<Rightarrow> ('r, 'h, 'a) relay \<Rightarrow> ('r, 'h, 'a) relay" where
  "goto t pc w = w\<lparr>rl_task := (rl_task w)(t := pc)\<rparr>"

text \<open>The three moves of the writer: take an event, send its text, or fail to send it.\<close>

definition writer_recv :: "crates \<Rightarrow> nat \<Rightarrow> ('r, 'h, 'a) relay \<Rightarrow> ('r, 'h, 'a) relay" where
  "writer_recv L t w =
     (let st = rl_state w; ch = ss_channels st t in
      case ch_events ch of
        [] \<Rightarrow> w
      | event # events \<Rightarrow>
          w\<lparr>rl_state := st\<lparr>ss_channels := (ss_channels st)(t := ch\<lparr>ch_events := events\<rparr>)\<rparr>,
            rl_writer := (rl_writer w)(t := (case json_of_wire L event of
               Some text \<Rightarrow> WriterSend text | None \<Rightarrow> WriterRecv))\<rparr>)"

definition writer_send :: "nat \<Rightarrow> ustring \<Rightarrow> ('r, 'h, 'a) relay \<Rightarrow> ('r, 'h, 'a) relay" where
  "writer_send t text w =
     w\<lparr>rl_sent := (rl_sent w)(t := rl_sent w t @ [text]), rl_writer := (rl_writer w)(t := WriterRecv)\<rparr>"

definition writer_fail :: "nat \<Rightarrow> ('r, 'h, 'a) relay \<Rightarrow> ('r, 'h, 'a) relay" where
  "writer_fail t w =
     (let st = rl_state w; ch = ss_channels st t in
      w\<lparr>rl_state := st\<lparr>ss_channels := (ss_channels st)(t := ch\<lparr>ch_receiver := False\<rparr>)\<rparr>,
        rl_writer := (rl_writer w)(t := WriterOff)\<rparr>)"

text \<open>The route calls a step makes, for the history of a run.\<close>

fun route_calls :: "task_pc \<Rightarrow> router_op list" where
  "route_calls (RouteEvent c e) = [OpRoute c e]"
| "route_calls _ = []"

inductive relay_step ::
  "'r message_router \<Rightarrow> 'h event_hook \<Rightarrow> 'a auth_provider \<Rightarrow> crates
    \<Rightarrow> ('r, 'h, 'a) relay \<Rightarrow> router_op list \<Rightarrow> ('r, 'h, 'a) relay \<Rightarrow> bool" for R H A L where
  open_socket: "rl_task w t = Unopened \<Longrightarrow> relay_step R H A L w [] (goto t ReadHello w)"
| hello: "rl_task w t = ReadHello \<Longrightarrow> relay_step R H A L w [] (goto t (read_hello_next L i) w)"
| input: "rl_task w t = SelectLoop c \<Longrightarrow> relay_step R H A L w [] (goto t (select_next L c i) w)"
| closing: "rl_task w t = SelectLoop c \<Longrightarrow> close_ready t w \<Longrightarrow>
    relay_step R H A L w [] (goto t (RemoveConnection c) w)"
| internal: "relay_step R H A L w (route_calls (rl_task w t)) (run_task R H A L t w)"
| recv: "rl_writer w t = WriterRecv \<Longrightarrow> relay_step R H A L w [] (writer_recv L t w)"
| send: "rl_writer w t = WriterSend text \<Longrightarrow> relay_step R H A L w [] (writer_send t text w)"
| send_fail: "rl_writer w t = WriterSend text \<Longrightarrow> relay_step R H A L w [] (writer_fail t w)"

text \<open>Reachability from a start, with the route calls made on the way, latest first.\<close>

inductive relay_reach ::
  "'r message_router \<Rightarrow> 'h event_hook \<Rightarrow> 'a auth_provider \<Rightarrow> crates
    \<Rightarrow> ('r, 'h, 'a) relay \<Rightarrow> router_op list \<Rightarrow> ('r, 'h, 'a) relay \<Rightarrow> bool" for R H A L w0 where
  reach_start: "relay_reach R H A L w0 [] w0"
| reach_step: "relay_reach R H A L w0 ops w \<Longrightarrow> relay_step R H A L w calls w' \<Longrightarrow>
    relay_reach R H A L w0 (calls @ ops) w'"

end
