(* ===== verification/Server_Delivery.thy ===== *)
theory Server_Delivery
  imports Server_Props
begin

text \<open>
  What the relay hands to its clients. Under every interleaving the queue and the socket of a
  connection only carry error events and events that some connection routed, under its own name, to
  the client of this connection. Run without interference, the control points of the connection task
  compute the function \<open>route_and_flush\<close>, and an accepted message reaches the queue of its recipient.
\<close>

section \<open>Names and queues along the steps of a task\<close>

lemma task_step_ident:
  assumes "task_step R H A L t (pc, sent, st) = (pc', sent', st')"
  shows "ident pc' = ident pc"
proof (cases pc)
  case (Deliver c ds)
  then show ?thesis
    using assms by (cases ds) (auto simp: task_step_def split: list.splits prod.splits if_splits)
qed (use assms in \<open>auto simp: task_step_def Let_def split: prod.splits result.splits if_splits\<close>)

text \<open>An event that a step may add to the queue \<open>h\<close>.\<close>

definition step_adds :: "nat \<Rightarrow> task_pc \<Rightarrow> client_handle \<Rightarrow> wire_event \<Rightarrow> bool" where
  "step_adds t pc h e \<longleftrightarrow>
     (\<exists>d \<in> set (deliveries_of pc). od_handle d = h \<and> e \<in> set (od_events d)) \<or>
     h = t \<and> (\<exists>x. e = routing_error_event x)"

text \<open>An attempt to queue an event adds it at the end of its queue or changes no queue.\<close>

lemma try_send_queue:
  obtains (same) "ch_events (ss_channels (snd (try_send k e st)) h) = ch_events (ss_channels st h)"
    | (added) "h = k" and "ch_events (ss_channels (snd (try_send k e st)) h) = ch_events (ss_channels st h) @ [e]"
        and "length (ch_events (ss_channels st h)) < OUTBOX_CAPACITY"
  using try_send_events [of k e st h] by (cases "h = k \<and> fst (try_send k e st)") (auto simp: try_send_ok_iff)

lemma deliver_step_queue:
  assumes "task_step R H A L t (Deliver c ds, sent, st) = (pc', sent', st')"
  shows "ch_events (ss_channels st' h) = ch_events (ss_channels st h) \<or>
    (\<exists>d e es. ds \<noteq> [] \<and> d = hd ds \<and> od_events d = e # es \<and>
      ch_events (ss_channels st' h) = ch_events (ss_channels (snd (try_send (od_handle d) e st)) h))"
proof (cases ds)
  case (Cons d ds')
  then show ?thesis
    using assms by (cases "od_events d") (auto simp: task_step_def split: prod.splits if_splits)
qed (use assms in \<open>auto simp: task_step_def\<close>)

lemma task_step_queue:
  assumes "task_step R H A L t (pc, sent, st) = (pc', sent', st')"
  obtains (same) "ch_events (ss_channels st' h) = ch_events (ss_channels st h)"
    | (fresh) "ch_events (ss_channels st' h) = []"
    | (added) e where "ch_events (ss_channels st' h) = ch_events (ss_channels st h) @ [e]"
        and "length (ch_events (ss_channels st h)) < OUTBOX_CAPACITY" and "step_adds t pc h e"
proof (cases pc)
  case (Deliver c ds)
  from deliver_step_queue [OF assms [unfolded Deliver], of h] show thesis
  proof (elim disjE exE conjE)
    fix d e es
    assume d: "ds \<noteq> []" "d = hd ds" "od_events d = e # es"
      and ev: "ch_events (ss_channels st' h) = ch_events (ss_channels (snd (try_send (od_handle d) e st)) h)"
    have adds: "step_adds t pc (od_handle d) e"
      using Deliver d by (cases ds) (auto simp: step_adds_def)
    show thesis
      by (rule try_send_queue [of "od_handle d" e st h]) (use ev same added adds in simp_all)
  qed (rule same)
next
  case (ReportError c ev x)
  let ?e = "routing_error_event x"
  have st': "st' = snd (try_send t ?e st)" using assms ReportError by (auto simp: task_step_def)
  have adds: "step_adds t pc t ?e" by (auto simp: step_adds_def)
  show thesis by (rule try_send_queue [of t ?e st h]) (use st' same added adds in simp_all)
next
  case (Authorize c)
  then show thesis
    using assms same fresh
    by (cases "h = t")
      (auto simp: task_step_def channel_new_def Let_def split: prod.splits result.splits)
qed (use assms same in \<open>auto simp: task_step_def Let_def split: prod.splits result.splits if_splits\<close>)

section \<open>Capacity\<close>

definition within_capacity :: "('r, 'h, 'a) relay \<Rightarrow> bool" where
  "within_capacity w \<longleftrightarrow> (\<forall>t. length (ch_events (ss_channels (rl_state w) t)) \<le> OUTBOX_CAPACITY)"

lemma in_set_tl: "x \<in> set (tl xs) \<Longrightarrow> x \<in> set xs"
  by (cases xs) simp_all

lemma writer_recv_queue:
  "ch_events (ss_channels (rl_state (writer_recv L t w)) h) =
     (if h = t then tl (ch_events (ss_channels (rl_state w) h)) else ch_events (ss_channels (rl_state w) h))"
  by (simp add: writer_recv_def Let_def split: list.split)

lemma writer_fail_queue [simp]:
  "ch_events (ss_channels (rl_state (writer_fail t w)) h) = ch_events (ss_channels (rl_state w) h)"
  by (simp add: writer_fail_def Let_def)

lemma within_capacity_step:
  assumes "relay_step R H A L w calls w'" and "within_capacity w"
  shows "within_capacity w'"
  using assms
proof (induction rule: relay_step.induct)
  case (internal w t)
  obtain pc' sent' st' where s:
    "task_step R H A L t (rl_task w t, rl_sent w t, rl_state w) = (pc', sent', st')"
    by (metis prod_cases3)
  have "length (ch_events (ss_channels st' h)) \<le> OUTBOX_CAPACITY" for h
    by (rule task_step_queue [OF s, of h]) (use internal in \<open>simp_all add: within_capacity_def\<close>)
  then show ?case by (simp add: within_capacity_def s)
next
  case (recv w t)
  then show ?case
    by (auto simp: within_capacity_def writer_recv_queue intro: le_trans [OF diff_le_self])
qed (simp_all add: within_capacity_def)

lemma relay_capacity:
  assumes "relay_reach R H A L w0 ops w" and "within_capacity w0"
  shows "within_capacity w"
  using assms by (induction rule: relay_reach.induct) (auto intro: within_capacity_step)

section \<open>Genuine deliveries\<close>

text \<open>What a connection at control point \<open>pc\<close> may be handed, after the given route calls.\<close>

definition legit :: "router_op list \<Rightarrow> task_pc \<Rightarrow> wire_event \<Rightarrow> bool" where
  "legit ops pc e \<longleftrightarrow>
     (\<exists>c. ident pc = Some c \<and> genuine_for c ops e) \<or>
     (\<exists>x. e = routing_error_event x) \<or> (\<exists>x. e = rejection_event x)"

definition outboxes_genuine ::
  "('r \<Rightarrow> client_id set) \<Rightarrow> ('r \<Rightarrow> client_id \<Rightarrow> wire_event list) \<Rightarrow> router_op list \<Rightarrow> 'r \<Rightarrow> bool" where
  "outboxes_genuine clients pending ops r \<longleftrightarrow>
     (\<forall>c \<in> clients r. \<forall>e \<in> set (pending r c). genuine_for c ops e)"

definition deliveries_genuine :: "router_op list \<Rightarrow> ('r, 'h, 'a) relay \<Rightarrow> bool" where
  "deliveries_genuine ops w \<longleftrightarrow>
     (\<forall>t. \<forall>d \<in> set (deliveries_of (rl_task w t)).
        ident (rl_task w (od_handle d)) = Some (od_client d) \<and>
        (\<forall>e \<in> set (od_events d). genuine_for (od_client d) ops e))"

definition queues_genuine :: "router_op list \<Rightarrow> ('r, 'h, 'a) relay \<Rightarrow> bool" where
  "queues_genuine ops w \<longleftrightarrow>
     (\<forall>t. \<forall>e \<in> set (ch_events (ss_channels (rl_state w) t)). legit ops (rl_task w t) e)"

definition texts_of :: "nat \<Rightarrow> ('r, 'h, 'a) relay \<Rightarrow> ustring set" where
  "texts_of t w = set (rl_sent w t) \<union> (case rl_writer w t of WriterSend x \<Rightarrow> {x} | _ \<Rightarrow> {})"

definition sockets_genuine :: "crates \<Rightarrow> router_op list \<Rightarrow> ('r, 'h, 'a) relay \<Rightarrow> bool" where
  "sockets_genuine L ops w \<longleftrightarrow>
     (\<forall>t. \<forall>x \<in> texts_of t w. \<exists>e. json_of_wire L e = Some x \<and> legit ops (rl_task w t) e)"

lemma legit_mono:
  "legit ops pc e \<Longrightarrow> set ops \<subseteq> set ops' \<Longrightarrow> (\<And>c. ident pc = Some c \<Longrightarrow> ident pc' = Some c) \<Longrightarrow>
     legit ops' pc' e"
  unfolding legit_def by (blast intro: genuine_for_mono)

text \<open>A connection never changes its name.\<close>

lemma relay_step_ident:
  assumes "relay_step R H A L w calls w'" and "ident (rl_task w t) = Some c"
  shows "ident (rl_task w' t) = Some c"
  using assms
proof (induction rule: relay_step.induct)
  case (internal w t')
  obtain pc' sent' st' where s:
    "task_step R H A L t' (rl_task w t', rl_sent w t', rl_state w) = (pc', sent', st')"
    by (metis prod_cases3)
  then show ?case using internal task_step_ident [OF s] by (auto simp: s)
qed (auto simp: fun_upd_apply split: if_splits)

lemma task_step_deliveries:
  assumes "task_step R H A L t (pc, sent, st) = (pc', sent', st')" and "d \<in> set (deliveries_of pc')"
  obtains (old) d' where "d' \<in> set (deliveries_of pc)" and "od_handle d = od_handle d'"
      and "od_client d = od_client d'" and "set (od_events d) \<subseteq> set (od_events d')"
    | (collected) c e where "pc = CollectOutboxes c e"
      and "d \<in> set (fst (collect_deliveries R (ss_connections st) (delivery_targets c e) (ss_router st)))"
proof (cases pc)
  case (CollectOutboxes c e)
  then show thesis
    using assms collected by (auto simp: task_step_def split: prod.splits)
next
  case (RemoveSlow c d' ds)
  then show thesis using assms old [of d] by (auto simp: task_step_def)
next
  case (Deliver c ds)
  show thesis
  proof (cases ds)
    case Nil
    then show thesis using assms Deliver by (auto simp: task_step_def)
  next
    case (Cons d0 ds')
    show thesis
    proof (cases "od_events d0")
      case Nil
      then show thesis using assms Deliver Cons old [of d] by (auto simp: task_step_def)
    next
      case ev: (Cons e es)
      have "d = d0\<lparr>od_events := es\<rparr> \<or> d = d0 \<or> d \<in> set ds'"
        using assms Deliver Cons ev by (auto simp: task_step_def split: prod.splits if_splits)
      then show thesis
      proof (elim disjE)
        assume "d = d0\<lparr>od_events := es\<rparr>"
        then show thesis using old [of d0] Deliver Cons ev by auto
      qed (use old [of d] Deliver Cons in auto)
    qed
  qed
qed (use assms in \<open>auto simp: task_step_def Let_def split: prod.splits result.splits if_splits\<close>)

lemma task_step_router:
  assumes "task_step R H A L t (pc, sent, st) = (pc', sent', st')"
  obtains (same) "ss_router st' = ss_router st"
    | (connect) c where "ss_router st' = snd (mr_connect R c (ss_router st))"
    | (disconnect) c where "ss_router st' = snd (mr_disconnect R c (ss_router st))"
    | (route) c e where "pc = RouteEvent c e" and "ss_router st' = snd (mr_route R c e (ss_router st))"
    | (collect) ts where "ss_router st' = snd (collect_deliveries R (ss_connections st) ts (ss_router st))"
proof (cases pc)
  case (Deliver c ds)
  have "ss_router st' = ss_router st"
  proof (cases ds)
    case Nil
    then show ?thesis using assms Deliver by (auto simp: task_step_def)
  next
    case (Cons d ds')
    have "ss_router s = ss_router st" if "try_send h e st = (b, s)" for h e b s
      using try_send_frame(1) [of h e st] that by simp
    then show ?thesis using assms Deliver Cons
      by (auto simp: task_step_def split: list.splits if_splits prod.splits)
  qed
  then show thesis by (rule same)
next
  case (ConnectRouter c)
  then have "ss_router st' = snd (mr_connect R c (ss_router st))"
    using assms by (auto simp: task_step_def Let_def split: prod.splits if_splits)
  then show thesis by (rule connect)
next
  case (DisconnectRouter c)
  then have "ss_router st' = snd (mr_disconnect R c (ss_router st))"
    using assms by (auto simp: task_step_def split: prod.splits if_splits)
  then show thesis by (rule disconnect)
next
  case (RouteEvent c e)
  then have "ss_router st' = snd (mr_route R c e (ss_router st))"
    using assms by (auto simp: task_step_def Let_def split: prod.splits result.splits)
  with RouteEvent show thesis by (rule route)
next
  case (CollectOutboxes c e)
  then have "ss_router st' =
      snd (collect_deliveries R (ss_connections st) (delivery_targets c e) (ss_router st))"
    using assms by (auto simp: task_step_def split: prod.splits)
  then show thesis by (rule collect)
qed (use assms same in \<open>auto simp: task_step_def Let_def split: prod.splits result.splits if_splits\<close>)

context relay_router
begin

lemma collect_all:
  assumes "\<forall>c \<in> clients r. \<forall>e \<in> set (pending r c). P c e"
  shows "(\<forall>d \<in> set (fst (collect_deliveries R conns ts r)). conns (od_client d) = Some (od_handle d) \<and>
            (\<forall>e \<in> set (od_events d). P (od_client d) e)) \<and>
         (\<forall>c \<in> clients r. \<forall>e \<in> set (pending (snd (collect_deliveries R conns ts r)) c). P c e)"
  using assms
proof (induction ts arbitrary: r)
  case (Cons c ts)
  show ?case
  proof (cases "conns c")
    case (Some h)
    obtain evs r1 where d: "mr_drain_outbox R c r = (evs, r1)" by fastforce
    have r1: "clients r1 = clients r" "evs = (if c \<in> clients r then pending r c else [])"
      "pending r1 = (if c \<in> clients r then (pending r)(c := []) else pending r)"
      using drain_clients [of c r] drain_result [of c r] drain_pending [of c r] by (simp_all add: d)
    have evs: "\<forall>e \<in> set evs. P c e" using Cons.prems r1(2) by simp
    have "\<forall>c \<in> clients r1. \<forall>e \<in> set (pending r1 c). P c e"
      using Cons.prems by (simp add: r1(1,3))
    note IH = Cons.IH [OF this]
    show ?thesis
      using IH evs by (auto simp: Some d r1(1) split: prod.splits)
  next
    case None
    then show ?thesis using Cons by simp
  qed
qed simp

lemma outboxes_genuine_step:
  assumes s: "task_step R H A L t (pc, sent, st) = (pc', sent', st')"
    and g: "outboxes_genuine clients pending ops (ss_router st)"
  shows "outboxes_genuine clients pending (route_calls pc @ ops) (ss_router st')"
proof -
  have g': "outboxes_genuine clients pending (route_calls pc @ ops) (ss_router st)"
    using g by (auto simp: outboxes_genuine_def intro: genuine_for_mono [where ops = ops])
  from s show ?thesis
  proof (cases rule: task_step_router)
    case same
    then show ?thesis using g' by simp
  next
    case (connect c)
    show ?thesis
    proof (cases "c \<in> clients (ss_router st)")
      case True
      then show ?thesis using g' by (simp add: connect connect_dup)
    next
      case False
      then show ?thesis
        using g' by (auto simp: outboxes_genuine_def connect connect_clients connect_pending)
    qed
  next
    case (disconnect c)
    then show ?thesis
      using g' by (auto simp: outboxes_genuine_def disconnect_clients disconnect_pending)
  next
    case (route c e)
    show ?thesis
    proof (cases rule: route_outcome_cases [of c e "clients (ss_router st)"])
      case (ok rcpt)
      then have "recipient_for c e = Ok rcpt" by (simp add: route_outcome_Ok_iff)
      from enqueued_genuine [OF this]
      have "\<forall>x \<in> set (enqueued c e rcpt d). genuine_for d (route_calls pc @ ops) x" for d
        by (simp add: route(1))
      then show ?thesis
        using g' by (auto simp: outboxes_genuine_def route(2) route_clients route_pending [OF ok])
    next
      case (err x)
      then show ?thesis using g' by (simp add: route(2) route_rejected)
    qed
  next
    case (collect ts)
    then show ?thesis
      using collect_all [of "ss_router st" "\<lambda>c e. genuine_for c (route_calls pc @ ops) e"] g'
      by (simp add: outboxes_genuine_def)
  qed
qed

lemma deliveries_genuine_step:
  assumes step: "relay_step R H A L w calls w'" and "deliveries_genuine ops w" and "table_live w"
    and "outboxes_genuine clients pending ops (ss_router (rl_state w))"
  shows "deliveries_genuine (calls @ ops) w'"
  unfolding deliveries_genuine_def
proof (intro allI ballI)
  fix t' d
  assume d: "d \<in> set (deliveries_of (rl_task w' t'))"
  have "\<exists>d' :: outbox_delivery. od_handle d = od_handle d' \<and> od_client d = od_client d' \<and>
      set (od_events d) \<subseteq> set (od_events d') \<and>
      ident (rl_task w (od_handle d')) = Some (od_client d') \<and>
      (\<forall>e \<in> set (od_events d'). genuine_for (od_client d') ops e)"
    using step d assms(2-4)
  proof (induction rule: relay_step.induct)
    case (internal w t)
    obtain pc' sent' st' where s:
      "task_step R H A L t (rl_task w t, rl_sent w t, rl_state w) = (pc', sent', st')"
      by (metis prod_cases3)
    show ?case
    proof (cases "t' = t")
      case True
      then have "d \<in> set (deliveries_of pc')" using internal(1) by (simp add: s)
      with s show ?thesis
      proof (cases rule: task_step_deliveries)
        case (old d')
        then show ?thesis
          using internal(2) by (intro exI [of _ d']) (auto simp: deliveries_genuine_def)
      next
        case (collected c e)
        then have "ss_connections (rl_state w) (od_client d) = Some (od_handle d)"
          "\<forall>e \<in> set (od_events d). genuine_for (od_client d) ops e"
          using collect_all [of _ "\<lambda>c e. genuine_for c ops e"] internal(4)
          unfolding outboxes_genuine_def by blast+
        moreover from this have "ident (rl_task w (od_handle d)) = Some (od_client d)"
          using internal(3) unfolding table_live_def by (blast intro: owns_ident listed_owns)
        ultimately show ?thesis by blast
      qed
    next
      case False
      then show ?thesis using internal(1,2) unfolding deliveries_genuine_def by auto
    qed
  qed (auto simp: deliveries_genuine_def split: if_splits)
  then show "ident (rl_task w' (od_handle d)) = Some (od_client d) \<and>
      (\<forall>e \<in> set (od_events d). genuine_for (od_client d) (calls @ ops) e)"
    using relay_step_ident [OF step] genuine_for_mono [of _ ops _ "calls @ ops"]
    by (auto simp: subset_iff)
qed

end

lemma queues_genuine_step:
  assumes step: "relay_step R H A L w calls w'" and "queues_genuine ops w" and "deliveries_genuine ops w"
  shows "queues_genuine (calls @ ops) w'"
  unfolding queues_genuine_def
proof (intro allI ballI)
  fix h e
  assume e: "e \<in> set (ch_events (ss_channels (rl_state w') h))"
  have "legit ops (rl_task w h) e"
    using step e assms(2,3)
  proof (induction rule: relay_step.induct)
    case (internal w t)
    obtain pc' sent' st' where s:
      "task_step R H A L t (rl_task w t, rl_sent w t, rl_state w) = (pc', sent', st')"
      by (metis prod_cases3)
    show ?case
    proof (rule task_step_queue [OF s, of h])
      fix x
      assume x: "ch_events (ss_channels st' h) = ch_events (ss_channels (rl_state w) h) @ [x]"
        "step_adds t (rl_task w t) h x"
      show ?thesis
      proof (cases "e = x")
        case True
        then show ?thesis
          using x(2) internal(3) unfolding step_adds_def deliveries_genuine_def legit_def by blast
      next
        case False
        then show ?thesis using internal(1,2) x(1) by (simp add: queues_genuine_def s)
      qed
    qed (use internal(1,2) in \<open>simp_all add: queues_genuine_def s\<close>)
  next
    case (recv w t)
    then show ?case
      by (auto simp: queues_genuine_def writer_recv_queue split: if_splits dest: in_set_tl)
  qed (simp_all add: queues_genuine_def)
  then show "legit (calls @ ops) (rl_task w' h) e"
    by (rule legit_mono) (use relay_step_ident [OF step] in auto)
qed

lemma task_step_sent:
  assumes "task_step R H A L t (pc, sent, st) = (pc', sent', st')"
  shows "sent' = sent \<or> (\<exists>x. sent' = sent @ reject_connection L x)"
proof (cases pc)
  case (Deliver c ds)
  then show ?thesis
    using assms by (cases ds) (auto simp: task_step_def split: list.splits prod.splits if_splits)
qed (use assms in \<open>auto simp: task_step_def Let_def split: prod.splits result.splits if_splits\<close>)

lemma sockets_genuine_step:
  assumes step: "relay_step R H A L w calls w'" and "sockets_genuine L ops w" and "queues_genuine ops w"
  shows "sockets_genuine L (calls @ ops) w'"
  unfolding sockets_genuine_def
proof (intro allI ballI)
  fix h x
  assume x: "x \<in> texts_of h w'"
  have "\<exists>e. json_of_wire L e = Some x \<and> legit ops (rl_task w h) e"
    using step x assms(2,3)
  proof (induction rule: relay_step.induct)
    case (internal w t)
    obtain pc' sent' st' where s:
      "task_step R H A L t (rl_task w t, rl_sent w t, rl_state w) = (pc', sent', st')"
      by (metis prod_cases3)
    have "x \<in> texts_of h w \<or> (\<exists>y. x \<in> set (reject_connection L y))"
      using internal(1) task_step_sent [OF s]
      by (auto simp: texts_of_def run_task_def s writer_after_def split: if_splits task_pc.splits
          writer_pc.splits)
    then show ?case
      using internal(2) unfolding sockets_genuine_def reject_connection_def legit_def
      by (auto split: option.splits)
  next
    case (recv w t)
    show ?case
    proof (cases "x \<in> texts_of h w")
      case True
      then show ?thesis using recv(3) unfolding sockets_genuine_def by blast
    next
      case False
      then obtain e where "h = t" "e \<in> set (ch_events (ss_channels (rl_state w) t))"
        "json_of_wire L e = Some x"
        using recv(1,2)
        by (auto simp: texts_of_def writer_recv_def Let_def split: list.splits option.splits if_splits)
      then show ?thesis using recv(4) unfolding queues_genuine_def by blast
    qed
  next
    case (send w t msg)
    then have "x \<in> texts_of h w"
      by (auto simp: texts_of_def writer_send_def split: if_splits writer_pc.splits)
    then show ?case using send(3) unfolding sockets_genuine_def by blast
  next
    case (send_fail w t msg)
    then have "x \<in> texts_of h w"
      by (auto simp: texts_of_def writer_fail_def Let_def split: if_splits writer_pc.splits)
    then show ?case using send_fail(3) unfolding sockets_genuine_def by blast
  qed (auto simp: sockets_genuine_def texts_of_def)
  then show "\<exists>e. json_of_wire L e = Some x \<and> legit (calls @ ops) (rl_task w' h) e"
    using relay_step_ident [OF step] by (metis legit_mono set_append sup_ge2)
qed

context relay_router
begin

lemma outboxes_genuine_relay_step:
  assumes "relay_step R H A L w calls w'"
    and "outboxes_genuine clients pending ops (ss_router (rl_state w))"
  shows "outboxes_genuine clients pending (calls @ ops) (ss_router (rl_state w'))"
  using assms
proof (induction rule: relay_step.induct)
  case (internal w t)
  obtain pc' sent' st' where s:
    "task_step R H A L t (rl_task w t, rl_sent w t, rl_state w) = (pc', sent', st')"
    by (metis prod_cases3)
  then show ?case using outboxes_genuine_step [OF s internal] by (simp add: s)
qed simp_all

lemma relay_genuine:
  assumes "relay_reach R H A L w0 ops w" and "table_live w0"
    and "outboxes_genuine clients pending [] (ss_router (rl_state w0))"
    and "deliveries_genuine [] w0" and "queues_genuine [] w0" and "sockets_genuine L [] w0"
  shows "table_live w \<and> outboxes_genuine clients pending ops (ss_router (rl_state w)) \<and>
    deliveries_genuine ops w \<and> queues_genuine ops w \<and> sockets_genuine L ops w"
  using assms
  by (induction rule: relay_reach.induct)
    (blast intro: table_live_step outboxes_genuine_relay_step deliveries_genuine_step
      queues_genuine_step sockets_genuine_step)+

end

section \<open>A fresh relay\<close>

lemma relay_new_simps [simp]:
  "rl_state (relay_new st) = st" "rl_task (relay_new st) t = Unopened"
  "rl_writer (relay_new st) t = WriterOff" "rl_sent (relay_new st) t = []"
  by (simp_all add: relay_new_def)

lemma relay_new_invariants:
  assumes "clients router = {}" and w0: "w0 = relay_new (server_state_new router hook auth)"
  shows "exclusive clients w0" "table_live w0" "within_capacity w0"
    "outboxes_genuine clients pending [] (ss_router (rl_state w0))"
    "deliveries_genuine [] w0" "queues_genuine [] w0" "sockets_genuine L [] w0"
  unfolding w0 using assms(1)
  by (simp_all add: exclusive_def one_holder_def server_state_new_def table_live_def
      within_capacity_def channel_new_def outboxes_genuine_def deliveries_genuine_def
      queues_genuine_def sockets_genuine_def texts_of_def)

end
