(* ===== verification/Server_Once.thy ===== *)
theory Server_Once
  imports Server_Delivery
begin

text \<open>
  The relay hands out nothing twice. For a client and a text, the copies of that text on their way
  to the client (in its outbox, in deliveries under way, in the queues of its connections, in the hands
  of their writers) and on its sockets are counted; no step of any interleaving increases the count
  beyond what its own route call owes the client.
\<close>

section \<open>Counting\<close>

definition weight :: "crates \<Rightarrow> ustring \<Rightarrow> wire_event list \<Rightarrow> nat" where
  "weight L x es = length (filter (\<lambda>e. json_of_wire L e = Some x) es)"

lemma weight_simps [simp]:
  "weight L x [] = 0" "weight L x (es @ fs) = weight L x es + weight L x fs"
  "weight L x (e # es) = (if json_of_wire L e = Some x then Suc (weight L x es) else weight L x es)"
  by (simp_all add: weight_def)

text \<open>What the deliveries of a control point hold for a client.\<close>

definition delivery_weight :: "crates \<Rightarrow> ustring \<Rightarrow> client_id \<Rightarrow> outbox_delivery list \<Rightarrow> nat" where
  "delivery_weight L x c ds = (\<Sum>d \<leftarrow> ds. if od_client d = c then weight L x (od_events d) else 0)"

lemma delivery_weight_simps [simp]:
  "delivery_weight L x c [] = 0"
  "delivery_weight L x c (d # ds) =
     (if od_client d = c then weight L x (od_events d) else 0) + delivery_weight L x c ds"
  by (simp_all add: delivery_weight_def)

definition outbox_weight ::
  "('r \<Rightarrow> client_id set) \<Rightarrow> ('r \<Rightarrow> client_id \<Rightarrow> wire_event list) \<Rightarrow> crates \<Rightarrow> ustring \<Rightarrow> client_id \<Rightarrow> 'r \<Rightarrow> nat" where
  "outbox_weight clients pending L x c r = (if c \<in> clients r then weight L x (pending r c) else 0)"

definition queue_weight :: "crates \<Rightarrow> ustring \<Rightarrow> client_handle \<Rightarrow> ('r, 'h, 'a) server_state \<Rightarrow> nat" where
  "queue_weight L x h st = weight L x (ch_events (ss_channels st h))"

fun writer_weight :: "ustring \<Rightarrow> writer_pc \<Rightarrow> nat" where
  "writer_weight x (WriterSend text) = (if text = x then 1 else 0)"
| "writer_weight x _ = 0"

definition socket_weight :: "crates \<Rightarrow> ustring \<Rightarrow> client_id \<Rightarrow> ('r, 'h, 'a) relay \<Rightarrow> nat \<Rightarrow> nat" where
  "socket_weight L x c w t =
     (if ident (rl_task w t) = Some c
      then queue_weight L x t (rl_state w) + writer_weight x (rl_writer w t) + count_list (rl_sent w t) x
      else 0)"

definition in_transit ::
  "('r \<Rightarrow> client_id set) \<Rightarrow> ('r \<Rightarrow> client_id \<Rightarrow> wire_event list) \<Rightarrow> crates \<Rightarrow> ustring \<Rightarrow> client_id \<Rightarrow> nat
    \<Rightarrow> ('r, 'h, 'a) relay \<Rightarrow> nat" where
  "in_transit clients pending L x c N w =
     outbox_weight clients pending L x c (ss_router (rl_state w)) +
     (\<Sum>t<N. delivery_weight L x c (deliveries_of (rl_task w t))) + (\<Sum>t<N. socket_weight L x c w t)"

text \<open>How often the given route calls owe the client an event with that text.\<close>

fun owed_copies :: "crates \<Rightarrow> ustring \<Rightarrow> client_id \<Rightarrow> router_op list \<Rightarrow> nat" where
  "owed_copies L x c [] = 0"
| "owed_copies L x c (op # ops) =
     (case op of
        OpRoute s e \<Rightarrow> (case recipient_for s e of Ok rcpt \<Rightarrow> weight L x (enqueued s e rcpt c) | _ \<Rightarrow> 0)
      | _ \<Rightarrow> 0) + owed_copies L x c ops"

lemma owed_copies_append [simp]: "owed_copies L x c (ops @ ops') = owed_copies L x c ops + owed_copies L x c ops'"
  by (induction ops) simp_all

text \<open>A text that is not an error report of the relay.\<close>

definition client_text :: "crates \<Rightarrow> ustring \<Rightarrow> bool" where
  "client_text L x \<longleftrightarrow>
     (\<forall>err. json_of_wire L (routing_error_event err) \<noteq> Some x) \<and> (\<forall>err. json_of_wire L (rejection_event err) \<noteq> Some x)"

lemma client_text_event:
  assumes "json_wire_roundtrip L" and "wire_of_json L x = Some e" and "\<And>c msg. e \<noteq> ErrorEvent c msg"
  shows "client_text L x"
proof -
  have "wf_wire_event (routing_error_event err)" for err
    by (cases err) (simp_all add: routing_error_event_def canonical_code_def)
  moreover have "wf_wire_event (rejection_event err)" for err
    by (cases err) (simp_all add: rejection_event_def canonical_code_def)
  moreover have "json_of_wire L (ErrorEvent c msg) \<noteq> Some x" if wf: "wf_wire_event (ErrorEvent c msg)" for c msg
  proof
    assume "json_of_wire L (ErrorEvent c msg) = Some x"
    moreover obtain t where "json_of_wire L (ErrorEvent c msg) = Some t" "wire_of_json L t = Some (ErrorEvent c msg)"
      using assms(1) wf unfolding json_wire_roundtrip_def by blast
    ultimately show False using assms(2,3) by simp
  qed
  ultimately show ?thesis
    unfolding client_text_def routing_error_event_def rejection_event_def by blast
qed

lemma sum_fun_upd:
  fixes f :: "nat \<Rightarrow> nat"
  assumes "t < N"
  shows "(\<Sum>k<N. (f(t := v)) k) + f t = (\<Sum>k<N. f k) + v"
proof -
  have "(\<Sum>k<N. g k) = g t + (\<Sum>k \<in> {..<N} - {t}. g k)" for g :: "nat \<Rightarrow> nat"
    using assms by (intro sum.remove) simp_all
  moreover have "(\<Sum>k \<in> {..<N} - {t}. (f(t := v)) k) = (\<Sum>k \<in> {..<N} - {t}. f k)"
    by (rule sum.cong) auto
  ultimately show ?thesis by simp
qed

lemma sum_bump:
  fixes f g :: "nat \<Rightarrow> nat"
  assumes "\<And>k. g k \<le> f k + (if k = h then v else 0)"
  shows "(\<Sum>k<N. g k) \<le> (\<Sum>k<N. f k) + v"
proof -
  have "(\<Sum>k<N. g k) \<le> (\<Sum>k<N. f k + (if k = h then v else 0))" by (intro sum_mono assms)
  also have "\<dots> = (\<Sum>k<N. f k) + (\<Sum>k<N. if k = h then v else 0)" by (simp add: sum.distrib)
  also have "\<dots> \<le> (\<Sum>k<N. f k) + v" by (simp add: sum.delta)
  finally show ?thesis .
qed

section \<open>One step of a task\<close>

context relay_router
begin

abbreviation outw :: "crates \<Rightarrow> ustring \<Rightarrow> client_id \<Rightarrow> ('r, 'h, 'a) server_state \<Rightarrow> nat" where
  "outw L x c st \<equiv> outbox_weight clients pending L x c (ss_router st)"

lemma connect_weight: "outbox_weight clients pending L x c (snd (mr_connect R s r)) \<le> outbox_weight clients pending L x c r"
  by (cases "s \<in> clients r") (auto simp: outbox_weight_def connect_dup connect_clients connect_pending)

lemma disconnect_weight:
  "outbox_weight clients pending L x c (snd (mr_disconnect R s r)) \<le> outbox_weight clients pending L x c r"
  by (auto simp: outbox_weight_def disconnect_clients disconnect_pending)

lemma route_weight:
  "outbox_weight clients pending L x c (snd (mr_route R s e r)) \<le>
     outbox_weight clients pending L x c r + owed_copies L x c [OpRoute s e]"
proof (cases rule: route_outcome_cases [of s e "clients r"])
  case (ok rcpt)
  then have "recipient_for s e = Ok rcpt" by (simp add: route_outcome_Ok_iff)
  then show ?thesis by (simp add: outbox_weight_def route_clients route_pending [OF ok])
next
  case (err y)
  then show ?thesis by (simp add: route_rejected)
qed

lemma collect_weight:
  "outbox_weight clients pending L x c (snd (collect_deliveries R conns ts r)) +
     delivery_weight L x c (fst (collect_deliveries R conns ts r)) = outbox_weight clients pending L x c r"
proof (induction ts arbitrary: r)
  case (Cons s ts)
  show ?case
  proof (cases "conns s")
    case (Some h)
    obtain evs r1 where d: "mr_drain_outbox R s r = (evs, r1)" by fastforce
    have r1: "clients r1 = clients r" "evs = (if s \<in> clients r then pending r s else [])"
      "pending r1 = (if s \<in> clients r then (pending r)(s := []) else pending r)"
      using drain_clients [of s r] drain_result [of s r] drain_pending [of s r] by (simp_all add: d)
    have "outbox_weight clients pending L x c r1 + (if s = c then weight L x evs else 0) = outbox_weight clients pending L x c r"
      by (simp add: outbox_weight_def r1)
    then show ?thesis using Cons.IH [of r1] by (auto simp: Some d split: prod.splits)
  qed (use Cons.IH in simp)
qed simp

text \<open>
  What a step of task \<open>t\<close> does to the counts: it moves at most one event of weight \<open>g\<close> from a delivery \<open>d\<close>
  to the queue of that delivery, and otherwise only the route call of the step adds anything.
\<close>

definition moves ::
  "crates \<Rightarrow> ustring \<Rightarrow> client_id \<Rightarrow> task_pc \<Rightarrow> ('r, 'h, 'a) server_state \<Rightarrow> task_pc \<Rightarrow> ('r, 'h, 'a) server_state
    \<Rightarrow> outbox_delivery \<Rightarrow> nat \<Rightarrow> bool" where
  "moves L x c pc st pc' st' d g \<longleftrightarrow>
     (g = 0 \<or> d \<in> set (deliveries_of pc)) \<and>
     (\<forall>k. queue_weight L x k st' \<le> queue_weight L x k st + (if k = od_handle d then g else 0)) \<and>
     outw L x c st' + delivery_weight L x c (deliveries_of pc') + (if od_client d = c then g else 0) \<le>
       outw L x c st + delivery_weight L x c (deliveries_of pc) + owed_copies L x c (route_calls pc)"

lemma movesI:
  assumes "\<And>k. queue_weight L x k st' \<le> queue_weight L x k st"
    and "outw L x c st' \<le> outw L x c st + owed_copies L x c (route_calls pc)"
    and "delivery_weight L x c (deliveries_of pc') \<le> delivery_weight L x c (deliveries_of pc)"
  shows "moves L x c pc st pc' st' d 0"
  using assms add_mono [OF assms(2,3)] by (simp add: moves_def add_ac)

lemma moves_nothing:
  assumes "\<And>k. queue_weight L x k st' \<le> queue_weight L x k st"
    and "outw L x c st' \<le> outw L x c st + owed_copies L x c (route_calls pc)"
    and "delivery_weight L x c (deliveries_of pc') \<le> delivery_weight L x c (deliveries_of pc)"
  shows "\<exists>d g. moves L x c pc st pc' st' d g"
  using movesI [OF assms] by blast

lemma queue_weight_same: "ss_channels st' h = ss_channels st h \<Longrightarrow> queue_weight L x h st' = queue_weight L x h st"
  by (simp add: queue_weight_def)

lemma deliver_step_moves:
  assumes "task_step R H A L t (Deliver s ds, sent, st) = (pc', sent', st')"
  shows "\<exists>d g. moves L x c (Deliver s ds) st pc' st' d g"
proof (cases ds)
  case Nil
  then show ?thesis using assms by (auto simp: task_step_def intro!: exI movesI)
next
  case (Cons d ds')
  show ?thesis
  proof (cases "od_events d")
    case Nil
    then show ?thesis
      using assms Cons by (auto simp: task_step_def intro!: exI movesI [where d = d])
  next
    case ev: (Cons e es)
    let ?g = "weight L x [e]"
    obtain ok st1 where t: "try_send (od_handle d) e st = (ok, st1)" by fastforce
    have r: "ss_router st1 = ss_router st" using try_send_frame(1) [of "od_handle d" e st] t by simp
    show ?thesis
    proof (cases ok)
      case True
      then have p: "pc' = Deliver s (d\<lparr>od_events := es\<rparr> # ds')" "st' = st1"
        using assms Cons ev t by (auto simp: task_step_def)
      have q: "\<forall>k. queue_weight L x k st' \<le> queue_weight L x k st + (if k = od_handle d then ?g else 0)"
        using try_send_events [of "od_handle d" e st] t True by (auto simp: queue_weight_def p)
      have "moves L x c (Deliver s ds) st pc' st' d ?g"
        unfolding moves_def by (intro conjI q) (use Cons ev r in \<open>simp_all add: p\<close>)
      then show ?thesis by blast
    next
      case False
      then have "st1 = st" using try_send_failed [of "od_handle d" e st] t by simp
      then have p: "pc' = RemoveSlow s d ds'" "st' = close_send (od_handle d) st"
        using assms Cons ev t False by (auto simp: task_step_def)
      have "moves L x c (Deliver s ds) st pc' st' d 0"
        by (rule movesI) (simp_all add: p Cons queue_weight_def close_send_def Let_def)
      then show ?thesis by blast
    qed
  qed
qed

lemma task_step_moves:
  assumes s: "task_step R H A L t (pc, sent, st) = (pc', sent', st')" and x: "client_text L x"
  shows "\<exists>d g. moves L x c pc st pc' st' d g"
proof (cases pc)
  case (Deliver s ds)
  then show ?thesis using deliver_step_moves s by blast
next
  case (CollectOutboxes s e)
  then have p: "pc' = Deliver s (fst (collect_deliveries R (ss_connections st) (delivery_targets s e) (ss_router st)))"
    "ss_router st' = snd (collect_deliveries R (ss_connections st) (delivery_targets s e) (ss_router st))"
    "ss_channels st' = ss_channels st"
    using s by (auto simp: task_step_def split: prod.splits)
  have "moves L x c pc st pc' st' d 0" for d
    using collect_weight [of L x c "ss_connections st" "delivery_targets s e" "ss_router st"]
    by (simp add: moves_def p CollectOutboxes queue_weight_def)
  then show ?thesis by blast
next
  case (RemoveSlow s d ds)
  then show ?thesis using s by (intro moves_nothing) (auto simp: task_step_def queue_weight_def)
next
  case (RouteEvent s e)
  then have p: "ss_router st' = snd (mr_route R s e (ss_router st))" "ss_channels st' = ss_channels st" "deliveries_of pc' = []"
    using s by (auto simp: task_step_def Let_def split: prod.splits result.splits)
  show ?thesis
    by (rule moves_nothing) (use route_weight [of L x c s e "ss_router st"] in \<open>simp_all add: p RouteEvent queue_weight_def\<close>)
next
  case (ConnectRouter s')
  then have p: "ss_router st' = snd (mr_connect R s' (ss_router st))" "deliveries_of pc' = []"
    "queue_weight L x k st' = queue_weight L x k st" for k
    using s by (auto simp: task_step_def queue_weight_def Let_def split: prod.splits if_splits)
  show ?thesis
    by (rule moves_nothing) (use connect_weight [of L x c s' "ss_router st"] in \<open>simp_all add: p ConnectRouter\<close>)
next
  case (DisconnectRouter s')
  then have p: "ss_router st' = snd (mr_disconnect R s' (ss_router st))" "deliveries_of pc' = []" "ss_channels st' = ss_channels st"
    using s by (auto simp: task_step_def split: prod.splits if_splits)
  show ?thesis
    by (rule moves_nothing) (use disconnect_weight [of L x c s' "ss_router st"] in \<open>simp_all add: p DisconnectRouter queue_weight_def\<close>)
next
  case (ReportError s' e err)
  then have st': "st' = snd (try_send t (routing_error_event err) st)" and pc': "deliveries_of pc' = []"
    using s by (auto simp: task_step_def)
  have "queue_weight L x k st' \<le> queue_weight L x k st" for k
    using try_send_events [of t "routing_error_event err" st k] x
    by (auto simp: st' queue_weight_def client_text_def)
  then show ?thesis by (intro moves_nothing) (simp_all add: st' pc' ReportError)
next
  case (Authorize s')
  then have "ss_router st' = ss_router st" "deliveries_of pc' = []" "queue_weight L x k st' \<le> queue_weight L x k st" for k
    using s by (auto simp: task_step_def queue_weight_def channel_new_def Let_def split: prod.splits result.splits)
  then show ?thesis by (intro moves_nothing) (simp_all add: Authorize)
qed (use s in \<open>auto simp: task_step_def queue_weight_def split: if_splits intro!: exI movesI\<close>)

section \<open>Every interleaving\<close>

text \<open>Before its hello a connection has nothing queued and nothing sent.\<close>

definition quiet_before_hello :: "('r, 'h, 'a) relay \<Rightarrow> bool" where
  "quiet_before_hello w \<longleftrightarrow> (\<forall>t. rl_task w t \<in> {Unopened, ReadHello} \<longrightarrow>
     ch_events (ss_channels (rl_state w) t) = [] \<and> rl_writer w t = WriterOff \<and> rl_sent w t = [])"

lemma internal_weight:
  assumes x: "client_text L x" and dg: "deliveries_genuine ops w" and N: "\<forall>t\<ge>N. rl_task w t = Unopened"
  shows "in_transit clients pending L x c N (run_task R H A L t w) \<le>
    in_transit clients pending L x c N w + owed_copies L x c (route_calls (rl_task w t))"
proof -
  let ?w = "run_task R H A L t w"
  obtain pc' sent' st' where s: "task_step R H A L t (rl_task w t, rl_sent w t, rl_state w) = (pc', sent', st')"
    by (metis prod_cases3)
  obtain d g where m: "moves L x c (rl_task w t) (rl_state w) pc' st' d g" using task_step_moves [OF s x] by blast
  let ?f = "\<lambda>k. delivery_weight L x c (deliveries_of (rl_task w k))"
  have del: "(\<Sum>k<N. delivery_weight L x c (deliveries_of (rl_task ?w k))) + ?f t =
      (\<Sum>k<N. ?f k) + delivery_weight L x c (deliveries_of pc')"
  proof (cases "t < N")
    case True
    have eq: "(\<lambda>k. delivery_weight L x c (deliveries_of (rl_task ?w k))) = ?f(t := delivery_weight L x c (deliveries_of pc'))"
      by (auto simp: s)
    show ?thesis unfolding eq by (rule sum_fun_upd [OF True])
  next
    case False
    then have "rl_task w t = Unopened" using N by simp
    moreover from this have "pc' = Unopened" using s by (simp add: task_step_def)
    ultimately have "rl_task ?w = rl_task w" by (auto simp: task_step_def)
    then show ?thesis using \<open>pc' = Unopened\<close> \<open>rl_task w t = Unopened\<close> by simp
  qed
  have sock: "(\<Sum>k<N. socket_weight L x c ?w k) \<le> (\<Sum>k<N. socket_weight L x c w k) + (if od_client d = c then g else 0)"
  proof (rule sum_bump [where h = "od_handle d"])
    fix k
    have id: "ident (rl_task ?w k) = ident (rl_task w k)" using task_step_ident [OF s] by (simp add: s)
    have wr: "writer_weight x (rl_writer ?w k) \<le> writer_weight x (rl_writer w k)"
      by (auto simp: run_task_def s writer_after_def split: task_pc.split)
    have "count_list (rl_sent ?w k) x \<le> count_list (rl_sent w k) x"
      using task_step_sent [OF s] x
      by (auto simp: run_task_def s reject_connection_def client_text_def split: option.splits)
    moreover have "queue_weight L x k (rl_state ?w) \<le>
        queue_weight L x k (rl_state w) + (if k = od_handle d then g else 0)"
      using m by (simp add: moves_def s)
    moreover have "g = 0 \<or> ident (rl_task w (od_handle d)) = Some (od_client d)"
      using m dg by (auto simp: moves_def deliveries_genuine_def)
    ultimately show "socket_weight L x c ?w k \<le>
        socket_weight L x c w k + (if k = od_handle d then if od_client d = c then g else 0 else 0)"
      using wr unfolding socket_weight_def id by (auto split: if_splits)
  qed
  have "outw L x c st' + delivery_weight L x c (deliveries_of pc') + (if od_client d = c then g else 0) \<le>
       outw L x c (rl_state w) + ?f t + owed_copies L x c (route_calls (rl_task w t))"
    using m by (simp add: moves_def)
  moreover have "outw L x c (rl_state ?w) = outw L x c st'" by (simp add: s)
  ultimately show ?thesis using del sock unfolding in_transit_def by linarith
qed

lemma task_step_early:
  assumes "task_step R H A L t (pc, sent, st) = (pc', sent', st')" and "pc' \<in> {Unopened, ReadHello}"
  shows "pc = pc' \<and> sent' = sent \<and> st' = st"
proof (cases pc)
  case (Deliver c ds)
  then show ?thesis
    using assms by (cases ds) (auto simp: task_step_def split: list.splits prod.splits if_splits)
qed (use assms in \<open>auto simp: task_step_def Let_def split: prod.splits result.splits if_splits\<close>)

lemma step_unopened:
  assumes "relay_step R H A L w calls w'" and "rl_task w' t = Unopened"
  shows "rl_task w t = Unopened"
  using assms
proof (induction rule: relay_step.induct)
  case (internal w t')
  obtain pc' sent' st' where s: "task_step R H A L t' (rl_task w t', rl_sent w t', rl_state w) = (pc', sent', st')"
    by (metis prod_cases3)
  then show ?case using internal task_step_early [OF s] by (auto simp: s split: if_splits)
qed (auto simp: goto_def read_hello_next_def select_next_def split: if_splits hello_outcome.splits frame_outcome.splits)

lemma quiet_before_hello_step:
  assumes step: "relay_step R H A L w calls w'" and "quiet_before_hello w" and "deliveries_genuine ops w"
  shows "quiet_before_hello w'"
  using assms
proof (induction rule: relay_step.induct)
  case (internal w t)
  obtain pc' sent' st' where s: "task_step R H A L t (rl_task w t, rl_sent w t, rl_state w) = (pc', sent', st')"
    by (metis prod_cases3)
  show ?case
    unfolding quiet_before_hello_def
  proof (intro allI impI)
    fix h
    assume h: "rl_task (run_task R H A L t w) h \<in> {Unopened, ReadHello}"
    show "ch_events (ss_channels (rl_state (run_task R H A L t w)) h) = [] \<and>
        rl_writer (run_task R H A L t w) h = WriterOff \<and> rl_sent (run_task R H A L t w) h = []"
    proof (cases "h = t")
      case True
      then have "rl_task w t = pc' \<and> sent' = rl_sent w t \<and> st' = rl_state w" "pc' \<in> {Unopened, ReadHello}"
        using h task_step_early [OF s] by (simp_all add: s)
      then show ?thesis
        using internal(1) True by (auto simp: quiet_before_hello_def run_task_def task_step_def writer_after_def)
    next
      case False
      then have h': "rl_task w h \<in> {Unopened, ReadHello}" using h by (simp add: s)
      then have "ident (rl_task w h) = None" by auto
      then have "\<not> step_adds t (rl_task w t) h e" for e
        using internal(2) False by (auto simp: step_adds_def deliveries_genuine_def)
      then have "ch_events (ss_channels st' h) = []"
        using task_step_queue [OF s, of h] internal(1) h' by (metis quiet_before_hello_def)
      then show ?thesis using internal(1) h' False by (auto simp: quiet_before_hello_def run_task_def s)
    qed
  qed
qed (auto simp: quiet_before_hello_def goto_def read_hello_next_def select_next_def writer_recv_def writer_send_def
    writer_fail_def Let_def split: if_splits hello_outcome.splits frame_outcome.splits list.splits)

lemma hello_weight:
  assumes "quiet_before_hello w" and "rl_task w t \<in> {Unopened, ReadHello}" and "deliveries_of pc = []"
  shows "in_transit clients pending L x c N (goto t pc w) \<le> in_transit clients pending L x c N w"
proof -
  have "socket_weight L x c (goto t pc w) k \<le> socket_weight L x c w k" for k
    using assms(1,2) by (auto simp: socket_weight_def quiet_before_hello_def goto_def queue_weight_def)
  moreover have "delivery_weight L x c (deliveries_of (rl_task (goto t pc w) k)) \<le>
      delivery_weight L x c (deliveries_of (rl_task w k))" for k
    using assms(3) by (simp add: goto_def)
  ultimately show ?thesis
    unfolding in_transit_def by (intro add_mono sum_mono) (simp_all add: goto_def)
qed

lemma relay_step_weight:
  assumes step: "relay_step R H A L w calls w'" and x: "client_text L x" and "deliveries_genuine ops w"
    and q: "quiet_before_hello w" and N: "\<forall>t\<ge>N. rl_task w t = Unopened"
  shows "in_transit clients pending L x c N w' \<le> in_transit clients pending L x c N w + owed_copies L x c calls"
  using step assms(3-5)
proof (induction rule: relay_step.induct)
  case (open_socket w t)
  then show ?case using hello_weight [of w t ReadHello L x c N] by simp
next
  case (hello w t i)
  have "deliveries_of (read_hello_next L i) = []"
    by (simp add: read_hello_next_def split: hello_outcome.split)
  then show ?case using hello hello_weight [of w t "read_hello_next L i" L x c N] by simp
next
  case (internal w t)
  then show ?case using internal_weight [OF x] by blast
next
  case (recv w t)
  have "socket_weight L x c (writer_recv L t w) k \<le> socket_weight L x c w k" for k
    using recv(1)
    by (auto simp: socket_weight_def writer_recv_def queue_weight_def Let_def split: list.split option.split)
  then show ?case unfolding in_transit_def by (simp add: sum_mono)
next
  case (send w t msg)
  have "socket_weight L x c (writer_send t msg w) k \<le> socket_weight L x c w k" for k
    using send(1) by (auto simp: socket_weight_def writer_send_def)
  then show ?case unfolding in_transit_def by (simp add: sum_mono)
next
  case (send_fail w t msg)
  have "socket_weight L x c (writer_fail t w) k \<le> socket_weight L x c w k" for k
    using send_fail(1) by (auto simp: socket_weight_def writer_fail_def queue_weight_def Let_def)
  then show ?case unfolding in_transit_def by (simp add: sum_mono)
qed (auto simp: in_transit_def socket_weight_def goto_def select_next_def split: frame_outcome.split intro!: add_mono sum_mono)

text \<open>Along a whole run, from a relay that satisfies the invariants of a fresh one.\<close>

lemma relay_at_most_owed:
  assumes "relay_reach R H A L w0 ops w" and start: "table_live w0"
    "outboxes_genuine clients pending [] (ss_router (rl_state w0))" "deliveries_genuine [] w0" "queues_genuine [] w0"
    "sockets_genuine L [] w0" "quiet_before_hello w0" "in_transit clients pending L x c N w0 = 0"
    and x: "client_text L x" and opened: "\<forall>t\<ge>N. rl_task w t = Unopened"
  shows "in_transit clients pending L x c N w \<le> owed_copies L x c ops \<and> quiet_before_hello w"
  using assms(1) opened
proof (induction rule: relay_reach.induct)
  case (reach_step ops w calls w')
  have N: "\<forall>t\<ge>N. rl_task w t = Unopened" using step_unopened [OF reach_step(2)] reach_step.prems by blast
  have g: "deliveries_genuine ops w" using relay_genuine [OF reach_step(1) start(1-5)] by blast
  note IH = reach_step.IH [OF N]
  show ?case
    using relay_step_weight [OF reach_step(2) x g _ N, of c] IH quiet_before_hello_step [OF reach_step(2) _ g] by force
qed (use start in simp)

lemma relay_finite:
  assumes "relay_reach R H A L w0 ops w" and "\<forall>t\<ge>N. rl_task w0 t = Unopened"
  shows "\<exists>M\<ge>N. \<forall>t\<ge>M. rl_task w t = Unopened"
  using assms
proof (induction rule: relay_reach.induct)
  case (reach_step ops w calls w')
  then obtain M where M: "M \<ge> N" "\<forall>t\<ge>M. rl_task w t = Unopened" by blast
  have "\<exists>k. \<forall>t. t \<noteq> k \<longrightarrow> rl_task w' t = rl_task w t"
    using reach_step(2)
    by (induction rule: relay_step.induct) (auto simp: goto_def writer_recv_def writer_send_def writer_fail_def Let_def split: list.splits)
  then obtain k where "\<forall>t. t \<noteq> k \<longrightarrow> rl_task w' t = rl_task w t" by blast
  then have "\<forall>t \<ge> max M (Suc k). rl_task w' t = Unopened" using M(2) by simp
  then show ?case using M(1) by (meson max.coboundedI1)
qed blast

text \<open>From a fresh relay: the copies on the sockets of a client, over any finite set of connections.\<close>

lemma sockets_at_most_owed:
  assumes "relay_reach R H A L w0 ops w" and "clients router = {}" and w0: "w0 = relay_new (server_state_new router hook auth)"
    and x: "client_text L x" and "finite T"
  shows "(\<Sum>t\<in>T. if ident (rl_task w t) = Some c then count_list (rl_sent w t) x else 0) \<le> owed_copies L x c ops"
proof -
  let ?f = "\<lambda>t. if ident (rl_task w t) = Some c then count_list (rl_sent w t) x else 0"
  obtain K where K: "T \<subseteq> {..<K}" using assms(5) by (metis finite_nat_set_iff_bounded lessThan_iff subsetI)
  have "\<forall>t\<ge>K. rl_task w0 t = Unopened" by (simp add: w0 relay_new_def)
  then obtain N where N: "K \<le> N" "\<forall>t\<ge>N. rl_task w t = Unopened" using relay_finite [OF assms(1)] by blast
  have start: "quiet_before_hello w0" "in_transit clients pending L x c N w0 = 0"
    using assms(2) by (simp_all add: w0 relay_new_def server_state_new_def channel_new_def quiet_before_hello_def
        in_transit_def outbox_weight_def socket_weight_def)
  note inv = relay_new_invariants [where clients = clients, OF assms(2) w0]
  have "(\<Sum>t\<in>T. ?f t) \<le> (\<Sum>t<N. ?f t)" using K N(1) by (intro sum_mono2) auto
  also have "\<dots> \<le> (\<Sum>t<N. socket_weight L x c w t)" by (rule sum_mono) (simp add: socket_weight_def)
  also have "\<dots> \<le> in_transit clients pending L x c N w" by (simp add: in_transit_def)
  also have "\<dots> \<le> owed_copies L x c ops"
    using relay_at_most_owed [OF assms(1) inv(2,4-7) start x N(2)] by blast
  finally show ?thesis .
qed

end

end
