(* ===== verification/Server_Settle.thy ===== *)
theory Server_Settle
  imports Server_Once
begin

text \<open>
  The relay comes to rest. Without input from outside, the tasks and the writers of any number of
  connections, interleaved in any order, can only take finitely many steps, close requests and deliveries
  to one another included; and the state in which none of them can go on is a tidy one.
\<close>

section \<open>Steps that need nothing from outside\<close>

text \<open>The control points at which a task waits.\<close>

definition waiting :: "task_pc \<Rightarrow> bool" where
  "waiting pc \<longleftrightarrow> (case pc of
      Unopened \<Rightarrow> True | ReadHello \<Rightarrow> True | SelectLoop _ \<Rightarrow> True | Finished _ \<Rightarrow> True | _ \<Rightarrow> False)"

inductive settle_step ::
  "'r message_router \<Rightarrow> 'h event_hook \<Rightarrow> 'a auth_provider \<Rightarrow> crates
    \<Rightarrow> ('r, 'h, 'a) relay \<Rightarrow> ('r, 'h, 'a) relay \<Rightarrow> bool" for R H A L where
  task: "\<not> waiting (rl_task w t) \<Longrightarrow> settle_step R H A L w (run_task R H A L t w)"
| closing: "rl_task w t = SelectLoop c \<Longrightarrow> close_ready t w \<Longrightarrow> settle_step R H A L w (goto t (RemoveConnection c) w)"
| recv: "rl_writer w t = WriterRecv \<Longrightarrow> ch_events (ss_channels (rl_state w) t) \<noteq> [] \<Longrightarrow>
    settle_step R H A L w (writer_recv L t w)"
| send: "rl_writer w t = WriterSend x \<Longrightarrow> settle_step R H A L w (writer_send t x w)"
| send_fail: "rl_writer w t = WriterSend x \<Longrightarrow> settle_step R H A L w (writer_fail t w)"

definition settled :: "'r message_router \<Rightarrow> 'h event_hook \<Rightarrow> 'a auth_provider \<Rightarrow> crates \<Rightarrow> ('r, 'h, 'a) relay \<Rightarrow> bool" where
  "settled R H A L w \<longleftrightarrow> (\<nexists>w'. settle_step R H A L w w')"

lemma settle_step_relay: "settle_step R H A L w w' \<Longrightarrow> \<exists>calls. relay_step R H A L w calls w'"
  by (induction rule: settle_step.induct) (blast intro: relay_step.intros)+

lemma settle_reach:
  assumes "(settle_step R H A L)\<^sup>*\<^sup>* w w'" and "relay_reach R H A L w0 ops w"
  shows "\<exists>ops'. relay_reach R H A L w0 ops' w'"
  using assms by (induction rule: rtranclp_induct) (blast dest: settle_step_relay intro: relay_reach.reach_step)+

section \<open>A measure\<close>

text \<open>How far a task is from its end, deliveries apart; every step outside of a delivery brings it closer.\<close>

fun phase :: "task_pc \<Rightarrow> nat" where
  "phase (Authorize c) = 11"
| "phase (ConnectRouter c) = 10"
| "phase (InsertConnection c) = 9"
| "phase (HookConnect c) = 8"
| "phase (RouteEvent c e) = 10"
| "phase (HookAccepted c e) = 9"
| "phase (HookRejected c e x) = 9"
| "phase (CollectOutboxes c e) = 8"
| "phase (ReportError c e x) = 8"
| "phase (Deliver c ds) = 7"
| "phase (RemoveSlow c d ds) = 7"
| "phase (SelectLoop c) = 6"
| "phase (RemoveConnection c) = 5"
| "phase (DisconnectRouter c) = 4"
| "phase (HookDisconnect c) = 3"
| "phase (AbortWriter c) = 2"
| "phase _ = 0"

text \<open>The work a delivery still has; an event to deliver weighs more than an event in a queue.\<close>

definition delivery_load :: "outbox_delivery list \<Rightarrow> nat" where
  "delivery_load ds = (\<Sum>d\<leftarrow>ds. 3 * length (od_events d) + 2)"

fun task_load :: "task_pc \<Rightarrow> nat" where
  "task_load (Deliver c ds) = delivery_load ds"
| "task_load (RemoveSlow c d ds) = delivery_load ds + 1"
| "task_load _ = 0"

definition writer_load :: "('r, 'h, 'a) relay \<Rightarrow> nat \<Rightarrow> nat" where
  "writer_load w t = 2 * length (ch_events (ss_channels (rl_state w) t)) + (case rl_writer w t of WriterSend _ \<Rightarrow> 1 | _ \<Rightarrow> 0)"

definition unrest :: "nat \<Rightarrow> ('r, 'h, 'a) relay \<Rightarrow> nat \<times> nat" where
  "unrest N w = (\<Sum>t<N. phase (rl_task w t), (\<Sum>t<N. task_load (rl_task w t)) + (\<Sum>t<N. writer_load w t))"

text \<open>Only finitely many connections have been opened.\<close>

definition dormant_from :: "nat \<Rightarrow> ('r, 'h, 'a) relay \<Rightarrow> bool" where
  "dormant_from N w \<longleftrightarrow> (\<forall>t\<ge>N. rl_task w t = Unopened \<and> rl_writer w t = WriterOff)"

lemma dormant_below: "dormant_from N w \<Longrightarrow> rl_task w t \<noteq> Unopened \<or> rl_writer w t \<noteq> WriterOff \<Longrightarrow> t < N"
  unfolding dormant_from_def by (metis not_less)

lemma dormant_reach:
  assumes "relay_reach R H A L w0 ops w" and "dormant_from N w0"
  shows "\<exists>M. dormant_from M w"
  using assms
proof (induction rule: relay_reach.induct)
  case (reach_step ops w calls w')
  then obtain M where M: "dormant_from M w" by blast
  have "\<exists>k. \<forall>t. t \<noteq> k \<longrightarrow> rl_task w' t = rl_task w t \<and> rl_writer w' t = rl_writer w t"
    using reach_step(2)
    by (induction rule: relay_step.induct)
      (auto simp: goto_def run_task_def writer_recv_def writer_send_def writer_fail_def Let_def split: list.splits prod.splits)
  then obtain k where "\<forall>t. t \<noteq> k \<longrightarrow> rl_task w' t = rl_task w t \<and> rl_writer w' t = rl_writer w t" by blast
  then have "dormant_from (max M (Suc k)) w'" using M by (simp add: dormant_from_def)
  then show ?case by blast
qed blast

text \<open>A sum in which one summand shrinks, and one in which one summand grows.\<close>

lemma sum_one_less:
  fixes f g :: "nat \<Rightarrow> nat"
  assumes "t < N" and "g t + k \<le> f t" and "\<And>s. s \<noteq> t \<Longrightarrow> g s = f s"
  shows "(\<Sum>s<N. g s) + k \<le> (\<Sum>s<N. f s)"
proof -
  have "(\<Sum>s\<in>{..<N} - {t}. g s) = (\<Sum>s\<in>{..<N} - {t}. f s)" using assms(3) by (intro sum.cong) auto
  then show ?thesis using assms(1,2) by (simp add: sum.remove [of "{..<N}" t])
qed

lemma sum_one_more:
  fixes f g :: "nat \<Rightarrow> nat"
  assumes "g t \<le> f t + k" and "\<And>s. s \<noteq> t \<Longrightarrow> g s = f s"
  shows "(\<Sum>s<N. g s) \<le> (\<Sum>s<N. f s) + k"
proof (cases "t < N")
  case True
  have "(\<Sum>s\<in>{..<N} - {t}. g s) = (\<Sum>s\<in>{..<N} - {t}. f s)" using assms(2) by (intro sum.cong) auto
  then show ?thesis using True assms(1) by (simp add: sum.remove [of "{..<N}" t])
next
  case False
  then have "(\<Sum>s<N. g s) = (\<Sum>s<N. f s)" using assms(2) by (intro sum.cong) auto
  then show ?thesis by simp
qed

section \<open>Every step makes it smaller\<close>

definition calmer :: "nat \<Rightarrow> ('r, 'h, 'a) relay \<Rightarrow> ('r, 'h, 'a) relay \<Rightarrow> bool" where
  "calmer N w' w \<longleftrightarrow> (unrest N w', unrest N w) \<in> less_than <*lex*> less_than"

lemma calmer_phase:
  assumes "t < N" and "phase (rl_task w' t) < phase (rl_task w t)" and "\<And>s. s \<noteq> t \<Longrightarrow> rl_task w' s = rl_task w s"
  shows "calmer N w' w"
  using sum_one_less [of t N "\<lambda>s. phase (rl_task w' s)" 1 "\<lambda>s. phase (rl_task w s)"] assms
  by (simp add: calmer_def unrest_def)

lemma calmer_load:
  assumes "\<And>s. phase (rl_task w' s) = phase (rl_task w s)"
    and "(\<Sum>s<N. task_load (rl_task w' s)) + (\<Sum>s<N. writer_load w' s) <
      (\<Sum>s<N. task_load (rl_task w s)) + (\<Sum>s<N. writer_load w s)"
  shows "calmer N w' w"
  using assms by (simp add: calmer_def unrest_def)

text \<open>A step of a task either ends a phase or takes work off a delivery.\<close>

lemma task_step_phase:
  assumes "\<not> waiting pc" and "\<And>c d ds. pc \<noteq> Deliver c (d # ds)" and "\<And>c d ds. pc \<noteq> RemoveSlow c d ds"
    and "task_step R H A L t (pc, sent, st) = (pc', sent', st')"
  shows "phase pc' < phase pc"
proof (cases pc)
  case (Deliver c ds)
  then have "ds = []" using assms(2) by (cases ds) auto
  then show ?thesis using assms(4) Deliver by (auto simp: task_step_def)
qed (use assms in \<open>auto simp: task_step_def waiting_def Let_def split: prod.splits result.splits if_splits\<close>)

lemma calmer_task:
  assumes t: "t < N" and busy: "\<not> waiting (rl_task w t)"
  shows "calmer N (run_task R H A L t w) w"
proof -
  let ?w = "run_task R H A L t w"
  obtain pc' sent' st' where s: "task_step R H A L t (rl_task w t, rl_sent w t, rl_state w) = (pc', sent', st')"
    by (metis prod_cases3)
  have writer: "rl_writer ?w = rl_writer w" if "phase (rl_task w t) = 7"
    using that by (cases "rl_task w t") (auto simp: run_task_def writer_after_def split: prod.split)
  have load: "calmer N ?w w"
    if p: "phase (rl_task w t) = 7" "phase pc' = 7" and l: "task_load pc' + k < task_load (rl_task w t)"
      and q: "\<And>h. h \<noteq> g \<Longrightarrow> ch_events (ss_channels st' h) = ch_events (ss_channels (rl_state w) h)"
        "2 * length (ch_events (ss_channels st' g)) \<le> 2 * length (ch_events (ss_channels (rl_state w) g)) + k" for k g
  proof (rule calmer_load)
    show "phase (rl_task ?w h) = phase (rl_task w h)" for h using p by (simp add: s)
    have "(\<Sum>h<N. task_load (rl_task ?w h)) + Suc k \<le> (\<Sum>h<N. task_load (rl_task w h))"
      by (rule sum_one_less [OF t]) (use l in \<open>simp_all add: s\<close>)
    moreover have "(\<Sum>h<N. writer_load ?w h) \<le> (\<Sum>h<N. writer_load w h) + k"
      by (rule sum_one_more [where t = g]) (use q writer [OF p(1)] in \<open>simp_all add: writer_load_def s\<close>)
    ultimately show "(\<Sum>h<N. task_load (rl_task ?w h)) + (\<Sum>h<N. writer_load ?w h) <
        (\<Sum>h<N. task_load (rl_task w h)) + (\<Sum>h<N. writer_load w h)" by simp
  qed
  consider (deliver) c d ds where "rl_task w t = Deliver c (d # ds)" | (slow) c d ds where "rl_task w t = RemoveSlow c d ds"
    | (other) "phase pc' < phase (rl_task w t)"
    using task_step_phase [OF busy _ _ s] by blast
  then show ?thesis
  proof cases
    case deliver
    show ?thesis
    proof (cases "od_events d")
      case Nil
      show ?thesis
        by (rule load [where k = 0]) (use s deliver Nil in \<open>auto simp: task_step_def delivery_load_def\<close>)
    next
      case (Cons e es)
      show ?thesis
        by (rule load [where k = 2 and g = "od_handle d"])
          (use s deliver Cons try_send_events [of "od_handle d" e "rl_state w"] in
            \<open>auto simp: task_step_def delivery_load_def close_send_def Let_def split: prod.splits if_splits\<close>)
    qed
  next
    case slow
    show ?thesis
      by (rule load [where k = 0]) (use s slow in \<open>auto simp: task_step_def\<close>)
  next
    case other
    then show ?thesis by (intro calmer_phase [OF t]) (simp_all add: s)
  qed
qed

lemma settle_step_calmer:
  assumes "settle_step R H A L w w'" and "dormant_from N w"
  shows "calmer N w' w \<and> dormant_from N w'"
  using assms
proof (induction rule: settle_step.induct)
  case (task w t)
  then have "t < N" by (intro dormant_below) (auto simp: waiting_def)
  then show ?case using calmer_task [OF _ task(1)] task(2) by (auto simp: dormant_from_def run_task_def split: prod.split)
next
  case (closing w t c)
  then have "t < N" by (intro dormant_below) auto
  then show ?case
    using closing by (auto simp: dormant_from_def goto_def intro!: calmer_phase [where t = t])
next
  case (recv w t)
  then have t: "t < N" by (intro dormant_below) auto
  obtain e es where e: "ch_events (ss_channels (rl_state w) t) = e # es" using recv(2) by (cases "ch_events (ss_channels (rl_state w) t)") auto
  have "(\<Sum>h<N. writer_load (writer_recv L t w) h) + 1 \<le> (\<Sum>h<N. writer_load w h)"
    by (rule sum_one_less [OF t]) (use recv(1) e in \<open>auto simp: writer_load_def writer_recv_def Let_def split: option.split\<close>)
  then have "calmer N (writer_recv L t w) w"
    by (intro calmer_load) (auto simp: writer_recv_def Let_def split: list.split)
  then show ?case using recv t by (auto simp: dormant_from_def writer_recv_def Let_def split: list.split)
next
  case (send w t x)
  then have t: "t < N" by (intro dormant_below) auto
  have "(\<Sum>h<N. writer_load (writer_send t x w) h) + 1 \<le> (\<Sum>h<N. writer_load w h)"
    by (rule sum_one_less [OF t]) (use send(1) in \<open>simp_all add: writer_load_def writer_send_def\<close>)
  then have "calmer N (writer_send t x w) w" by (intro calmer_load) (simp_all add: writer_send_def)
  then show ?case using send t by (auto simp: dormant_from_def writer_send_def)
next
  case (send_fail w t x)
  then have t: "t < N" by (intro dormant_below) auto
  have "(\<Sum>h<N. writer_load (writer_fail t w) h) + 1 \<le> (\<Sum>h<N. writer_load w h)"
    by (rule sum_one_less [OF t]) (use send_fail(1) in \<open>simp_all add: writer_load_def writer_fail_def Let_def\<close>)
  then have "calmer N (writer_fail t w) w" by (intro calmer_load) (simp_all add: writer_fail_def Let_def)
  then show ?case using send_fail t by (auto simp: dormant_from_def writer_fail_def Let_def)
qed

lemma wf_calmer: "wf {(w', w). calmer N w' w}"
  using wf_inv_image [OF wf_lex_prod [OF wf_less_than wf_less_than], of "unrest N"]
  by (simp add: calmer_def inv_image_def)

lemma settling_ends:
  assumes "dormant_from N w" and "run 0 = w"
  shows "\<not> (\<forall>n. settle_step R H A L (run n) (run (Suc n)))"
proof
  assume steps: "\<forall>n. settle_step R H A L (run n) (run (Suc n))"
  have "dormant_from N (run n)" for n
    by (induction n) (use assms steps settle_step_calmer in blast)+
  then have "\<forall>n. (run (Suc n), run n) \<in> {(w', w). calmer N w' w}" using steps settle_step_calmer by blast
  then show False using wf_calmer [of N] unfolding wf_iff_no_infinite_down_chain by blast
qed

lemma settles:
  assumes "dormant_from N w"
  shows "\<exists>w'. (settle_step R H A L)\<^sup>*\<^sup>* w w' \<and> settled R H A L w'"
  using wf_calmer [of N] assms
proof (induction w rule: wf_induct_rule)
  case (less w)
  show ?case
  proof (cases "settled R H A L w")
    case False
    then obtain v where v: "settle_step R H A L w v" by (auto simp: settled_def)
    then have "(v, w) \<in> {(w', w). calmer N w' w}" "dormant_from N v" using settle_step_calmer less.prems by blast+
    then show ?thesis using less.IH v by (meson converse_rtranclp_into_rtranclp)
  qed auto
qed

section \<open>At rest\<close>

lemma settled_waits:
  assumes "settled R H A L w"
  shows "waiting (rl_task w t)" and "rl_task w t = SelectLoop c \<Longrightarrow> \<not> close_ready t w"
    and "rl_writer w t = WriterOff \<or> rl_writer w t = WriterRecv \<and> ch_events (ss_channels (rl_state w) t) = []"
proof -
  show "waiting (rl_task w t)" "rl_task w t = SelectLoop c \<Longrightarrow> \<not> close_ready t w"
    using assms settle_step.task settle_step.closing unfolding settled_def by blast+
  show "rl_writer w t = WriterOff \<or> rl_writer w t = WriterRecv \<and> ch_events (ss_channels (rl_state w) t) = []"
    using assms settle_step.recv settle_step.send unfolding settled_def by (metis writer_pc.exhaust)
qed

lemma waiting_owns: "waiting pc \<Longrightarrow> owns pc = Some c \<longleftrightarrow> pc = SelectLoop c" "waiting pc \<Longrightarrow> listed pc = Some c \<longleftrightarrow> pc = SelectLoop c"
  "waiting pc \<Longrightarrow> deliveries_of pc = []"
  by (cases pc; simp add: waiting_def)+

text \<open>The table lists exactly the connections in their main loop.\<close>

lemma settled_table:
  assumes "settled R H A L w" and "table_live w"
  shows "ss_connections (rl_state w) c = Some t \<longleftrightarrow> rl_task w t = SelectLoop c"
proof
  assume "ss_connections (rl_state w) c = Some t"
  then have "listed (rl_task w t) = Some c" using assms(2) by (simp add: table_live_def)
  then show "rl_task w t = SelectLoop c" using waiting_owns(2) [OF settled_waits(1) [OF assms(1)]] by blast
next
  assume main: "rl_task w t = SelectLoop c"
  have "deliveries_of (rl_task w t') = []" for t' by (rule waiting_owns(3) [OF settled_waits(1) [OF assms(1)]])
  then obtain c' where c': "ss_connections (rl_state w) c' = Some t"
    using settled_waits(2) [OF assms(1) main] by (auto simp: close_ready_def ran_def)
  then have "listed (rl_task w t) = Some c'" using assms(2) by (simp add: table_live_def)
  then show "ss_connections (rl_state w) c = Some t" using main c' by simp
qed

end
