(* ===== verification/Server_Flush.thy ===== *)
theory Server_Flush
  imports Server_Delivery
begin

text \<open>
  Functional correctness of \<open>route_and_flush\<close>: the control points of the connection task, run without
  interference, compute it; an accepted event reaches the queue of its recipient and the
  acknowledgement that of the sender; a client whose queue is full is disconnected and nobody else is
  affected; a rejected event changes nothing but what the hook is told.
\<close>

section \<open>The task computes the function\<close>

definition solo ::
  "'r message_router \<Rightarrow> 'h event_hook \<Rightarrow> 'a auth_provider \<Rightarrow> crates \<Rightarrow> nat
    \<Rightarrow> task_pc \<times> ustring list \<times> ('r, 'h, 'a) server_state
    \<Rightarrow> task_pc \<times> ustring list \<times> ('r, 'h, 'a) server_state \<Rightarrow> bool" where
  "solo R H A L t x y \<longleftrightarrow> (\<exists>n. (task_step R H A L t ^^ n) x = y)"

lemma solo_refl: "solo R H A L t x x"
  unfolding solo_def by (rule exI [of _ 0]) simp

lemma solo_step: "solo R H A L t (task_step R H A L t x) y \<Longrightarrow> solo R H A L t x y"
  unfolding solo_def by (metis funpow_Suc_right o_apply)

lemma solo_deliver:
  "solo R H A L t (Deliver c (d # ds), sent, st)
     (Deliver c ds, sent, deliver_events (od_handle d) (od_client d) (od_events d) st)"
proof (induction "od_events d" arbitrary: d st)
  case Nil
  show ?case by (rule solo_step) (simp add: task_step_def solo_refl Nil [symmetric])
next
  case (Cons e es)
  note ev = Cons.hyps(2) [symmetric]
  obtain ok st1 where s: "try_send (od_handle d) e st = (ok, st1)" by fastforce
  show ?case
  proof (cases ok)
    case True
    have "task_step R H A L t (Deliver c (d # ds), sent, st) =
        (Deliver c (d\<lparr>od_events := es\<rparr> # ds), sent, st1)"
      using True by (simp add: task_step_def ev s)
    moreover have "deliver_events (od_handle d) (od_client d) (od_events d) st =
        deliver_events (od_handle d) (od_client d) es st1"
      using True by (simp add: ev s)
    ultimately show ?thesis
      using Cons.hyps(1) [of "d\<lparr>od_events := es\<rparr>" st1] by (simp add: solo_step)
  next
    case False
    have "task_step R H A L t (Deliver c (d # ds), sent, st) =
        (RemoveSlow c d ds, sent, close_send (od_handle d) st1)"
      using False by (simp add: task_step_def ev s)
    moreover have "solo R H A L t (RemoveSlow c d ds, sent, close_send (od_handle d) st1)
        (Deliver c ds, sent, deliver_events (od_handle d) (od_client d) (od_events d) st)"
      by (rule solo_step) (use False in \<open>simp add: task_step_def ev s solo_refl\<close>)
    ultimately show ?thesis by (simp add: solo_step)
  qed
qed

lemma solo_one: "task_step R H A L t x = y \<Longrightarrow> solo R H A L t x y"
  by (rule solo_step) (simp add: solo_refl)

lemma solo_trans: "solo R H A L t x y \<Longrightarrow> solo R H A L t y z \<Longrightarrow> solo R H A L t x z"
proof -
  assume "solo R H A L t x y" "solo R H A L t y z"
  then obtain m n where "(task_step R H A L t ^^ m) x = y" "(task_step R H A L t ^^ n) y = z"
    unfolding solo_def by blast
  then have "(task_step R H A L t ^^ (n + m)) x = z" by (simp add: funpow_add)
  then show ?thesis unfolding solo_def by blast
qed

lemma solo_deliver_all:
  "solo R H A L t (Deliver c ds, sent, st) (SelectLoop c, sent, deliver_all ds st)"
proof (induction ds arbitrary: st)
  case Nil
  then show ?case by (rule solo_step) (simp add: task_step_def deliver_all_def solo_refl)
next
  case (Cons d ds)
  then show ?case by (auto intro: solo_trans [OF solo_deliver] simp: deliver_all_def)
qed

text \<open>Where the task continues after \<open>route_and_flush\<close> returned.\<close>

definition after_route :: "client_id \<Rightarrow> wire_event \<Rightarrow> (unit, router_error) result \<Rightarrow> task_pc" where
  "after_route c e result = (case result of
      Ok _ \<Rightarrow> SelectLoop c
    | Err x \<Rightarrow> if should_report_routing_error e x then ReportError c e x else SelectLoop c
    | Panic \<Rightarrow> Finished (Some c))"

lemma solo_route_and_flush:
  assumes "route_and_flush R H c e st = (result, st')"
  shows "solo R H A L t (RouteEvent c e, sent, st) (after_route c e result, sent, st')"
proof -
  obtain x r' where r: "mr_route R c e (ss_router st) = (x, r')" by fastforce
  let ?st = "st\<lparr>ss_router := r'\<rparr>"
  show ?thesis
  proof (cases x)
    case (Ok u)
    let ?acc = "?st\<lparr>ss_hook := eh_on_route_accepted H c e (ss_hook st)\<rparr>"
    obtain ds r2 where d: "collect_deliveries R (ss_connections ?acc) (delivery_targets c e)
        (ss_router ?acc) = (ds, r2)" by fastforce
    have "result = Ok ()" "st' = deliver_all ds (?acc\<lparr>ss_router := r2\<rparr>)"
      using assms d by (auto simp: route_and_flush_def r Ok flush_outboxes_def)
    moreover have "task_step R H A L t (RouteEvent c e, sent, st) = (HookAccepted c e, sent, ?st)"
      "task_step R H A L t (HookAccepted c e, sent, ?st) = (CollectOutboxes c e, sent, ?acc)"
      "task_step R H A L t (CollectOutboxes c e, sent, ?acc) = (Deliver c ds, sent, ?acc\<lparr>ss_router := r2\<rparr>)"
      using d by (simp_all add: task_step_def r Ok)
    ultimately show ?thesis
      by (auto intro!: solo_step [of _ _ _ _ _ "(RouteEvent c e, sent, st)"]
          solo_step [of _ _ _ _ _ "(HookAccepted c e, sent, s)" for s]
          solo_step [of _ _ _ _ _ "(CollectOutboxes c e, sent, s)" for s]
          simp: after_route_def solo_deliver_all)
  next
    case (Err err)
    let ?rej = "?st\<lparr>ss_hook := eh_on_route_rejected H c e err (ss_hook st)\<rparr>"
    have "result = Err err" "st' = ?rej"
      using assms by (auto simp: route_and_flush_def r Err)
    then show ?thesis
      by (auto intro!: solo_step [of _ _ _ _ _ "(RouteEvent c e, sent, st)"]
          solo_step [of _ _ _ _ _ "(HookRejected c e err, sent, s)" for s]
          simp: task_step_def r Err after_route_def solo_refl)
  next
    case Panic
    then show ?thesis
      using assms
      by (auto intro!: solo_step [of _ _ _ _ _ "(RouteEvent c e, sent, st)"]
          simp: task_step_def r after_route_def solo_refl route_and_flush_def)
  qed
qed

text \<open>
  The registration part of a task computes \<open>register_client\<close> and its final part \<open>unregister_client\<close>; a failed
  registration and the end of the task drop the receiver of its queue.
\<close>

lemma solo_registration:
  "solo R H A L t (ConnectRouter c, sent, st)
     (case register_client R H c t st of
        (Ok _, st') \<Rightarrow> (SelectLoop c, sent, st')
      | (_, st') \<Rightarrow> (Finished (Some c), sent,
          st'\<lparr>ss_channels := (ss_channels st')(t := (ss_channels st' t)\<lparr>ch_receiver := False\<rparr>)\<rparr>)) \<and>
   solo R H A L t (RemoveConnection c, sent, st)
     (let st' = unregister_client R H c st in (Finished (Some c), sent,
        st'\<lparr>ss_channels := (ss_channels st')(t := (ss_channels st' t)\<lparr>ch_receiver := False\<rparr>)\<rparr>))"
proof
  obtain x r where x: "mr_connect R c (ss_router st) = (x, r)" by fastforce
  show "solo R H A L t (ConnectRouter c, sent, st)
     (case register_client R H c t st of
        (Ok _, st') \<Rightarrow> (SelectLoop c, sent, st')
      | (_, st') \<Rightarrow> (Finished (Some c), sent,
          st'\<lparr>ss_channels := (ss_channels st')(t := (ss_channels st' t)\<lparr>ch_receiver := False\<rparr>)\<rparr>))"
  proof (cases "is_ok x")
    case True
    show ?thesis
      by (rule solo_step, rule solo_step, rule solo_one)
        (use True in \<open>simp add: task_step_def register_client_def x\<close>)
  next
    case False
    show ?thesis
      by (rule solo_one) (use False in \<open>simp add: task_step_def register_client_def x\<close>)
  qed
  obtain y q where y: "mr_disconnect R c (ss_router st) = (y, q)" by fastforce
  show "solo R H A L t (RemoveConnection c, sent, st)
     (let st' = unregister_client R H c st in (Finished (Some c), sent,
        st'\<lparr>ss_channels := (ss_channels st')(t := (ss_channels st' t)\<lparr>ch_receiver := False\<rparr>)\<rparr>))"
  proof (cases "is_ok y")
    case True
    show ?thesis
      by (rule solo_step, rule solo_step, rule solo_step, rule solo_one)
        (use True in \<open>simp add: task_step_def unregister_client_def y\<close>)
  next
    case False
    show ?thesis
      by (rule solo_step, rule solo_step, rule solo_one)
        (use False in \<open>simp add: task_step_def unregister_client_def y\<close>)
  qed
qed

section \<open>Delivery\<close>

definition has_room :: "client_handle \<Rightarrow> nat \<Rightarrow> ('r, 'h, 'a) server_state \<Rightarrow> bool" where
  "has_room h n st \<longleftrightarrow>
     ch_receiver (ss_channels st h) \<and> length (ch_events (ss_channels st h)) + n \<le> OUTBOX_CAPACITY"

definition queue :: "client_handle \<Rightarrow> ('r, 'h, 'a) server_state \<Rightarrow> wire_event list" where
  "queue h st = ch_events (ss_channels st h)"

definition push_events ::
  "client_handle \<Rightarrow> wire_event list \<Rightarrow> ('r, 'h, 'a) server_state \<Rightarrow> ('r, 'h, 'a) server_state" where
  "push_events h es st =
     st\<lparr>ss_channels := (ss_channels st)(h := (ss_channels st h)\<lparr>ch_events := queue h st @ es\<rparr>)\<rparr>"

lemma queue_upd [simp]:
  "queue h (st\<lparr>ss_hook := x\<rparr>) = queue h st" "queue h (st\<lparr>ss_router := r\<rparr>) = queue h st"
  "queue h (st\<lparr>ss_connections := m\<rparr>) = queue h st"
  by (simp_all add: queue_def)

lemma push_events_frame [simp]:
  "ss_router (push_events h es st) = ss_router st" "ss_hook (push_events h es st) = ss_hook st"
  "ss_connections (push_events h es st) = ss_connections st" "ss_auth (push_events h es st) = ss_auth st"
  "queue h' (push_events h es st) = queue h' st @ (if h' = h then es else [])"
  "ch_receiver (ss_channels (push_events h es st) h') = ch_receiver (ss_channels st h')"
  "ch_close (ss_channels (push_events h es st) h') = ch_close (ss_channels st h')"
  by (simp_all add: push_events_def queue_def)

lemma deliver_events_append:
  assumes "has_room h (length as) st"
  shows "deliver_events h c (as @ bs) st = deliver_events h c bs (push_events h as st)"
  using assms
proof (induction as arbitrary: st)
  case Nil
  then show ?case by (simp add: push_events_def queue_def)
next
  case (Cons a as)
  have "try_send h a st = (True, push_events h [a] st)"
    using Cons.prems by (simp add: try_send_def has_room_def push_events_def queue_def Let_def)
  moreover have "has_room h (length as) (push_events h [a] st)"
    using Cons.prems by (simp add: has_room_def push_events_def queue_def)
  moreover have "push_events h as (push_events h [a] st) = push_events h (a # as) st"
    by (simp add: push_events_def queue_def)
  ultimately show ?case using Cons.IH by simp
qed

lemma deliver_events_room:
  "has_room h (length es) st \<Longrightarrow> deliver_events h c es st = push_events h es st"
  using deliver_events_append [of h es st c "[]"] by simp

text \<open>The first event that does not fit ends the connection; what fitted stays in its queue.\<close>

lemma deliver_events_full:
  assumes "ch_receiver (ss_channels st h)" and "length (queue h st) \<le> OUTBOX_CAPACITY"
    and "OUTBOX_CAPACITY < length (queue h st) + length es"
  shows "deliver_events h c es st =
    (close_send h (push_events h (take (OUTBOX_CAPACITY - length (queue h st)) es) st))
      \<lparr>ss_connections := (ss_connections st)(c := None)\<rparr>"
proof -
  let ?n = "OUTBOX_CAPACITY - length (queue h st)"
  obtain x xs where x: "drop ?n es = x # xs"
    using assms(2,3) by (cases "drop ?n es") auto
  have room: "has_room h (length (take ?n es)) st"
    using assms by (simp add: has_room_def queue_def)
  have len: "length (take ?n es) = ?n" using assms(3) by simp
  have "deliver_events h c es st = deliver_events h c (x # xs) (push_events h (take ?n es) st)"
    using deliver_events_append [OF room, of c "drop ?n es"] unfolding x append_take_drop_id
    by (metis append_take_drop_id x)
  moreover have "\<not> fst (try_send h x (push_events h (take ?n es) st))"
    using assms(2) len by (simp add: try_send_ok_iff push_events_def queue_def)
  then have "try_send h x (push_events h (take ?n es) st) = (False, push_events h (take ?n es) st)"
    using try_send_failed by (simp add: prod_eq_iff)
  ultimately show ?thesis by simp
qed

section \<open>Routing an event\<close>

lemma collect_one:
  assumes "conns d = Some h" and "mr_drain_outbox R d r = (es, r')" and "es \<noteq> []"
  shows "collect_deliveries R conns [d] r = ([\<lparr>od_handle = h, od_client = d, od_events = es\<rparr>], r')"
  using assms by simp

context relay_router
begin

lemma route_rejected_state:
  assumes "route_outcome c e (clients (ss_router st)) = Err x"
  shows "route_and_flush R H c e st =
     (Err x, st\<lparr>ss_hook := eh_on_route_rejected H c e x (ss_hook st)\<rparr>)"
  using route_rejected [OF assms] by (simp add: route_and_flush_def)

text \<open>An encrypted message between two registered clients with room in their queues.\<close>

lemma route_message_delivers:
  assumes ok: "route_outcome c (EncryptedMessage env) (clients (ss_router st)) = Ok d"
    and "d \<noteq> c" and conns: "ss_connections st d = Some dh" "ss_connections st c = Some ch"
    and "dh \<noteq> ch"
    and room: "has_room dh (length (pending (ss_router st) d) + 1) st"
      "has_room ch (length (pending (ss_router st) c) + 1) st"
    and res: "route_and_flush R H c (EncryptedMessage env) st = (result, st')"
  shows "result = Ok () \<and>
    queue dh st' = queue dh st @ pending (ss_router st) d @ [EncryptedMessage env] \<and>
    queue ch st' = queue ch st @ pending (ss_router st) c @ [Ack (env_message_id env)] \<and>
    (\<forall>h. h \<noteq> dh \<longrightarrow> h \<noteq> ch \<longrightarrow> queue h st' = queue h st) \<and>
    pending (ss_router st') = (pending (ss_router st))(d := [], c := []) \<and>
    clients (ss_router st') = clients (ss_router st) \<and>
    ss_connections st' = ss_connections st \<and>
    ss_hook st' = eh_on_route_accepted H c (EncryptedMessage env) (ss_hook st) \<and> ss_auth st' = ss_auth st \<and>
    (\<forall>h. ch_receiver (ss_channels st' h) = ch_receiver (ss_channels st h) \<and>
      ch_close (ss_channels st' h) = ch_close (ss_channels st h))"
proof -
  let ?e = "EncryptedMessage env" and ?r = "ss_router st"
  have cl: "c \<in> clients ?r" "d \<in> clients ?r" and rc: "env_recipient env = d" "env_sender env = c"
    using ok by (auto simp: route_outcome_Ok_iff split: if_splits)
  obtain r1 where r1: "mr_route R c ?e ?r = (Ok (), r1)"
    using route_accepted [OF ok] by (cases "mr_route R c ?e ?r") simp
  have p1: "clients r1 = clients ?r" "pending r1 d = pending ?r d @ [?e]"
    "pending r1 c = pending ?r c @ [Ack (env_message_id env)]" "(pending r1)(d := [], c := []) = (pending ?r)(d := [], c := [])"
    using route_clients [of c ?e ?r] route_pending [OF ok] \<open>d \<noteq> c\<close> by (auto simp: r1 enqueued_def fun_eq_iff)
  obtain r2 where r2: "mr_drain_outbox R d r1 = (pending r1 d, r2)"
    using drain_result [of d r1] cl p1(1) by (cases "mr_drain_outbox R d r1") simp
  have p2: "clients r2 = clients ?r" "pending r2 = (pending r1)(d := [])"
    using drain_clients [of d r1] drain_pending [of d r1] cl p1(1) by (simp_all add: r2)
  obtain r3 where r3: "mr_drain_outbox R c r2 = (pending r1 c, r3)"
    using drain_result [of c r2] cl p2 \<open>d \<noteq> c\<close> by (cases "mr_drain_outbox R c r2") simp
  have p3: "clients r3 = clients ?r" "pending r3 = (pending r1)(d := [], c := [])"
    using drain_clients [of c r2] drain_pending [of c r2] cl p2 by (simp_all add: r3)
  let ?h = "st\<lparr>ss_hook := eh_on_route_accepted H c ?e (ss_hook st), ss_router := r3\<rparr>"
  have room': "has_room dh (length (pending r1 d)) ?h"
    "has_room ch (length (pending r1 c)) (push_events dh (pending r1 d) ?h)"
    using room \<open>dh \<noteq> ch\<close> by (simp_all add: has_room_def p1 push_events_def queue_def)
  have "collect_deliveries R (ss_connections st) [d, c] r1 =
      ([\<lparr>od_handle = dh, od_client = d, od_events = pending r1 d\<rparr>,
        \<lparr>od_handle = ch, od_client = c, od_events = pending r1 c\<rparr>], r3)"
    using conns r2 r3 p1(2,3) by simp
  then have "route_and_flush R H c ?e st =
      (Ok (), push_events ch (pending r1 c) (push_events dh (pending r1 d) ?h))"
    using room' by (simp add: route_and_flush_def r1 flush_outboxes_def rc deliver_all_def Let_def
        deliver_events_room del: collect_deliveries.simps)
  then have "result = Ok ()" "st' = push_events ch (pending r1 c) (push_events dh (pending r1 d) ?h)"
    using res by simp_all
  then show ?thesis using \<open>dh \<noteq> ch\<close> \<open>d \<noteq> c\<close> p1 p3 by simp
qed

text \<open>A key offer to a registered client with room in its queue.\<close>

lemma route_key_delivers:
  assumes ok: "route_outcome c (PeerKey c d k) (clients (ss_router st)) = Ok d" and conn: "ss_connections st d = Some dh"
    and room: "has_room dh (length (pending (ss_router st) d) + 1) st"
    and res: "route_and_flush R H c (PeerKey c d k) st = (result, st')"
  shows "result = Ok () \<and>
    queue dh st' = queue dh st @ pending (ss_router st) d @ [PeerKey c d k] \<and>
    (\<forall>h. h \<noteq> dh \<longrightarrow> queue h st' = queue h st) \<and>
    pending (ss_router st') = (pending (ss_router st))(d := []) \<and>
    clients (ss_router st') = clients (ss_router st) \<and> ss_connections st' = ss_connections st \<and>
    (\<forall>h. ch_receiver (ss_channels st' h) = ch_receiver (ss_channels st h))"
proof -
  let ?e = "PeerKey c d k" and ?r = "ss_router st"
  have cl: "d \<in> clients ?r" using ok by (auto simp: route_outcome_Ok_iff split: if_splits)
  obtain r1 where r1: "mr_route R c ?e ?r = (Ok (), r1)"
    using route_accepted [OF ok] by (cases "mr_route R c ?e ?r") simp
  have p1: "clients r1 = clients ?r" "pending r1 = (pending ?r)(d := pending ?r d @ [?e])"
    using route_clients [of c ?e ?r] route_pending [OF ok] by (auto simp: r1 enqueued_def fun_eq_iff)
  obtain r2 where r2: "mr_drain_outbox R d r1 = (pending r1 d, r2)"
    using drain_result [of d r1] cl p1(1) by (cases "mr_drain_outbox R d r1") simp
  have p2: "clients r2 = clients ?r" "pending r2 = (pending ?r)(d := [])"
    using drain_clients [of d r1] drain_pending [of d r1] cl p1 by (simp_all add: r2)
  let ?h = "st\<lparr>ss_hook := eh_on_route_accepted H c ?e (ss_hook st), ss_router := r2\<rparr>"
  have "has_room dh (length (pending r1 d)) ?h" using room by (simp add: has_room_def p1)
  then have "route_and_flush R H c ?e st = (Ok (), push_events dh (pending r1 d) ?h)"
    using collect_one [of "ss_connections st" d dh R r1 "pending r1 d" r2] conn r2 p1(2)
    by (simp add: route_and_flush_def r1 flush_outboxes_def deliver_all_def Let_def deliver_events_room
        del: collect_deliveries.simps)
  then have "result = Ok ()" "st' = push_events dh (pending r1 d) ?h" using res by simp_all
  then show ?thesis using p1 p2 by simp
qed

end

end
