(* ===== verification/Server_Race.thy ===== *)
theory Server_Race
  imports Server_Flush
begin

text \<open>
  An executable scheduler for the relay, and a schedule that shows what the delivery loop of
  \<open>flush_outboxes\<close> does when a client reconnects between the section that collects the outboxes and
  the section that removes a connection: the entry it removes is the one of the new connection.
\<close>

datatype relay_action = ActOpen nat | ActFrame nat ws_input | ActTask nat

definition relay_act ::
  "'r message_router \<Rightarrow> 'h event_hook \<Rightarrow> 'a auth_provider \<Rightarrow> crates \<Rightarrow> relay_action
    \<Rightarrow> ('r, 'h, 'a) relay \<Rightarrow> (router_op list \<times> ('r, 'h, 'a) relay) option" where
  "relay_act R H A L act w = (case act of
      ActOpen t \<Rightarrow> if rl_task w t = Unopened then Some ([], goto t ReadHello w) else None
    | ActFrame t i \<Rightarrow> (case rl_task w t of
          ReadHello \<Rightarrow> Some ([], goto t (read_hello_next L i) w)
        | SelectLoop c \<Rightarrow> Some ([], goto t (select_next L c i) w)
        | _ \<Rightarrow> None)
    | ActTask t \<Rightarrow> Some (route_calls (rl_task w t), run_task R H A L t w))"

fun relay_sched ::
  "'r message_router \<Rightarrow> 'h event_hook \<Rightarrow> 'a auth_provider \<Rightarrow> crates \<Rightarrow> relay_action list
    \<Rightarrow> router_op list \<times> ('r, 'h, 'a) relay \<Rightarrow> (router_op list \<times> ('r, 'h, 'a) relay) option" where
  "relay_sched R H A L [] x = Some x"
| "relay_sched R H A L (act # acts) x = (case relay_act R H A L act (snd x) of
      None \<Rightarrow> None
    | Some (calls, w) \<Rightarrow> relay_sched R H A L acts (calls @ fst x, w))"

lemma relay_act_step:
  assumes "relay_act R H A L act w = Some (calls, w')"
  shows "relay_step R H A L w calls w'"
  using assms
  by (auto simp: relay_act_def intro: relay_step.intros
      split: relay_action.splits task_pc.splits if_splits)

lemma relay_sched_reach:
  assumes "relay_sched R H A L acts (ops, w) = Some (ops', w')" and "relay_reach R H A L w0 ops w"
  shows "relay_reach R H A L w0 ops' w'"
  using assms
proof (induction acts arbitrary: ops w)
  case (Cons act acts)
  then obtain calls v where v: "relay_act R H A L act w = Some (calls, v)"
    "relay_sched R H A L acts (calls @ ops, v) = Some (ops', w')"
    by (auto split: option.splits)
  show ?case
    by (rule Cons.IH [OF v(2)])
      (blast intro: relay_reach.reach_step Cons.prems(2) relay_act_step [OF v(1)])
qed simp

section \<open>The schedule\<close>

definition frame_of :: "crates \<Rightarrow> wire_event \<Rightarrow> ws_input" where
  "frame_of L e = (case json_of_wire L e of Some t \<Rightarrow> TextFrame t | None \<Rightarrow> OtherFrame)"

lemma frame_of_event:
  assumes "json_wire_roundtrip L" and "wf_wire_event e"
  obtains t where "frame_of L e = TextFrame t" and "wire_of_json L t = Some e"
  using assms unfolding json_wire_roundtrip_def frame_of_def by fastforce

definition enters :: "nat \<Rightarrow> ws_input \<Rightarrow> relay_action list" where
  "enters t i = [ActOpen t, ActFrame t i, ActTask t, ActTask t, ActTask t, ActTask t]"

definition joins :: "crates \<Rightarrow> nat \<Rightarrow> client_id \<Rightarrow> relay_action list" where
  "joins L t c = enters t (frame_of L (ClientHello c some_key))"

definition leaves :: "nat \<Rightarrow> relay_action list" where
  "leaves t = [ActFrame t EndOfStream, ActTask t, ActTask t, ActTask t, ActTask t]"

definition offers_key :: "crates \<Rightarrow> nat \<Rightarrow> client_id \<Rightarrow> client_id \<Rightarrow> relay_action list" where
  "offers_key L t c d = [ActFrame t (frame_of L (PeerKey c d some_key)), ActTask t, ActTask t, ActTask t]"

text \<open>
  Alice and Bob connect; Alice's key offer is collected from Bob's outbox; Bob disconnects and
  connects again; then Alice's task goes on with the delivery.
\<close>

definition race :: "crates \<Rightarrow> relay_action list" where
  "race L = joins L 0 alice @ joins L 1 bob @ offers_key L 0 alice bob @ leaves 1 @
     joins L 2 bob @ [ActTask 0, ActTask 0]"

text \<open>A relay with the default providers.\<close>

definition default_relay :: "(in_memory_router, unit, unit) relay" where
  "default_relay = relay_new (ws_server_run (ws_server_new ()))"

text \<open>
  A live connection that has lost its table entry: registered, in its main loop, never asked to
  close, nothing in its queue, and yet its close channel reports the end.
\<close>

definition orphaned :: "nat \<Rightarrow> client_id \<Rightarrow> ('r, 'h, 'a) relay \<Rightarrow> bool" where
  "orphaned t c w \<longleftrightarrow>
     rl_task w t = SelectLoop c \<and> ss_connections (rl_state w) c = None \<and>
     ss_channels (rl_state w) t = channel_new \<and> close_ready t w"

section \<open>Its parts\<close>

abbreviation sched where
  "sched L \<equiv> relay_sched in_memory_message_router noop_event_hook noop_auth_provider L"

definition joined :: "nat \<Rightarrow> client_id \<Rightarrow> (in_memory_router, unit, unit) relay
    \<Rightarrow> (in_memory_router, unit, unit) relay" where
  "joined t c w = w\<lparr>
     rl_state := (rl_state w)\<lparr>
       ss_channels := (ss_channels (rl_state w))(t := channel_new),
       ss_router := \<lparr>outboxes = (outboxes (ss_router (rl_state w)))(c \<mapsto> [])\<rparr>,
       ss_connections := (ss_connections (rl_state w))(c \<mapsto> t)\<rparr>,
     rl_task := (rl_task w)(t := SelectLoop c), rl_writer := (rl_writer w)(t := WriterRecv)\<rparr>"

lemma relay_sched_append:
  "relay_sched R H A L (as @ bs) x = (case relay_sched R H A L as x of
      None \<Rightarrow> None | Some y \<Rightarrow> relay_sched R H A L bs y)"
  by (induction as arbitrary: x) (simp_all split: option.split)

text \<open>One step of a task of the default relay, at the control points the schedule passes.\<close>

definition moved :: "nat \<Rightarrow> task_pc \<Rightarrow> ('r, 'h, 'a) server_state \<Rightarrow> ('r, 'h, 'a) relay
    \<Rightarrow> ('r, 'h, 'a) relay" where
  "moved t pc st w = w\<lparr>rl_state := st, rl_task := (rl_task w)(t := pc)\<rparr>"

lemma moved_simps [simp]:
  "rl_state (moved t pc st w) = st" "rl_task (moved t pc st w) = (rl_task w)(t := pc)"
  "rl_writer (moved t pc st w) = rl_writer w"
  "moved t pc st (moved t pc' st' w) = moved t pc st w"
  "moved t pc st (w\<lparr>rl_writer := v\<rparr>) = (moved t pc st w)\<lparr>rl_writer := v\<rparr>"
  "moved t pc st (goto t pc' w) = moved t pc st w"
  by (simp_all add: moved_def goto_def)

abbreviation run where
  "run L \<equiv> run_task in_memory_message_router noop_event_hook noop_auth_provider L"

lemma run_default:
  "rl_task w t = Authorize c \<Longrightarrow>
      run L t w = moved t (ConnectRouter c) ((rl_state w)\<lparr>ss_channels := (ss_channels (rl_state w))(t := channel_new)\<rparr>) w"
  "rl_task w t = ConnectRouter c \<Longrightarrow> outboxes (ss_router (rl_state w)) c = None \<Longrightarrow>
      run L t w = moved t (InsertConnection c)
        ((rl_state w)\<lparr>ss_router := \<lparr>outboxes = (outboxes (ss_router (rl_state w)))(c \<mapsto> [])\<rparr>\<rparr>) w"
  "rl_task w t = InsertConnection c \<Longrightarrow>
      run L t w = moved t (HookConnect c) ((rl_state w)\<lparr>ss_connections := (ss_connections (rl_state w))(c \<mapsto> t)\<rparr>) w"
  "rl_task w t = HookConnect c \<Longrightarrow>
      run L t w = (moved t (SelectLoop c) (rl_state w) w)\<lparr>rl_writer := (rl_writer w)(t := WriterRecv)\<rparr>"
  "rl_task w t = RouteEvent c (PeerKey c d k) \<Longrightarrow> outboxes (ss_router (rl_state w)) c \<noteq> None \<Longrightarrow>
      outboxes (ss_router (rl_state w)) d = Some q \<Longrightarrow>
      run L t w = moved t (HookAccepted c (PeerKey c d k))
        ((rl_state w)\<lparr>ss_router := \<lparr>outboxes = (outboxes (ss_router (rl_state w)))(d \<mapsto> q @ [PeerKey c d k])\<rparr>\<rparr>) w"
  "rl_task w t = HookAccepted c e \<Longrightarrow> run L t w = moved t (CollectOutboxes c e) (rl_state w) w"
  "rl_task w t = CollectOutboxes c (PeerKey c d k) \<Longrightarrow> ss_connections (rl_state w) d = Some h \<Longrightarrow>
      outboxes (ss_router (rl_state w)) d = Some q \<Longrightarrow> q \<noteq> [] \<Longrightarrow>
      run L t w = moved t (Deliver c [\<lparr>od_handle = h, od_client = d, od_events = q\<rparr>])
        ((rl_state w)\<lparr>ss_router := \<lparr>outboxes = (outboxes (ss_router (rl_state w)))(d \<mapsto> [])\<rparr>\<rparr>) w"
  "rl_task w t = RemoveConnection c \<Longrightarrow>
      run L t w = moved t (DisconnectRouter c) ((rl_state w)\<lparr>ss_connections := (ss_connections (rl_state w))(c := None)\<rparr>) w"
  "rl_task w t = DisconnectRouter c \<Longrightarrow> outboxes (ss_router (rl_state w)) c \<noteq> None \<Longrightarrow>
      run L t w = moved t (HookDisconnect c)
        ((rl_state w)\<lparr>ss_router := \<lparr>outboxes = (outboxes (ss_router (rl_state w)))(c := None)\<rparr>\<rparr>) w"
  "rl_task w t = HookDisconnect c \<Longrightarrow> run L t w = moved t (AbortWriter c) (rl_state w) w"
  "rl_task w t = AbortWriter c \<Longrightarrow>
      run L t w = (moved t (Finished (Some c)) ((rl_state w)\<lparr>ss_channels :=
        (ss_channels (rl_state w))(t := (ss_channels (rl_state w) t)\<lparr>ch_receiver := False\<rparr>)\<rparr>) w)
          \<lparr>rl_writer := (rl_writer w)(t := WriterOff)\<rparr>"
  "rl_task w t = Deliver c (x # ds) \<Longrightarrow> od_events x = e # es \<Longrightarrow>
      \<not> ch_receiver (ss_channels (rl_state w) (od_handle x)) \<Longrightarrow>
      run L t w = moved t (RemoveSlow c x ds) (close_send (od_handle x) (rl_state w)) w"
  "rl_task w t = RemoveSlow c x ds \<Longrightarrow>
      run L t w = moved t (Deliver c ds) ((rl_state w)\<lparr>ss_connections := (ss_connections (rl_state w))(od_client x := None)\<rparr>) w"
  by (simp_all add: run_task_def task_step_def noop_event_hook_def noop_auth_provider_def
      in_memory_message_router_def in_memory_connect_def in_memory_route_def in_memory_disconnect_def
      in_memory_drain_outbox_def writer_after_def moved_def try_send_def split: option.split)
    auto

text \<open>One action of a schedule at a time, so that every intermediate state is computed once.\<close>

lemma sched_task:
  "run L t w = v \<Longrightarrow> route_calls (rl_task w t) = [] \<Longrightarrow>
     sched L (ActTask t # acts) (ops, w) = sched L acts (ops, v)"
  by (simp add: relay_act_def)

lemma sched_frame:
  "rl_task w t = ReadHello \<Longrightarrow> read_hello_next L i = pc \<Longrightarrow>
     sched L (ActFrame t i # acts) (ops, w) = sched L acts (ops, goto t pc w)"
  "rl_task w t = SelectLoop c \<Longrightarrow> select_next L c i = pc \<Longrightarrow>
     sched L (ActFrame t i # acts) (ops, w) = sched L acts (ops, goto t pc w)"
  by (simp_all add: relay_act_def)

lemma sched_open:
  "rl_task w t = Unopened \<Longrightarrow> sched L (ActOpen t # acts) (ops, w) = sched L acts (ops, goto t ReadHello w)"
  by (simp add: relay_act_def)

lemma enters_run:
  assumes "hello_frame L i = HelloFrom c"
    and "rl_task w t = Unopened" and "outboxes (ss_router (rl_state w)) c = None"
  shows "sched L (enters t i) (ops, w) = Some (ops, joined t c w)"
proof -
  let ?st = "rl_state w"
  let ?st1 = "?st\<lparr>ss_channels := (ss_channels ?st)(t := channel_new)\<rparr>"
  let ?st2 = "?st1\<lparr>ss_router := \<lparr>outboxes = (outboxes (ss_router ?st))(c \<mapsto> [])\<rparr>\<rparr>"
  let ?st3 = "?st2\<lparr>ss_connections := (ss_connections ?st)(c \<mapsto> t)\<rparr>"
  let ?w1 = "goto t ReadHello w" and ?w2 = "goto t (Authorize c) (goto t ReadHello w)"
  have h: "read_hello_next L i = Authorize c" by (simp add: read_hello_next_def assms(1))
  have 1: "run L t ?w2 = moved t (ConnectRouter c) ?st1 w"
    by (subst run_default(1)) simp_all
  have 2: "run L t (moved t (ConnectRouter c) ?st1 w) = moved t (InsertConnection c) ?st2 w"
    by (subst run_default(2)) (use assms(3) in simp_all)
  have 3: "run L t (moved t (InsertConnection c) ?st2 w) = moved t (HookConnect c) ?st3 w"
    by (subst run_default(3)) simp_all
  have 4: "run L t (moved t (HookConnect c) ?st3 w) =
      (moved t (SelectLoop c) ?st3 w)\<lparr>rl_writer := (rl_writer w)(t := WriterRecv)\<rparr>"
    by (subst run_default(4)) simp_all
  have "sched L (enters t i) (ops, w) =
      Some (ops, (moved t (SelectLoop c) ?st3 w)\<lparr>rl_writer := (rl_writer w)(t := WriterRecv)\<rparr>)"
    unfolding enters_def sched_open [OF assms(2)]
    by (subst sched_frame(1) [OF _ h]) (simp_all add: sched_task [OF 1] sched_task [OF 2] sched_task [OF 3]
        sched_task [OF 4] del: relay_sched.simps(2) run_task_frame moved_simps(4-))
  then show ?thesis by (simp add: joined_def moved_def)
qed

lemma joins_run:
  assumes "json_wire_roundtrip L" and "valid_client_id c"
    and "rl_task w t = Unopened" and "outboxes (ss_router (rl_state w)) c = None"
  shows "sched L (joins L t c) (ops, w) = Some (ops, joined t c w)"
proof -
  obtain f where "frame_of L (ClientHello c some_key) = TextFrame f"
    "wire_of_json L f = Some (ClientHello c some_key)"
    using frame_of_event [OF assms(1), of "ClientHello c some_key"] assms(2)
    by (auto simp: some_key_def wf_public_key_def)
  then have "hello_frame L (frame_of L (ClientHello c some_key)) = HelloFrom c" by (simp add: hello_frame_def)
  from enters_run [OF this assms(3,4)] show ?thesis by (simp only: joins_def)
qed

definition left :: "nat \<Rightarrow> client_id \<Rightarrow> (in_memory_router, unit, unit) relay
    \<Rightarrow> (in_memory_router, unit, unit) relay" where
  "left t c w =
     (moved t (Finished (Some c)) ((rl_state w)\<lparr>
       ss_connections := (ss_connections (rl_state w))(c := None),
       ss_router := \<lparr>outboxes = (outboxes (ss_router (rl_state w)))(c := None)\<rparr>,
       ss_channels := (ss_channels (rl_state w))(t :=
         (ss_channels (rl_state w) t)\<lparr>ch_receiver := False\<rparr>)\<rparr>) w)
     \<lparr>rl_writer := (rl_writer w)(t := WriterOff)\<rparr>"

lemma leaves_run:
  assumes "rl_task w t = SelectLoop c" and "outboxes (ss_router (rl_state w)) c \<noteq> None"
  shows "sched L (leaves t) (ops, w) = Some (ops, left t c w)"
proof -
  let ?st = "rl_state w"
  let ?st1 = "?st\<lparr>ss_connections := (ss_connections ?st)(c := None)\<rparr>"
  let ?st2 = "?st1\<lparr>ss_router := \<lparr>outboxes = (outboxes (ss_router ?st))(c := None)\<rparr>\<rparr>"
  let ?w1 = "goto t (RemoveConnection c) w"
  have h: "select_next L c EndOfStream = RemoveConnection c" by (simp add: select_next_def loop_frame_def)
  have 1: "run L t ?w1 = moved t (DisconnectRouter c) ?st1 w"
    by (subst run_default(8)) simp_all
  have 2: "run L t (moved t (DisconnectRouter c) ?st1 w) = moved t (HookDisconnect c) ?st2 w"
    by (subst run_default(9)) (use assms(2) in simp_all)
  have 3: "run L t (moved t (HookDisconnect c) ?st2 w) = moved t (AbortWriter c) ?st2 w"
    by (subst run_default(10)) simp_all
  have 4: "run L t (moved t (AbortWriter c) ?st2 w) = left t c w"
    by (subst run_default(11)) (simp_all add: left_def)
  have "sched L (leaves t) (ops, w) = sched L [ActTask t, ActTask t, ActTask t, ActTask t] (ops, ?w1)"
    unfolding leaves_def by (rule sched_frame(2) [OF assms(1) h])
  also have "\<dots> = Some (ops, left t c w)"
    by (simp add: sched_task [OF 1] sched_task [OF 2] sched_task [OF 3] sched_task [OF 4]
        del: relay_sched.simps(2) run_task_frame)
  finally show ?thesis .
qed

definition collected :: "nat \<Rightarrow> client_id \<Rightarrow> client_id \<Rightarrow> client_handle
    \<Rightarrow> (in_memory_router, unit, unit) relay \<Rightarrow> (in_memory_router, unit, unit) relay" where
  "collected t c d h w =
     moved t (Deliver c [\<lparr>od_handle = h, od_client = d, od_events = [PeerKey c d some_key]\<rparr>])
       ((rl_state w)\<lparr>ss_router := \<lparr>outboxes = (outboxes (ss_router (rl_state w)))(d \<mapsto> [])\<rparr>\<rparr>) w"

lemma offers_key_run:
  assumes "json_wire_roundtrip L" and "valid_client_id c" and "valid_client_id d"
    and "rl_task w t = SelectLoop c" and "outboxes (ss_router (rl_state w)) c \<noteq> None"
    and "outboxes (ss_router (rl_state w)) d = Some []" and "ss_connections (rl_state w) d = Some h"
  shows "sched L (offers_key L t c d) (ops, w) =
    Some (OpRoute c (PeerKey c d some_key) # ops, collected t c d h w)"
proof -
  obtain f where f: "frame_of L (PeerKey c d some_key) = TextFrame f"
    "wire_of_json L f = Some (PeerKey c d some_key)"
    using frame_of_event [OF assms(1), of "PeerKey c d some_key"] assms(2,3)
    by (auto simp: some_key_def wf_public_key_def)
  show ?thesis
    using assms(4-7)
    by (simp add: offers_key_def f relay_act_def select_next_def loop_frame_def run_default
        collected_def del: run_task_frame)
qed

section \<open>The outcome\<close>

lemma race_orphans:
  assumes "json_wire_roundtrip L"
  shows "\<exists>ops w. sched L (race L) ([], default_relay) = Some (ops, w) \<and> orphaned 2 bob w"
proof -
  let ?w0 = default_relay
  let ?w1 = "joined 0 alice ?w0"
  let ?w2 = "joined 1 bob ?w1"
  let ?w3 = "collected 0 alice bob 1 ?w2"
  let ?w4 = "left 1 bob ?w3"
  let ?w5 = "joined 2 bob ?w4"
  let ?d = "\<lparr>od_handle = 1, od_client = bob, od_events = [PeerKey alice bob some_key]\<rparr>"
  note defs = default_relay_def ws_server_run_def ws_server_new_def in_memory_router_default_def
    server_state_new_def
  note parts = defs joined_def left_def collected_def
  have j: "sched L (joins L 0 alice) (ops, ?w0) = Some (ops, ?w1)"
    "sched L (joins L 1 bob) (ops, ?w1) = Some (ops, ?w2)"
    "sched L (joins L 2 bob) (ops, ?w4) = Some (ops, ?w5)" for ops
    by (rule joins_run [OF assms]; simp add: parts)+
  have o: "sched L (offers_key L 0 alice bob) (ops, ?w2) =
      Some (OpRoute alice (PeerKey alice bob some_key) # ops, ?w3)" for ops
    by (rule offers_key_run [OF assms]) (simp_all add: parts)
  have l: "sched L (leaves 1) (ops, ?w3) = Some (ops, ?w4)" for ops
    by (rule leaves_run) (simp_all add: parts)
  have t: "rl_task ?w5 0 = Deliver alice [?d]" "\<not> ch_receiver (ss_channels (rl_state ?w5) 1)"
    by (simp_all add: parts)
  then have f: "sched L [ActTask 0, ActTask 0] (ops, ?w5) = Some (ops, moved 0 (Deliver alice [])
      ((close_send 1 (rl_state ?w5))\<lparr>ss_connections := (ss_connections (rl_state ?w5))(bob := None)\<rparr>) ?w5)" for ops
    by (simp add: relay_act_def run_default del: run_task_frame)
  have "orphaned 2 bob (moved 0 (Deliver alice [])
      ((close_send 1 (rl_state ?w5))\<lparr>ss_connections := (ss_connections (rl_state ?w5))(bob := None)\<rparr>) ?w5)"
    by (auto simp: orphaned_def close_ready_def close_send_def parts ran_def Let_def)
  then show ?thesis unfolding race_def relay_sched_append j o l f option.case by blast
qed

end
