(* ===== verification/Server_Reorder.thy ===== *)
theory Server_Reorder
  imports Server_Race
begin

text \<open>
  A schedule in which two messages of one client arrive in the other order. A connection drains its
  own outbox when it sends a message of its own, and \<open>flush_outboxes\<close> gives the locks back before it
  puts the drained events into the queue; a delivery by another task that runs in between goes first.
\<close>

section \<open>Steps with encrypted messages\<close>

text \<open>The moves of a task that handles an encrypted message of \<open>c\<close> for \<open>d\<close>.\<close>

definition between :: "client_id \<Rightarrow> client_id \<Rightarrow> encrypted_envelope \<Rightarrow> bool" where
  "between c d env \<longleftrightarrow> wf_envelope env \<and> env_sender env = c \<and> env_recipient env = d"

definition posted :: "nat \<Rightarrow> client_id \<Rightarrow> client_id \<Rightarrow> encrypted_envelope \<Rightarrow> (in_memory_router, unit, unit) relay
    \<Rightarrow> (in_memory_router, unit, unit) relay" where
  "posted t c d env w =
     (let st = rl_state w; boxes = outboxes (ss_router st) in
      moved t (CollectOutboxes c (EncryptedMessage env))
        (st\<lparr>ss_router := \<lparr>outboxes = boxes(d \<mapsto> the (boxes d) @ [EncryptedMessage env],
              c \<mapsto> the (boxes c) @ [Ack (env_message_id env)])\<rparr>\<rparr>) w)"

definition drained :: "nat \<Rightarrow> client_id \<Rightarrow> client_id \<Rightarrow> (in_memory_router, unit, unit) relay
    \<Rightarrow> (in_memory_router, unit, unit) relay" where
  "drained t c d w =
     (let st = rl_state w; boxes = outboxes (ss_router st); conns = ss_connections st in
      moved t (Deliver c (filter (\<lambda>x. od_events x \<noteq> [])
          [\<lparr>od_handle = the (conns d), od_client = d, od_events = the (boxes d)\<rparr>,
           \<lparr>od_handle = the (conns c), od_client = c, od_events = the (boxes c)\<rparr>]))
        (st\<lparr>ss_router := \<lparr>outboxes = boxes(d \<mapsto> [], c \<mapsto> [])\<rparr>\<rparr>) w)"

lemma posted_simps [simp]:
  "rl_task (posted t c d env w) = (rl_task w)(t := CollectOutboxes c (EncryptedMessage env))"
  "ss_connections (rl_state (posted t c d env w)) = ss_connections (rl_state w)"
  "ss_channels (rl_state (posted t c d env w)) = ss_channels (rl_state w)"
  "outboxes (ss_router (rl_state (posted t c d env w))) =
     (outboxes (ss_router (rl_state w)))(d \<mapsto> the (outboxes (ss_router (rl_state w)) d) @ [EncryptedMessage env],
       c \<mapsto> the (outboxes (ss_router (rl_state w)) c) @ [Ack (env_message_id env)])"
  by (simp_all add: posted_def Let_def)

lemma drained_simps [simp]:
  "rl_task (drained t c d w) = (rl_task w)(t := Deliver c (filter (\<lambda>x. od_events x \<noteq> [])
     [\<lparr>od_handle = the (ss_connections (rl_state w) d), od_client = d, od_events = the (outboxes (ss_router (rl_state w)) d)\<rparr>,
      \<lparr>od_handle = the (ss_connections (rl_state w) c), od_client = c, od_events = the (outboxes (ss_router (rl_state w)) c)\<rparr>]))"
  "ss_connections (rl_state (drained t c d w)) = ss_connections (rl_state w)"
  "ss_channels (rl_state (drained t c d w)) = ss_channels (rl_state w)"
  "outboxes (ss_router (rl_state (drained t c d w))) = (outboxes (ss_router (rl_state w)))(d \<mapsto> [], c \<mapsto> [])"
  unfolding drained_def Let_def by simp_all

lemma post_run:
  assumes "json_wire_roundtrip L" and "between c d env" and "d \<noteq> c" and "rl_task w t = SelectLoop c"
    and "outboxes (ss_router (rl_state w)) c = Some p" and "outboxes (ss_router (rl_state w)) d = Some q"
  shows "sched L [ActFrame t (frame_of L (EncryptedMessage env)), ActTask t, ActTask t] (ops, w) =
    Some (OpRoute c (EncryptedMessage env) # ops, posted t c d env w)"
proof -
  have env: "env_sender env = c" "env_recipient env = d" "wf_wire_event (EncryptedMessage env)"
    using assms(2) by (simp_all add: between_def)
  obtain f where f: "frame_of L (EncryptedMessage env) = TextFrame f" "wire_of_json L f = Some (EncryptedMessage env)"
    by (rule frame_of_event [OF assms(1) env(3)])
  have r: "in_memory_route c (EncryptedMessage env) (ss_router (rl_state w)) =
      (Ok (), \<lparr>outboxes = (outboxes (ss_router (rl_state w)))(d \<mapsto> q @ [EncryptedMessage env],
         c \<mapsto> p @ [Ack (env_message_id env)])\<rparr>)"
    using assms(3,5,6) env by (simp add: in_memory_route_def Let_def)
  show ?thesis
    using assms(4-6)
    by (simp add: f relay_act_def select_next_def loop_frame_def run_task_def task_step_def goto_def
        in_memory_message_router_def noop_event_hook_def writer_after_def r posted_def moved_def Let_def fun_upd_idem)
qed

lemma drain_run:
  assumes "rl_task w t = CollectOutboxes c (EncryptedMessage env)" and "between c d env" and "d \<noteq> c"
    and "outboxes (ss_router (rl_state w)) c = Some p" and "outboxes (ss_router (rl_state w)) d = Some q"
    and "ss_connections (rl_state w) c = Some hc" and "ss_connections (rl_state w) d = Some hd'"
  shows "sched L [ActTask t] (ops, w) = Some (ops, drained t c d w)"
  using assms
  by (simp add: relay_act_def run_task_def task_step_def in_memory_message_router_def between_def
      in_memory_drain_outbox_def writer_after_def drained_def moved_def Let_def fun_upd_idem)

lemma deliver_run:
  "rl_task w t = Deliver c [] \<Longrightarrow>
     sched L (ActTask t # acts) (ops, w) = sched L acts (ops, moved t (SelectLoop c) (rl_state w) w)"
  "rl_task w t = Deliver c (x # ds) \<Longrightarrow> od_events x = [] \<Longrightarrow>
     sched L (ActTask t # acts) (ops, w) = sched L acts (ops, moved t (Deliver c ds) (rl_state w) w)"
  "rl_task w t = Deliver c (x # ds) \<Longrightarrow> od_events x = e # es \<Longrightarrow>
     ch_receiver (ss_channels (rl_state w) (od_handle x)) \<Longrightarrow>
     length (ch_events (ss_channels (rl_state w) (od_handle x))) < OUTBOX_CAPACITY \<Longrightarrow>
     sched L (ActTask t # acts) (ops, w) =
       sched L acts (ops, moved t (Deliver c (x\<lparr>od_events := es\<rparr> # ds)) (snd (try_send (od_handle x) e (rl_state w))) w)"
  by (simp_all add: relay_act_def run_task_def task_step_def writer_after_def moved_def try_send_def Let_def fun_upd_idem)

section \<open>The schedule\<close>

text \<open>
  Alice sends \<open>m1\<close>; before her task collects it, Bob sends \<open>b\<close> and his task drains both outboxes. Alice's
  task finds nothing to deliver, sends \<open>m2\<close> and delivers it; then Bob's task delivers what it drained.
\<close>

definition reordering :: "crates \<Rightarrow> encrypted_envelope \<Rightarrow> encrypted_envelope \<Rightarrow> encrypted_envelope \<Rightarrow> relay_action list" where
  "reordering L m1 m2 b =
     joins L 0 alice @ joins L 1 bob @
     [ActFrame 0 (frame_of L (EncryptedMessage m1)), ActTask 0, ActTask 0] @
     [ActFrame 1 (frame_of L (EncryptedMessage b)), ActTask 1, ActTask 1] @
     [ActTask 1] @ [ActTask 0] @ [ActTask 0] @
     [ActFrame 0 (frame_of L (EncryptedMessage m2)), ActTask 0, ActTask 0] @
     [ActTask 0] @ [ActTask 0, ActTask 1, ActTask 1, ActTask 1, ActTask 1, ActTask 1]"

definition both_joined :: "(in_memory_router, unit, unit) relay" where
  "both_joined = joined 1 bob (joined 0 alice default_relay)"

lemma both_joined_facts [simp]:
  "rl_task both_joined 0 = SelectLoop alice" "rl_task both_joined (Suc 0) = SelectLoop bob"
  "outboxes (ss_router (rl_state both_joined)) = [alice \<mapsto> [], bob \<mapsto> []]"
  "ss_connections (rl_state both_joined) = [alice \<mapsto> 0, bob \<mapsto> Suc 0]"
  "ss_channels (rl_state both_joined) = (\<lambda>_. channel_new)"
  by (simp_all add: both_joined_def default_relay_def ws_server_run_def ws_server_new_def in_memory_router_default_def
      server_state_new_def joined_def fun_upd_idem)

lemma reordering_outcome:
  assumes L: "json_wire_roundtrip L" and m1: "between alice bob m1" and m2: "between alice bob m2"
    and b: "between bob alice b"
  shows "\<exists>w. sched L (reordering L m1 m2 b) ([], default_relay) =
      Some ([OpRoute alice (EncryptedMessage m2), OpRoute bob (EncryptedMessage b), OpRoute alice (EncryptedMessage m1)], w) \<and>
    ss_connections (rl_state w) bob = Some 1 \<and> ch_events (ss_channels (rl_state w) 1) = [EncryptedMessage m2, EncryptedMessage m1, Ack (env_message_id b)]"
proof -
  let ?w1 = "posted 0 alice bob m1 both_joined"
  let ?w2 = "posted 1 bob alice b ?w1"
  let ?w3 = "drained 1 bob alice ?w2"
  let ?w4 = "drained 0 alice bob ?w3"
  let ?w5 = "moved 0 (SelectLoop alice) (rl_state ?w4) ?w4"
  let ?w6 = "posted 0 alice bob m2 ?w5"
  let ?w7 = "drained 0 alice bob ?w6"
  have 1: "sched L (joins L 0 alice) (ops, default_relay) = Some (ops, joined 0 alice default_relay)"
    "sched L (joins L 1 bob) (ops, joined 0 alice default_relay) = Some (ops, both_joined)" for ops
    unfolding both_joined_def by (rule joins_run [OF L]; simp add: default_relay_def ws_server_run_def ws_server_new_def
        in_memory_router_default_def server_state_new_def joined_def)+
  have 2: "sched L [ActFrame 0 (frame_of L (EncryptedMessage m1)), ActTask 0, ActTask 0] (ops, both_joined) =
      Some (OpRoute alice (EncryptedMessage m1) # ops, ?w1)" for ops
    by (rule post_run [OF L m1]) simp_all
  have 3: "sched L [ActFrame 1 (frame_of L (EncryptedMessage b)), ActTask 1, ActTask 1] (ops, ?w1) =
      Some (OpRoute bob (EncryptedMessage b) # ops, ?w2)" for ops
    by (rule post_run [OF L b]) simp_all
  have 4: "sched L [ActTask 1] (ops, ?w2) = Some (ops, ?w3)" for ops
    by (rule drain_run [OF _ b]) simp_all
  have 5: "sched L [ActTask 0] (ops, ?w3) = Some (ops, ?w4)" for ops
    by (rule drain_run [OF _ m1]) simp_all
  have 6: "sched L [ActTask 0] (ops, ?w4) = Some (ops, ?w5)" for ops
    by (subst deliver_run(1)) simp_all
  have 7: "sched L [ActFrame 0 (frame_of L (EncryptedMessage m2)), ActTask 0, ActTask 0] (ops, ?w5) =
      Some (OpRoute alice (EncryptedMessage m2) # ops, ?w6)" for ops
    by (rule post_run [OF L m2]) simp_all
  have 8: "sched L [ActTask 0] (ops, ?w6) = Some (ops, ?w7)" for ops
    by (rule drain_run [OF _ m2]) simp_all
  have 9: "\<exists>w. sched L [ActTask 0, ActTask 1, ActTask 1, ActTask 1, ActTask 1, ActTask 1] (ops, ?w7) = Some (ops, w) \<and>
      ss_connections (rl_state w) bob = Some 1 \<and> ch_events (ss_channels (rl_state w) 1) = [EncryptedMessage m2, EncryptedMessage m1, Ack (env_message_id b)]" for ops
    by (simp add: deliver_run try_send_def Let_def channel_new_def OUTBOX_CAPACITY_def del: relay_sched.simps(2))
  show ?thesis unfolding reordering_def relay_sched_append 1 2 3 4 5 6 7 8 option.case using 9 by blast
qed

end
