(* ===== verification/Server_Main.thy ===== *)
theory Server_Main
  imports Server_Flush
begin

text \<open>
  Where the relay meets the web framework: \<open>ws_handler\<close> of \<open>crates/chat-server/src/ws.rs\<close> and the server
  binary \<open>crates/chat-server/src/main.rs\<close>. The framework's upgrade object is a parameter with the three
  operations the handler calls; what it promises about message sizes is the named law \<open>frames_limited\<close>.
\<close>

section \<open>The upgrade\<close>

text \<open>
  \<open>fw_on_upgrade\<close> gives what the receiver of the upgraded socket yields for a text message that the other
  side sends in one frame.
\<close>

record 'u web_framework =
  fw_max_message_size :: "nat \<Rightarrow> 'u \<Rightarrow> 'u"
  fw_max_frame_size :: "nat \<Rightarrow> 'u \<Rightarrow> 'u"
  fw_on_upgrade :: "'u \<Rightarrow> ustring \<Rightarrow> ws_input"

definition ws_handler :: "'u web_framework \<Rightarrow> 'u \<Rightarrow> ustring \<Rightarrow> ws_input" where
  "ws_handler F ws =
     fw_on_upgrade F (fw_max_frame_size F MAX_EVENT_BYTES (fw_max_message_size F MAX_EVENT_BYTES ws))"

text \<open>A message within both limits arrives as it is; a longer one is an error of the stream.\<close>

definition frames_limited :: "'u web_framework \<Rightarrow> bool" where
  "frames_limited F \<longleftrightarrow> (\<forall>ws n m text.
     fw_on_upgrade F (fw_max_frame_size F m (fw_max_message_size F n ws)) text =
       (if length (as_bytes text) \<le> min n m then TextFrame text else ProtocolError))"

lemma ws_handler_input:
  assumes "frames_limited F"
  shows "ws_handler F ws text =
    (if length (as_bytes text) \<le> MAX_EVENT_BYTES then TextFrame text else ProtocolError)"
  using assms by (simp add: ws_handler_def frames_limited_def)

text \<open>An upgrade object that is just the pair of its limits satisfies the law.\<close>

definition limits_framework :: "(nat \<times> nat) web_framework" where
  "limits_framework =
     \<lparr>fw_max_message_size = (\<lambda>n ws. (n, snd ws)), fw_max_frame_size = (\<lambda>m ws. (fst ws, m)),
      fw_on_upgrade = (\<lambda>ws text. if length (as_bytes text) \<le> min (fst ws) (snd ws) then TextFrame text else ProtocolError)\<rparr>"

lemma limits_framework_limited: "frames_limited limits_framework"
  by (simp add: frames_limited_def limits_framework_def)

text \<open>What becomes of a text of a client, by the point at which its connection task reads it.\<close>

lemma handler_loop_frame:
  assumes "frames_limited F"
  shows "loop_frame L (ws_handler F ws text) =
    (if length (as_bytes text) \<le> MAX_EVENT_BYTES
     then (case wire_of_json L text of Some event \<Rightarrow> FrameEvent event | None \<Rightarrow> FrameContinue) else FrameBreak)"
  by (simp add: ws_handler_input [OF assms] loop_frame_def)

lemma handler_hello_frame:
  assumes "frames_limited F" and "MAX_EVENT_BYTES < length (as_bytes text)"
  shows "read_hello_next L (ws_handler F ws text) = Finished None"
  using assms(2) by (simp add: ws_handler_input [OF assms(1)] read_hello_next_def hello_frame_def)

section \<open>The server binary\<close>

text \<open>
  \<open>addr_var\<close> is the value of the environment variable \<open>CHAT_SERVER_ADDR\<close>, and \<open>bind\<close> opens the listener. The
  result is the state from which the relay serves.
\<close>

definition server_main ::
  "ustring option \<Rightarrow> (ustring \<Rightarrow> ('l, 'e) result) \<Rightarrow> ((in_memory_router, unit, unit) server_state, 'e) result" where
  "server_main addr_var bind =
     (let addr = (case addr_var of Some addr \<Rightarrow> addr | None \<Rightarrow> str ''127.0.0.1:3000'')
      in case bind addr of Ok listener \<Rightarrow> Ok (serve listener) | Err e \<Rightarrow> Err e | Panic \<Rightarrow> Panic)"

lemma server_main_Ok:
  assumes "server_main addr_var bind = Ok st"
  shows "st = server_state_new in_memory_router_default () ()"
  using assms
  by (simp add: server_main_def serve_def ws_server_run_def ws_server_new_def Let_def split: result.splits)

lemma server_main_default: "server_main None bind = server_main (Some (str ''127.0.0.1:3000'')) bind"
  by (simp add: server_main_def)

end
