(* ===== verification/Properties_Server.thy ===== *)
theory Properties_Server
  imports Server_Settle Server_Once Server_Reorder Server_Main
begin

text \<open>
  The properties of the relay: its router, its delivery functions and its connection tasks under
  every interleaving, for the in-memory router the program ships. The general statements, for any
  router that meets the contract, are in the locale \<open>relay_router\<close>.
\<close>

abbreviation relay_start :: "'h \<Rightarrow> 'a \<Rightarrow> (in_memory_router, 'h, 'a) relay" where
  "relay_start hook auth \<equiv> relay_new (server_state_new in_memory_router_default hook auth)"

lemma no_clients: "imr_clients in_memory_router_default = {}"
  by (simp add: imr_clients_def in_memory_router_default_def)

lemmas start_invariants = relay_new_invariants [where clients = imr_clients, OF no_clients refl]

section \<open>A short schedule\<close>

text \<open>
  Alice and Bob connect, Alice offers her key to Bob, her task delivers it and the writer of Bob's
  connection sends it.
\<close>

definition offered :: "(in_memory_router, unit, unit) relay" where
  "offered = collected 0 alice bob 1 (joined 1 bob (joined 0 alice default_relay))"

definition offer :: wire_event where
  "offer = PeerKey alice bob some_key"

lemmas relay_parts = default_relay_def ws_server_run_def ws_server_new_def in_memory_router_default_def
  server_state_new_def joined_def collected_def

abbreviation toy_reach where
  "toy_reach \<equiv> relay_reach in_memory_message_router noop_event_hook noop_auth_provider toy_crates"

lemma default_relay_start: "default_relay = relay_start () ()"
  by (simp add: default_relay_def ws_server_run_def ws_server_new_def)

lemma offered_reached: "toy_reach (relay_start () ()) [OpRoute alice offer] offered"
proof -
  let ?w1 = "joined 0 alice default_relay"
  let ?w2 = "joined 1 bob ?w1"
  have "sched toy_crates (joins toy_crates 0 alice) ([], default_relay) = Some ([], ?w1)"
    "sched toy_crates (joins toy_crates 1 bob) ([], ?w1) = Some ([], ?w2)"
    by (rule joins_run [OF toy_json_wire_roundtrip]; simp add: relay_parts)+
  moreover have "sched toy_crates (offers_key toy_crates 0 alice bob) ([], ?w2) =
      Some ([OpRoute alice offer], offered)"
    unfolding offered_def offer_def
    by (rule offers_key_run [OF toy_json_wire_roundtrip]) (simp_all add: relay_parts)
  ultimately have "sched toy_crates (joins toy_crates 0 alice @ joins toy_crates 1 bob @
      offers_key toy_crates 0 alice bob) ([], default_relay) = Some ([OpRoute alice offer], offered)"
    by (simp add: relay_sched_append)
  from relay_sched_reach [OF this relay_reach.reach_start] show ?thesis
    by (simp only: default_relay_start)
qed

lemma offer_sent:
  obtains w x where "toy_reach (relay_start () ()) [OpRoute alice offer] w" and "rl_sent w 1 = [x]"
    and "json_of_wire toy_crates offer = Some x"
proof -
  let ?w1 = "run_task in_memory_message_router noop_event_hook noop_auth_provider toy_crates 0 offered"
  let ?w2 = "writer_recv toy_crates 1 ?w1"
  obtain x where x: "json_of_wire toy_crates offer = Some x"
    by (simp add: toy_crates_def)
  let ?w3 = "writer_send 1 x ?w2"
  have pc: "rl_task offered 0 = Deliver alice [\<lparr>od_handle = 1, od_client = bob, od_events = [offer]\<rparr>]"
    by (simp add: offered_def offer_def collected_def)
  have ch: "ss_channels (rl_state offered) 1 = channel_new" "rl_writer offered 1 = WriterRecv" "rl_sent offered 1 = []"
    by (simp_all add: offered_def relay_parts moved_def relay_new_def)
  have w1: "rl_writer ?w1 1 = WriterRecv" "ch_events (ss_channels (rl_state ?w1) 1) = [offer]" "rl_sent ?w1 1 = []"
    using pc ch by (simp_all add: run_task_def task_step_def try_send_def writer_after_def channel_new_def
        OUTBOX_CAPACITY_def del: run_task_frame)
  have w2: "rl_writer ?w2 1 = WriterSend x" "rl_sent ?w2 1 = []"
    unfolding writer_recv_def Let_def w1 using w1(3) by (simp_all add: x del: run_task_frame)
  have "toy_reach (relay_start () ()) [OpRoute alice offer] ?w1"
    using relay_reach.reach_step [OF offered_reached relay_step.internal [of _ _ _ _ offered 0]] pc by simp
  then have "toy_reach (relay_start () ()) [OpRoute alice offer] ?w2"
    using relay_reach.reach_step [OF _ relay_step.recv [OF w1(1)]] by fastforce
  then have "toy_reach (relay_start () ()) [OpRoute alice offer] ?w3"
    using relay_reach.reach_step [OF _ relay_step.send [OF w2(1)]] by fastforce
  moreover have "rl_sent ?w3 1 = [x]" using w2(2) by (simp add: writer_send_def)
  ultimately show thesis using that x by blast
qed

section \<open>Invariants of every interleaving\<close>

text \<open>
  C8: The relay forges nothing and misdelivers nothing. Under every interleaving of any number of
  connections, a text on the socket of a connection is the encoding of an event that was routed to
  the client of that connection by the connection registered under its sender's name, of an
  acknowledgement for an encrypted message that client itself routed, or of the relay's own error
  reports.
\<close>

theorem relay_sockets_genuine:
  assumes "relay_reach in_memory_message_router H A L (relay_start hook auth) ops w"
    and "x \<in> set (rl_sent w t)"
  shows "\<exists>e. json_of_wire L e = Some x \<and>
    ((\<exists>c. ident (rl_task w t) = Some c \<and> genuine_for c ops e) \<or>
     (\<exists>err. e = routing_error_event err) \<or> (\<exists>err. e = rejection_event err))"
proof -
  have "sockets_genuine L ops w"
    using imr.relay_genuine [OF assms(1) start_invariants(2) start_invariants(4-7)] by blast
  then show ?thesis using assms(2) unfolding sockets_genuine_def texts_of_def legit_def by blast
qed

theorem relay_sockets_genuine_witness:
  "\<exists>w x e. toy_reach (relay_start () ()) [OpRoute alice offer] w \<and> x \<in> set (rl_sent w 1) \<and>
     json_of_wire toy_crates e = Some x \<and>
     ((\<exists>c. ident (rl_task w 1) = Some c \<and> genuine_for c [OpRoute alice offer] e) \<or>
      (\<exists>err. e = routing_error_event err) \<or> (\<exists>err. e = rejection_event err))"
proof -
  obtain w x where r: "toy_reach (relay_start () ()) [OpRoute alice offer] w" and "rl_sent w 1 = [x]"
    by (rule offer_sent)
  then have "x \<in> set (rl_sent w 1)" by simp
  with relay_sockets_genuine [OF r this] r show ?thesis by blast
qed

text \<open>
  C9: The relay hands out nothing twice. Under every interleaving, and counted over all connections
  a client ever had, a text that is not one of the relay's own error reports is on the sockets of that
  client at most as often as route calls with a truthful sender owed it to the client, as an event
  addressed to it or as the acknowledgement of a message of its own.
\<close>

theorem relay_at_most_once:
  assumes "relay_reach in_memory_message_router H A L (relay_start hook auth) ops w"
    and "client_text L x" and "finite T"
  shows "(\<Sum>t\<in>T. if ident (rl_task w t) = Some c then count_list (rl_sent w t) x else 0) \<le> owed_copies L x c ops"
  by (rule imr.sockets_at_most_owed [OF assms(1) no_clients refl assms(2,3)])

theorem relay_at_most_once_witness:
  "\<exists>w x. toy_reach (relay_start () ()) [OpRoute alice offer] w \<and> rl_sent w 1 = [x] \<and>
     (\<Sum>t\<in>{0, 1, 2}. if ident (rl_task w t) = Some bob then count_list (rl_sent w t) x else 0) \<le> 1"
proof -
  obtain w x where r: "toy_reach (relay_start () ()) [OpRoute alice offer] w" and x: "rl_sent w 1 = [x]"
    "json_of_wire toy_crates offer = Some x" by (rule offer_sent)
  have "wf_wire_event offer" by (simp add: offer_def some_key_def wf_public_key_def)
  then have "wire_of_json toy_crates x = Some offer"
    using toy_json_wire_roundtrip x(2) unfolding json_wire_roundtrip_def by (metis option.inject)
  then have t: "client_text toy_crates x"
    by (rule client_text_event [OF toy_json_wire_roundtrip]) (simp add: offer_def)
  have "owed_copies toy_crates x bob [OpRoute alice offer] = 1"
    using x(2) by (simp add: offer_def enqueued_def)
  moreover have "(\<Sum>t\<in>{0, 1, 2}. if ident (rl_task w t) = Some bob then count_list (rl_sent w t) x else 0) \<le>
      owed_copies toy_crates x bob [OpRoute alice offer]"
    by (rule relay_at_most_once [OF r t]) simp
  ultimately have "(\<Sum>t\<in>{0, 1, 2}. if ident (rl_task w t) = Some bob then count_list (rl_sent w t) x else 0) \<le> 1"
    by (simp only:)
  then show ?thesis using r x(1) by blast
qed

text \<open>
  C10: A client id belongs to one connection at a time. Under every interleaving no two connection
  tasks are registered under the same id, the router knows exactly the ids of the registered tasks,
  and every entry of the connection table names a live task registered under its key.
\<close>

theorem relay_exclusive_registration:
  assumes "relay_reach in_memory_message_router H A L (relay_start hook auth) ops w"
  shows "inj_on (\<lambda>t. owns (rl_task w t)) {t. owns (rl_task w t) \<noteq> None} \<and>
    imr_clients (ss_router (rl_state w)) = {c. \<exists>t. owns (rl_task w t) = Some c} \<and>
    {(c, t). ss_connections (rl_state w) c = Some t} \<subseteq> {(c, t). listed (rl_task w t) = Some c}"
proof -
  have "exclusive imr_clients w" "table_live w"
    using imr.relay_registration [OF assms start_invariants(1,2)] by simp_all
  then show ?thesis
    by (auto simp: exclusive_def one_holder_def table_live_def dom_def ran_def)
qed

theorem relay_exclusive_registration_witness:
  "toy_reach (relay_start () ()) [OpRoute alice offer] offered \<and>
   inj_on (\<lambda>t. owns (rl_task offered t)) {t. owns (rl_task offered t) \<noteq> None} \<and>
   owns (rl_task offered 0) = Some alice \<and> owns (rl_task offered 1) = Some bob"
proof -
  have "owns (rl_task offered 0) = Some alice" "owns (rl_task offered 1) = Some bob"
    by (simp_all add: offered_def relay_parts)
  then show ?thesis using offered_reached relay_exclusive_registration [OF offered_reached] by blast
qed

text \<open>
  C17: Memory per connection is bounded. Under every interleaving the queue of every connection
  holds at most 256 events.
\<close>

theorem relay_queue_bound:
  assumes "relay_reach in_memory_message_router H A L (relay_start hook auth) ops w"
  shows "length (ch_events (ss_channels (rl_state w) t)) \<le> 256"
  using relay_capacity [OF assms start_invariants(3)]
  by (simp add: within_capacity_def OUTBOX_CAPACITY_def)

theorem relay_queue_bound_witness:
  "toy_reach (relay_start () ()) [OpRoute alice offer] offered \<and>
   length (ch_events (ss_channels (rl_state offered) 1)) \<le> 256"
  using offered_reached relay_queue_bound [OF offered_reached] by blast

text \<open>
  C21: A client that reconnects while an event for its old connection is being delivered can lose
  its new registration in the connection table: there is a schedule of the default relay after which
  the new connection is in its main loop and was never asked to close, yet has no table entry, and
  its close channel reports the end because the last sender is gone.
\<close>

theorem reconnect_race:
  assumes "json_wire_roundtrip L"
  shows "\<exists>ops w. relay_reach in_memory_message_router noop_event_hook noop_auth_provider L
      default_relay ops w \<and> orphaned 2 bob w"
  using race_orphans [OF assms] relay_sched_reach [OF _ relay_reach.reach_start] by blast

theorem reconnect_race_witness:
  "json_wire_roundtrip toy_crates \<and>
   (\<exists>ops w. toy_reach default_relay ops w \<and> orphaned 2 bob w)"
  using toy_json_wire_roundtrip reconnect_race [OF toy_json_wire_roundtrip] by blast

text \<open>
  C22: The relay can deliver the messages of one client in another order than they were sent. There is
  a schedule of the default relay in which Alice's task routes her message \<open>m1\<close> and then \<open>m2\<close>, and yet \<open>m2\<close>
  is ahead of \<open>m1\<close> in the queue of Bob's connection, because Bob's own task drained \<open>m1\<close> from his outbox and
  had not queued it yet when \<open>m2\<close> was delivered.
\<close>

theorem relay_reorders:
  assumes "json_wire_roundtrip L" and "between alice bob m1" and "between alice bob m2" and "between bob alice b"
  shows "\<exists>w. relay_reach in_memory_message_router noop_event_hook noop_auth_provider L default_relay
      [OpRoute alice (EncryptedMessage m2), OpRoute bob (EncryptedMessage b), OpRoute alice (EncryptedMessage m1)] w \<and>
    ss_connections (rl_state w) bob = Some 1 \<and>
    queue 1 (rl_state w) = [EncryptedMessage m2, EncryptedMessage m1, Ack (env_message_id b)]"
  using reordering_outcome [OF assms] relay_sched_reach [OF _ relay_reach.reach_start]
  unfolding queue_def by blast

definition numbered_note :: "client_id \<Rightarrow> client_id \<Rightarrow> 128 word \<Rightarrow> encrypted_envelope" where
  "numbered_note c d n = \<lparr>env_sender = c, env_recipient = d, env_message_id = MessageId n, env_epoch = 0,
     env_nonce = NonceBytes (replicate 24 0), env_ciphertext = Ciphertext [1]\<rparr>"

lemma numbered_note_between: "valid_client_id c \<Longrightarrow> valid_client_id d \<Longrightarrow> between c d (numbered_note c d n)"
  by (simp add: between_def wf_envelope_def wf_nonce_def numbered_note_def)

theorem relay_reorders_witness:
  "\<exists>w. toy_reach default_relay [OpRoute alice (EncryptedMessage (numbered_note alice bob 6)),
       OpRoute bob (EncryptedMessage (numbered_note bob alice 7)),
       OpRoute alice (EncryptedMessage (numbered_note alice bob 5))] w \<and>
     queue 1 (rl_state w) = [EncryptedMessage (numbered_note alice bob 6),
       EncryptedMessage (numbered_note alice bob 5), Ack (env_message_id (numbered_note bob alice 7))]"
  using relay_reorders [OF toy_json_wire_roundtrip numbered_note_between [OF alice_bob(3,4)]
      numbered_note_between [OF alice_bob(3,4)] numbered_note_between [OF alice_bob(4,3)]] by blast

section \<open>Routing and delivery\<close>

text \<open>
  C14: An accepted message is delivered and acknowledged. When sender and recipient are different
  registered clients with room in their queues, routing an encrypted message of the sender puts it
  at the end of the recipient's queue, after whatever waited in its outbox, and the acknowledgement
  at the end of the sender's. Both outboxes are empty then and the outbox of every other client is as it
  was; the hook has been told once; no other queue, no channel otherwise, no registration, no table entry
  and no state of the authentication provider changes.
\<close>

theorem relay_delivers_message:
  assumes "env_sender env = c" and "env_recipient env = d" and "d \<noteq> c"
    and "{c, d} \<subseteq> imr_clients (ss_router st)"
    and "ss_connections st d = Some dh" and "ss_connections st c = Some ch" and "dh \<noteq> ch"
    and "has_room dh (length (imr_pending (ss_router st) d) + 1) st"
    and "has_room ch (length (imr_pending (ss_router st) c) + 1) st"
    and "route_and_flush in_memory_message_router H c (EncryptedMessage env) st = (result, st')"
  shows "result = Ok () \<and>
    queue dh st' = queue dh st @ imr_pending (ss_router st) d @ [EncryptedMessage env] \<and>
    queue ch st' = queue ch st @ imr_pending (ss_router st) c @ [Ack (env_message_id env)] \<and>
    (\<forall>h. h \<noteq> dh \<longrightarrow> h \<noteq> ch \<longrightarrow> queue h st' = queue h st) \<and>
    imr_pending (ss_router st') = (imr_pending (ss_router st))(d := [], c := []) \<and>
    imr_clients (ss_router st') = imr_clients (ss_router st) \<and>
    ss_connections st' = ss_connections st \<and>
    ss_hook st' = eh_on_route_accepted H c (EncryptedMessage env) (ss_hook st) \<and> ss_auth st' = ss_auth st \<and>
    (\<forall>h. ch_receiver (ss_channels st' h) = ch_receiver (ss_channels st h) \<and>
      ch_close (ss_channels st' h) = ch_close (ss_channels st h))"
proof -
  have "route_outcome c (EncryptedMessage env) (imr_clients (ss_router st)) = Ok d"
    using assms(1,2,4) by (simp add: route_outcome_Ok_iff)
  from imr.route_message_delivers [OF this assms(3,5-10)] show ?thesis by blast
qed

definition two_clients :: "(in_memory_router, unit, unit) server_state" where
  "two_clients = (server_state_new \<lparr>outboxes = [alice \<mapsto> [], bob \<mapsto> []]\<rparr> () ())
     \<lparr>ss_connections := [alice \<mapsto> 0, bob \<mapsto> 1]\<rparr>"

definition note_to_bob :: encrypted_envelope where
  "note_to_bob = numbered_note alice bob 5"

lemma two_clients_facts:
  "{alice, bob} \<subseteq> imr_clients (ss_router two_clients)"
  "ss_connections two_clients bob = Some 1" "ss_connections two_clients alice = Some 0"
  "imr_pending (ss_router two_clients) c = []" "queue h two_clients = []"
  "has_room h (Suc 0) two_clients"
  by (simp_all add: two_clients_def server_state_new_def imr_clients_def imr_pending_def queue_def
      has_room_def channel_new_def OUTBOX_CAPACITY_def)

theorem relay_delivers_message_witness:
  "\<exists>st'. route_and_flush in_memory_message_router noop_event_hook alice (EncryptedMessage note_to_bob)
       two_clients = (Ok (), st') \<and>
     queue 1 st' = [EncryptedMessage note_to_bob] \<and> queue 0 st' = [Ack (MessageId 5)]"
proof -
  obtain r st' where r: "route_and_flush in_memory_message_router noop_event_hook alice
      (EncryptedMessage note_to_bob) two_clients = (r, st')" by fastforce
  from relay_delivers_message [OF _ _ _ two_clients_facts(1-3) _ _ _ r] r show ?thesis
    by (simp add: note_to_bob_def numbered_note_def two_clients_facts)
qed

text \<open>
  C15: The router hands out every event exactly once and in order. Along every sequence of router
  calls in which a client stays connected, what its drains return, followed by what is still in its
  outbox, is what was in the outbox at first followed by exactly the events and acknowledgements the
  specification owes it: one for each route call between connected clients with a truthful sender, in
  the order of those calls. Each of these comes from a route call of that sequence made under the name
  of the event's sender.
\<close>

theorem router_exactly_once_in_order:
  assumes "d \<in> imr_clients r" and "OpDisconnect d \<notin> set ops"
  shows "handed_out in_memory_message_router d ops r @
      imr_pending (router_run in_memory_message_router ops r) d =
    imr_pending r d @ owed_spec d ops (imr_clients r) \<and>
    list_all (genuine_for d ops) (owed_spec d ops (imr_clients r))"
  using imr.delivery_exact [OF assms] owed_genuine
  unfolding imr.owed_spec_eq [symmetric] by (auto simp: list_all_iff)

theorem router_exactly_once_in_order_witness:
  "handed_out in_memory_message_router bob
     [OpRoute alice (EncryptedMessage note_to_bob), OpRoute bob (EncryptedMessage note_to_bob),
      OpRoute alice offer, OpDrain bob] (ss_router two_clients) =
   [EncryptedMessage note_to_bob, offer]"
proof -
  let ?ops = "[OpRoute alice (EncryptedMessage note_to_bob), OpRoute bob (EncryptedMessage note_to_bob),
      OpRoute alice offer, OpDrain bob]"
  have "bob \<in> imr_clients (ss_router two_clients)" "OpDisconnect bob \<notin> set ?ops"
    using two_clients_facts(1) by auto
  from router_exactly_once_in_order [OF this] show ?thesis
    by (simp add: router_step_def router_run_def two_clients_def server_state_new_def in_memory_defs
        note_to_bob_def numbered_note_def offer_def enqueued_def route_outcome_def)
qed

text \<open>
  C16: The connection task implements the functions of the relay. Run without interference from the
  point where it has read an event, it reaches exactly the state \<open>route_and_flush\<close> computes, and then the
  point the result selects: its main loop, or the error report. Its registration part reaches the
  state and the outcome of \<open>register_client\<close>, and its final part the state of \<open>unregister_client\<close>, with the
  receiver of its queue dropped where it ends.
\<close>

theorem task_refines_functions:
  "solo R H A L t (RouteEvent c e, sent, st)
     (after_route c e (fst (route_and_flush R H c e st)), sent, snd (route_and_flush R H c e st)) \<and>
   solo R H A L t (ConnectRouter c, sent, st)
     (case register_client R H c t st of
        (Ok _, st') \<Rightarrow> (SelectLoop c, sent, st')
      | (_, st') \<Rightarrow> (Finished (Some c), sent,
          st'\<lparr>ss_channels := (ss_channels st')(t := (ss_channels st' t)\<lparr>ch_receiver := False\<rparr>)\<rparr>)) \<and>
   solo R H A L t (RemoveConnection c, sent, st)
     (let st' = unregister_client R H c st in (Finished (Some c), sent,
        st'\<lparr>ss_channels := (ss_channels st')(t := (ss_channels st' t)\<lparr>ch_receiver := False\<rparr>)\<rparr>))"
  by (rule conjI [OF solo_route_and_flush solo_registration]) simp

text \<open>
  C18: A slow client is disconnected instead of losing events silently. When a delivery does not fit
  into the queue of its connection, the part that fits is queued, the connection is asked to close
  and its table entry is removed. Every other channel and entry, the router with its outboxes and
  registrations, the hook and the authentication provider are as before.
\<close>

theorem slow_client_disconnected:
  assumes "ch_receiver (ss_channels st h)" and "length (queue h st) \<le> 256"
    and "256 < length (queue h st) + length es"
  shows "length (queue h (deliver_events h c es st)) = 256 \<and>
    queue h (deliver_events h c es st) = take 256 (queue h st @ es) \<and>
    ch_close (ss_channels (deliver_events h c es st) h) = Suc (ch_close (ss_channels st h)) \<and>
    ch_receiver (ss_channels (deliver_events h c es st) h) \<and>
    ss_connections (deliver_events h c es st) = (ss_connections st)(c := None) \<and>
    ss_router (deliver_events h c es st) = ss_router st \<and> ss_hook (deliver_events h c es st) = ss_hook st \<and>
    ss_auth (deliver_events h c es st) = ss_auth st \<and>
    (\<forall>h'. h' \<noteq> h \<longrightarrow> ss_channels (deliver_events h c es st) h' = ss_channels st h')"
proof -
  let ?n = "256 - length (queue h st)"
  have "deliver_events h c es st =
      (close_send h (push_events h (take ?n es) st))\<lparr>ss_connections := (ss_connections st)(c := None)\<rparr>"
    using deliver_events_full [OF assms(1), of es c] assms(2,3) by (simp add: OUTBOX_CAPACITY_def)
  then show ?thesis
    using assms by (simp add: close_send_def push_events_def queue_def Let_def)
qed

theorem slow_client_disconnected_witness:
  "length (queue 1 (deliver_events 1 bob (replicate 300 offer) two_clients)) = 256 \<and>
   ss_connections (deliver_events 1 bob (replicate 300 offer) two_clients) bob = None"
proof -
  have "ch_receiver (ss_channels two_clients 1)"
    by (simp add: two_clients_def server_state_new_def channel_new_def)
  from slow_client_disconnected [OF this, of "replicate 300 offer" bob] show ?thesis
    by (simp add: two_clients_facts)
qed

text \<open>
  C19: Events larger than 64 KiB end the connection. When the web framework enforces the limits the
  handler sets, a text of at most 65536 bytes reaches the connection task as it was sent, and a longer
  one ends it: before the hello the task just finishes, and afterwards it unregisters its client, which
  is then neither known to the router nor in the connection table, and queues nothing.
\<close>

theorem event_size_limit:
  assumes "frames_limited F"
  shows "if length (as_bytes text) \<le> 65536 then ws_handler F ws text = TextFrame text
    else read_hello_next L (ws_handler F ws text) = Finished None \<and>
      (\<exists>st'. solo in_memory_message_router H A L t (select_next L c (ws_handler F ws text), sent, st)
          (Finished (Some c), sent, st') \<and>
        c \<notin> imr_clients (ss_router st') \<and> ss_connections st' = (ss_connections st)(c := None) \<and>
        (\<forall>h. queue h st' = queue h st) \<and> \<not> ch_receiver (ss_channels st' t))"
proof (cases "length (as_bytes text) \<le> 65536")
  case True
  then show ?thesis by (simp add: ws_handler_input [OF assms] MAX_EVENT_BYTES_def)
next
  case False
  then have big: "MAX_EVENT_BYTES < length (as_bytes text)" by (simp add: MAX_EVENT_BYTES_def)
  then have next_pc: "select_next L c (ws_handler F ws text) = RemoveConnection c"
    by (simp add: select_next_def handler_loop_frame [OF assms])
  let ?st = "unregister_client in_memory_message_router H c st"
  let ?st' = "?st\<lparr>ss_channels := (ss_channels ?st)(t := (ss_channels ?st t)\<lparr>ch_receiver := False\<rparr>)\<rparr>"
  have "solo in_memory_message_router H A L t (RemoveConnection c, sent, st) (Finished (Some c), sent, ?st')"
    using solo_registration [of in_memory_message_router H A L t c sent st] by (simp add: Let_def)
  moreover have "c \<notin> imr_clients (ss_router ?st)" "ss_connections ?st = (ss_connections st)(c := None)"
    "ss_channels ?st = ss_channels st"
    by (simp_all add: unregister_client_def in_memory_message_router_def in_memory_disconnect_def imr_clients_def Let_def
        split: prod.split)
  ultimately show ?thesis
    using False handler_hello_frame [OF assms big] next_pc by (auto simp: queue_def)
qed

theorem event_size_limit_witness:
  "\<exists>st'. solo in_memory_message_router noop_event_hook noop_auth_provider toy_crates 1
       (select_next toy_crates bob (ws_handler limits_framework (0, 0) (replicate 70000 97)), [], two_clients)
       (Finished (Some bob), [], st') \<and> bob \<notin> imr_clients (ss_router st') \<and> ss_connections st' bob = None"
proof -
  have "length (as_bytes (replicate 70000 97)) = 70000"
    by (simp add: as_bytes_def utf8_encode_char_def length_concat sum_list_replicate)
  with event_size_limit [OF limits_framework_limited, of "replicate 70000 97" "(0, 0)" toy_crates noop_event_hook
      noop_auth_provider 1 bob "[]" two_clients]
  show ?thesis by auto
qed

section \<open>The connection task\<close>

text \<open>
  The first hello decides the identity of a connection: reading the hello skips every frame that is
  neither a hello nor the end of the stream, and leaves the frames behind the deciding one unread.
\<close>

lemma read_client_hello_first:
  "read_client_hello L xs =
     (case dropWhile (\<lambda>i. hello_frame L i = HelloRetry) xs of
        [] \<Rightarrow> (None, [])
      | i # rest \<Rightarrow> (if hello_frame L i = HelloAbort then None
          else (case i of TextFrame x \<Rightarrow> (case wire_of_json L x of
              Some (ClientHello c k) \<Rightarrow> Some c | _ \<Rightarrow> None) | _ \<Rightarrow> None), rest))"
proof (induction xs)
  case (Cons i xs)
  show ?case
  proof (cases "hello_frame L i")
    case (HelloFrom c)
    then obtain x k where "i = TextFrame x" "wire_of_json L x = Some (ClientHello c k)"
      by (auto simp: hello_frame_def split: ws_input.splits option.splits wire_event.splits)
    then show ?thesis using HelloFrom by simp
  qed (use Cons in simp_all)
qed simp

text \<open>
  C38: The relay comes to rest in a tidy state. Take any reachable state of the relay and stop all input: no
  new socket, frame or hello. Then the tasks and writers of all connections, interleaved in any way, can
  only take finitely many steps, whatever they deliver to and close among one another, and they can get to
  a state in which none of them can go on. In every such state the connection table has exactly the
  connections in their main loop, each under its own client id; the router knows exactly these clients; all
  other tasks wait for their hello or have finished; and every writer that still runs has emptied its queue.
\<close>

theorem relay_settles:
  assumes "relay_reach in_memory_message_router H A L (relay_start hook auth) ops w"
  shows "(\<nexists>trace. trace 0 = w \<and> (\<forall>n. settle_step in_memory_message_router H A L (trace n) (trace (Suc n)))) \<and>
    (\<exists>w'. (settle_step in_memory_message_router H A L)\<^sup>*\<^sup>* w w' \<and> settled in_memory_message_router H A L w') \<and>
    (\<forall>w'. (settle_step in_memory_message_router H A L)\<^sup>*\<^sup>* w w' \<longrightarrow> settled in_memory_message_router H A L w' \<longrightarrow>
      (\<forall>c t. ss_connections (rl_state w') c = Some t \<longleftrightarrow> rl_task w' t = SelectLoop c) \<and>
      imr_clients (ss_router (rl_state w')) = dom (ss_connections (rl_state w')) \<and>
      (\<forall>t. rl_task w' t \<in> {Unopened, ReadHello} \<union> range SelectLoop \<union> range Finished) \<and>
      (\<forall>t. rl_writer w' t = WriterOff \<or> rl_writer w' t = WriterRecv \<and> queue t (rl_state w') = []))"
proof -
  let ?step = "settle_step in_memory_message_router H A L"
  have "dormant_from 0 (relay_start hook auth)" by (simp add: dormant_from_def relay_new_def)
  then obtain N where N: "dormant_from N w" using dormant_reach [OF assms] by blast
  have tidy: "(\<forall>c t. ss_connections (rl_state w') c = Some t \<longleftrightarrow> rl_task w' t = SelectLoop c) \<and>
      imr_clients (ss_router (rl_state w')) = dom (ss_connections (rl_state w')) \<and>
      (\<forall>t. rl_task w' t \<in> {Unopened, ReadHello} \<union> range SelectLoop \<union> range Finished) \<and>
      (\<forall>t. rl_writer w' t = WriterOff \<or> rl_writer w' t = WriterRecv \<and> queue t (rl_state w') = [])"
    if reached: "?step\<^sup>*\<^sup>* w w'" and rest: "settled in_memory_message_router H A L w'" for w'
  proof -
    obtain ops' where reach: "relay_reach in_memory_message_router H A L (relay_start hook auth) ops' w'"
      using settle_reach [OF reached assms] by blast
    have inv: "exclusive imr_clients w'" "table_live w'"
      using imr.relay_registration [OF reach start_invariants(1,2)] by simp_all
    note table = settled_table [OF rest inv(2)] and waits = settled_waits [OF rest]
    have "imr_clients (ss_router (rl_state w')) = dom (ss_connections (rl_state w'))"
      using inv(1) waiting_owns(1) [OF waits(1)] by (auto simp: exclusive_def one_holder_def dom_def ran_def table)
    moreover have "rl_task w' t \<in> {Unopened, ReadHello} \<union> range SelectLoop \<union> range Finished" for t
      using waits(1) [of t] by (auto simp: waiting_def split: task_pc.splits)
    ultimately show ?thesis using table waits(3) by (simp add: queue_def)
  qed
  show ?thesis using settling_ends [OF N] settles [OF N] tidy by blast
qed

theorem relay_settles_witness:
  "\<exists>w'. (settle_step in_memory_message_router noop_event_hook noop_auth_provider toy_crates)\<^sup>*\<^sup>* offered w' \<and>
     settled in_memory_message_router noop_event_hook noop_auth_provider toy_crates w' \<and>
     imr_clients (ss_router (rl_state w')) = dom (ss_connections (rl_state w'))"
  using relay_settles [OF offered_reached] by blast

end
