(* ===== verification/Network_Runs.thy ===== *)
theory Network_Runs
  imports Client_Cli "HOL-Library.Multiset"
begin

text \<open>
  What one iteration of the client's loop does to its crypto session, as a run of the session with
  labels, together with what it sends and shows: every envelope on the wire was emitted by the run,
  every chat line emitted was typed, and every chat line shown was accepted.
\<close>

section \<open>Runs of the crypto session behind a client session\<close>

definition client_progress ::
  "crates \<Rightarrow> client_session \<Rightarrow> session_label list \<Rightarrow> client_session \<Rightarrow> bool" where
  "client_progress L s ls t \<longleftrightarrow>
     (case (cs_crypto_session s, cs_crypto_session t) of
        (Some x, Some y) \<Rightarrow> session_run L x ls y
      | (None, None) \<Rightarrow> ls = []
      | _ \<Rightarrow> False)"

lemma client_progress_refl [simp]: "client_progress L s [] s"
  by (simp add: client_progress_def session_run.finish split: option.split)

lemma client_progress_trans:
  "client_progress L s ls t \<Longrightarrow> client_progress L t ms u \<Longrightarrow> client_progress L s (ls @ ms) u"
  by (auto simp: client_progress_def session_run_append split: option.splits)

lemma client_progress_counter [simp]:
  "client_progress L s ls (t\<lparr>cs_outbound_since_rekey := n\<rparr>) = client_progress L s ls t"
  "client_progress L (s\<lparr>cs_outbound_since_rekey := n\<rparr>) ls t = client_progress L s ls t"
  by (simp_all add: client_progress_def)

text \<open>An operation on the crypto session is a run of that session.\<close>

lemma on_crypto_progress:
  assumes "on_crypto f s = (r, t)" and "r \<noteq> Panic" and "P (Err MissingPeerKey) []"
    and "\<And>x q y. f x = (q, y) \<Longrightarrow> q \<noteq> Panic \<Longrightarrow> \<exists>ls. session_run L x ls y \<and> P (map_err CryptoErr q) ls"
  obtains ls where "client_progress L s ls t" and "P r ls"
proof (cases "cs_crypto_session s")
  case None
  then show thesis using assms(1,3) that [of "[]"] by (auto simp: on_crypto_def)
next
  case (Some x)
  obtain q y where q: "f x = (q, y)" by fastforce
  then have t: "r = map_err CryptoErr q" "t = s\<lparr>cs_crypto_session := Some y\<rparr>"
    using assms(1) Some by (auto simp: on_crypto_def)
  then have "q \<noteq> Panic" using assms(2) by (cases q) auto
  then obtain ls where ls: "session_run L x ls y" "P r ls" using assms(4) [OF q] t(1) by blast
  then show thesis using that by (simp add: client_progress_def Some t(2))
qed

definition quiet :: "session_label list \<Rightarrow> bool" where
  "quiet ls \<longleftrightarrow> sealed ls = [] \<and> opened ls = [] \<and> length ls \<le> 1"

lemma quiet_simps [simp]: "quiet []" "quiet [Silent]"
  by (simp_all add: quiet_def)

lemma start_rekey_progress:
  assumes "on_crypto (start_rekey L rid sk) s = (r, t)" and "r \<noteq> Panic"
  obtains ls where "client_progress L s ls t" and "quiet ls"
  by (rule on_crypto_progress [OF assms, of "\<lambda>_. quiet" L])
    (auto intro!: exI [of _ "[Silent]"] session_run_single session_step.start)

lemma handle_payload_progress:
  assumes "on_crypto (handle_session_payload L sk p) s = (r, t)" and "r \<noteq> Panic"
  obtains ls where "client_progress L s ls t" and "quiet ls"
  by (rule on_crypto_progress [OF assms, of "\<lambda>_. quiet" L])
    (auto intro!: exI [of _ "[Silent]"] session_run_single intro: session_step.handle)

lemma commit_progress:
  assumes "on_crypto (commit_staged_rekey L) s = (r, t)" and "r \<noteq> Panic"
  obtains ls where "client_progress L s ls t" and "quiet ls"
  by (rule on_crypto_progress [OF assms, of "\<lambda>_. quiet" L])
    (auto intro!: exI [of _ "[Silent]"] session_run_single intro: session_step.commit)

text \<open>Encryption of a payload emits its encoding or nothing.\<close>

definition seals :: "crates \<Rightarrow> session_payload \<Rightarrow> (encrypted_envelope, 'e) result \<Rightarrow> session_label list \<Rightarrow> bool" where
  "seals L p r ls \<longleftrightarrow> opened ls = [] \<and> length ls \<le> 1 \<and>
     (case r of Ok env \<Rightarrow> \<exists>bs. json_of_payload L p = Some bs \<and> sealed ls = [(env, bs)] | _ \<Rightarrow> sealed ls = [])"

lemma encrypt_payload_run:
  assumes "encrypt_payload L mid p x = (q, y)" and "q \<noteq> Panic"
  shows "\<exists>ls. session_run L x ls y \<and> seals L p (map_err CryptoErr q) ls"
proof (cases "json_of_payload L p")
  case None
  then have "q = Err PayloadSerializationFailed" "y = x" using assms(1) by (auto simp: encrypt_payload_def)
  then show ?thesis by (auto simp: seals_def intro: session_run.finish)
next
  case (Some bs)
  then have e: "encrypt L mid bs x = (q, y)" using assms(1) by (simp add: encrypt_payload_def)
  show ?thesis
  proof (cases q)
    case (Ok env)
    then have "session_run L x [Emitted env bs] y" using e by (intro session_run_single session_step.emit) simp
    then show ?thesis using Ok Some by (intro exI [of _ "[Emitted env bs]"]) (simp add: seals_def)
  next
    case (Err er)
    then have "session_run L x [Silent] y" using e by (intro session_run_single) (auto intro: session_step.emit_fail)
    then show ?thesis using Err by (intro exI [of _ "[Silent]"]) (simp add: seals_def)
  qed (use assms(2) in simp)
qed

lemma encrypt_payload_progress:
  assumes "on_crypto (encrypt_payload L mid p) s = (r, t)" and "r \<noteq> Panic"
  obtains ls where "client_progress L s ls t" and "seals L p r ls"
  by (rule on_crypto_progress [OF assms, of "seals L p" L])
    (use encrypt_payload_run in \<open>auto simp: seals_def [of _ _ "Err _"]\<close>)

text \<open>Decryption of a payload accepts its envelope or nothing.\<close>

definition unseals ::
  "crates \<Rightarrow> encrypted_envelope \<Rightarrow> (session_payload, 'e) result \<Rightarrow> session_label list \<Rightarrow> bool" where
  "unseals L env r ls \<longleftrightarrow> sealed ls = [] \<and>
     ((\<exists>bs. ls = [Accepted env bs] \<and> (\<forall>p. r = Ok p \<longrightarrow> payload_of_json L bs = Some p)) \<or>
      (\<forall>p. r \<noteq> Ok p) \<and> quiet ls)"

lemma decrypt_payload_run:
  assumes "decrypt_payload L env x = (q, y)" and "q \<noteq> Panic"
  shows "\<exists>ls. session_run L x ls y \<and> unseals L env (map_err CryptoErr q) ls"
proof (cases "decrypt L env x")
  case (Pair q' y')
  show ?thesis
  proof (cases q')
    case (Ok bs)
    have "session_run L x [Accepted env bs] y"
      using assms(1) Pair Ok by (intro session_run_single session_step.accept) (auto simp: decrypt_payload_def)
    moreover have "unseals L env (map_err CryptoErr q) [Accepted env bs]"
      using assms(1) Pair Ok by (cases q) (auto simp: decrypt_payload_def unseals_def)
    ultimately show ?thesis by blast
  next
    case (Err er)
    then have "session_run L x [Silent] y"
      using assms(1) Pair by (intro session_run_single session_step.reject) (auto simp: decrypt_payload_def)
    moreover have "unseals L env (map_err CryptoErr q) [Silent]"
      using assms(1) Pair Err by (auto simp: decrypt_payload_def unseals_def)
    ultimately show ?thesis by blast
  next
    case Panic
    then show ?thesis using assms Pair by (auto simp: decrypt_payload_def)
  qed
qed

lemma decrypt_payload_progress:
  assumes "on_crypto (decrypt_payload L env) s = (r, t)" and "r \<noteq> Panic"
  obtains ls where "client_progress L s ls t" and "unseals L env r ls"
  by (rule on_crypto_progress [OF assms, of "unseals L env" L])
    (use decrypt_payload_run in \<open>auto simp: unseals_def [of _ _ "Err _"]\<close>)

section \<open>Operations of the client session\<close>

text \<open>The chat lines among the plaintexts of a run.\<close>

fun chat_texts :: "crates \<Rightarrow> (encrypted_envelope \<times> bytes) list \<Rightarrow> ustring list" where
  "chat_texts L [] = []"
| "chat_texts L ((env, bs) # xs) = (case payload_of_json L bs of
      Some (Chat line) \<Rightarrow> line # chat_texts L xs | _ \<Rightarrow> chat_texts L xs)"

fun chat_payload :: "session_payload \<Rightarrow> ustring list" where
  "chat_payload (Chat line) = [line]"
| "chat_payload _ = []"

lemma chat_texts_append [simp]: "chat_texts L (xs @ ys) = chat_texts L xs @ chat_texts L ys"
  by (induction xs rule: chat_texts.induct) (auto split: option.split session_payload.split)

lemma chat_texts_single:
  assumes "json_payload_faithful L" and "json_of_payload L p = Some bs"
  shows "mset (chat_texts L [(env, bs)]) \<subseteq># mset (chat_payload p)"
proof (cases "payload_of_json L bs")
  case (Some q)
  then have "q = p" using assms unfolding json_payload_faithful_def by blast
  then show ?thesis using Some by (cases p) simp_all
qed simp

text \<open>
  An outgoing run: nothing is accepted, the chat lines emitted are among those typed, and every
  envelope among the resulting events was emitted.
\<close>

definition outgoing :: "crates \<Rightarrow> ustring list \<Rightarrow> session_label list \<Rightarrow> wire_event list \<Rightarrow> bool" where
  "outgoing L typed ls evs \<longleftrightarrow> opened ls = [] \<and> mset (chat_texts L (sealed ls)) \<subseteq># mset typed \<and>
     (\<forall>env. EncryptedMessage env \<in> set evs \<longrightarrow> env \<in> set (emitted ls))"

lemma outgoing_quiet: "quiet ls \<Longrightarrow> outgoing L [] ls []"
  by (simp add: outgoing_def quiet_def)

lemma outgoing_append:
  "outgoing L a ls es \<Longrightarrow> outgoing L b ms fs \<Longrightarrow> outgoing L (a @ b) (ls @ ms) (es @ fs)"
  by (auto simp: outgoing_def emitted_def subset_mset.add_mono)

lemma outgoing_seals:
  assumes "json_payload_faithful L" and "seals L p r ls"
  shows "outgoing L (chat_payload p) ls (case r of Ok env \<Rightarrow> [EncryptedMessage env] | _ \<Rightarrow> [])"
  using assms(2) chat_texts_single [OF assms(1)]
  by (cases r) (auto simp: seals_def outgoing_def emitted_def)

abbreviation oks :: "('a list, 'e) result \<Rightarrow> 'a list" where
  "oks r \<equiv> (case r of Ok xs \<Rightarrow> xs | _ \<Rightarrow> [])"

abbreviation ok_single :: "('a, 'e) result \<Rightarrow> 'a list" where
  "ok_single r \<equiv> (case r of Ok x \<Rightarrow> [x] | _ \<Rightarrow> [])"

lemma client_encrypt_payload_progress:
  assumes "json_payload_faithful L" and "client_encrypt_payload L mid p s = (r, t)" and "r \<noteq> Panic"
  obtains ls where "client_progress L s ls t" and "outgoing L (chat_payload p) ls (ok_single r)"
    and "length ls \<le> 1"
proof -
  obtain q u where q: "on_crypto (encrypt_payload L mid p) s = (q, u)" by fastforce
  then have r: "t = u" "q \<noteq> Panic" "ok_single r = (case q of Ok env \<Rightarrow> [EncryptedMessage env] | _ \<Rightarrow> [])"
    using assms(2,3) by (cases q; auto simp: client_encrypt_payload_def)+
  obtain ls where ls: "client_progress L s ls u" "seals L p q ls" by (rule encrypt_payload_progress [OF q r(2)])
  have "length ls \<le> 1" using ls(2) by (simp add: seals_def)
  then show thesis using that [of ls] ls(1) outgoing_seals [OF assms(1) ls(2)] r(1,3) by simp
qed

lemma client_start_rekey_progress:
  assumes "json_payload_faithful L" and "client_start_rekey L rg s = (r, t)" and "r \<noteq> Panic"
  obtains ls where "client_progress L s ls t" and "outgoing L [] ls (ok_single r)" and "length ls \<le> 2"
proof -
  obtain q u where q: "on_crypto (start_rekey L (rg_rekey_id rg) (rg_secret rg)) s = (q, u)" by fastforce
  have "q \<noteq> Panic" using assms(2,3) q by (auto simp: client_start_rekey_def)
  then obtain ls where ls: "client_progress L s ls u" "quiet ls" using start_rekey_progress [OF q] by blast
  show thesis
  proof (cases q)
    case (Ok p)
    then have e: "client_encrypt_payload L (rg_message_id2 rg) p u = (r, t)"
      using assms(2) q by (simp add: client_start_rekey_def)
    have p: "chat_payload p = []"
      using q Ok by (auto simp: on_crypto_def start_rekey_def split: option.splits if_splits)
    obtain ms where ms: "client_progress L u ms t" "outgoing L [] ms (ok_single r)" "length ms \<le> 1"
      using client_encrypt_payload_progress [OF assms(1) e assms(3)] p by metis
    then show thesis
      using that [OF client_progress_trans [OF ls(1) ms(1)]] outgoing_append [OF outgoing_quiet [OF ls(2)] ms(2)]
        ls(2) by (simp add: quiet_def)
  next
    case (Err e)
    then have "t = u" "ok_single r = []" using assms(2) q by (auto simp: client_start_rekey_def)
    then show thesis using that ls outgoing_quiet [OF ls(2)] by (simp add: quiet_def)
  qed (use \<open>q \<noteq> Panic\<close> in simp)
qed

lemma encrypt_line_progress:
  assumes "json_payload_faithful L" and "encrypt_line L rg line s = (r, t)" and "r \<noteq> Panic"
  obtains ls where "client_progress L s ls t" and "outgoing L [line] ls (oks r)" and "length ls \<le> 3"
proof -
  obtain q u where q: "client_encrypt_payload L (rg_message_id rg) (Chat line) s = (q, u)" by fastforce
  have "q \<noteq> Panic" using assms(2,3) q by (auto simp: encrypt_line_def)
  then obtain ls where ls: "client_progress L s ls u" "outgoing L [line] ls (ok_single q)" "length ls \<le> 1"
    using client_encrypt_payload_progress [OF assms(1) q] by auto
  let ?u = "\<lambda>n. u\<lparr>cs_outbound_since_rekey := n\<rparr>"
  have "q = Ok chat \<Longrightarrow> (r = Ok [chat] \<and> (t = u \<or> (\<exists>n. t = ?u n))) \<or>
      (\<exists>n q2. client_start_rekey L rg (?u n) = (q2, t) \<and> q2 \<noteq> Panic \<and>
         oks r = (case q2 of Ok req \<Rightarrow> [chat, req] | _ \<Rightarrow> []))" for chat
    using assms(2,3) q
    by (auto simp: encrypt_line_def and_then_def Let_def split: option.splits if_splits prod.splits result.splits)
  then consider (stop) "ok_single q = oks r" "client_progress L u [] t"
    | (rekey) n q2 chat where "q = Ok chat" "client_start_rekey L rg (?u n) = (q2, t)" "q2 \<noteq> Panic"
        "oks r = (case q2 of Ok req \<Rightarrow> [chat, req] | _ \<Rightarrow> [])"
    using assms(2) q \<open>q \<noteq> Panic\<close> by (cases q) (auto simp: encrypt_line_def)
  then show thesis
  proof cases
    case stop
    then show thesis using that client_progress_trans [OF ls(1) stop(2)] ls(2,3) by fastforce
  next
    case rekey
    obtain ms where ms: "client_progress L u ms t" "outgoing L [] ms (ok_single q2)" "length ms \<le> 2"
      using client_start_rekey_progress [OF assms(1) rekey(2,3)] by auto
    have "outgoing L [line] (ls @ ms) (ok_single q @ ok_single q2)"
      using outgoing_append [OF ls(2) ms(2)] by simp
    then have "outgoing L [line] (ls @ ms) (oks r)"
      unfolding rekey(1,4) outgoing_def by (cases q2) auto
    then show thesis using that [OF client_progress_trans [OF ls(1) ms(1)]] ls(3) ms(3) by simp
  qed
qed

text \<open>What an inbound event does: the lines it shows were accepted, its reply was emitted, and it emits no chat line.\<close>

definition outcome_line :: "inbound_outcome \<Rightarrow> ustring list" where
  "outcome_line out = (case io_event out of Some (InboundChat line) \<Rightarrow> [line] | _ \<Rightarrow> [])"

definition shown_line :: "(inbound_outcome, 'e) result \<Rightarrow> ustring list" where
  "shown_line r = (case r of Ok out \<Rightarrow> outcome_line out | _ \<Rightarrow> [])"

definition reply_events :: "(inbound_outcome, 'e) result \<Rightarrow> wire_event list" where
  "reply_events r = (case r of Ok out \<Rightarrow> (case io_reply_event out of Some e \<Rightarrow> [e] | None \<Rightarrow> []) | _ \<Rightarrow> [])"

definition incoming ::
  "crates \<Rightarrow> encrypted_envelope \<Rightarrow> (inbound_outcome, 'e) result \<Rightarrow> session_label list \<Rightarrow> bool" where
  "incoming L env r ls \<longleftrightarrow>
     chat_texts L (sealed ls) = [] \<and> ((\<exists>bs ms. ls = Accepted env bs # ms \<and> opened ms = []) \<or> quiet ls) \<and>
     mset (shown_line r) \<subseteq># mset (chat_texts L (opened ls)) \<and>
     (\<forall>reply. EncryptedMessage reply \<in> set (reply_events r) \<longrightarrow> reply \<in> set (emitted ls))"

lemma response_progress:
  assumes "on_crypto (handle_session_payload L sk (RekeyResponse rid pk)) s1 = (q, u)"
    and "and_then (q, u) (\<lambda>_ self. let self = self\<lparr>cs_outbound_since_rekey := 0\<rparr> in
          on_crypto (\<lambda>session. (Ok \<lparr>io_event = Some (RekeyCompleted (epoch session)), io_reply_event = None\<rparr>, session)) self)
        = (r, t)" and "r \<noteq> Panic"
  obtains ms where "client_progress L s1 ms t" and "quiet ms" and "shown_line r = []" and "reply_events r = []"
proof -
  have "q \<noteq> Panic" using assms(2,3) by (auto simp: and_then_def)
  then obtain ms where ms: "client_progress L s1 ms u" "quiet ms" using handle_payload_progress [OF assms(1)] by blast
  have "client_progress L u [] t"
    using assms(2,3)
    by (cases q) (auto simp: on_crypto_def client_progress_def session_run.finish Let_def split: option.splits)
  moreover have "shown_line r = []" "reply_events r = []"
    using assms(2,3)
    by (cases q; auto simp: on_crypto_def Let_def shown_line_def outcome_line_def reply_events_def split: option.splits)+
  ultimately show thesis using that client_progress_trans [OF ms(1)] ms(2) by fastforce
qed

lemma request_progress:
  assumes faithful: "json_payload_faithful L"
    and "on_crypto (handle_session_payload L sk (RekeyRequest rid pk)) s1 = (q, u)"
    and r: "and_then (q, u) (\<lambda>reply self. case reply of
          None \<Rightarrow> (Err UnexpectedSessionPayload, self)
        | Some reply \<Rightarrow> and_then (on_crypto (encrypt_payload L mid reply) self) (\<lambda>reply_envelope self.
            and_then (on_crypto (commit_staged_rekey L) self) (\<lambda>_ self.
              (Ok \<lparr>io_event = None, io_reply_event = Some (EncryptedMessage reply_envelope)\<rparr>, self)))) = (r, t)"
    and "r \<noteq> Panic"
  obtains ms where "client_progress L s1 ms t" and "outgoing L [] ms (reply_events r)"
    and "length ms \<le> 3" and "shown_line r = []"
proof -
  have "q \<noteq> Panic" using r assms(4) by (auto simp: and_then_def)
  then obtain ls where ls: "client_progress L s1 ls u" "quiet ls" using handle_payload_progress [OF assms(2)] by blast
  have shown: "shown_line r = []"
    using r by (auto simp: and_then_def shown_line_def outcome_line_def split: result.splits prod.splits option.splits)
  show thesis
  proof (cases "\<exists>reply. q = Ok (Some reply)")
    case False
    then have "t = u" "reply_events r = []"
      using r by (cases q; auto simp: reply_events_def split: option.splits)+
    then show thesis using that ls outgoing_quiet [OF ls(2)] shown by (simp add: quiet_def)
  next
    case True
    then obtain reply where q: "q = Ok (Some reply)" by blast
    obtain q2 v where q2: "on_crypto (encrypt_payload L mid reply) u = (q2, v)" by fastforce
    have chat: "chat_payload reply = []"
      using assms(2) q by (auto simp: on_crypto_def handle_session_payload_def Let_def and_then_eq_Ok_iff
          split: option.splits prod.splits if_splits)
    have "q2 \<noteq> Panic" using r assms(4) q q2 by auto
    then obtain ms where ms: "client_progress L u ms v" "seals L reply q2 ms"
      using encrypt_payload_progress [OF q2] by blast
    note out = outgoing_append [OF outgoing_quiet [OF ls(2)] outgoing_seals [OF faithful ms(2), unfolded chat]]
    have len: "length ms \<le> 1" "length ls \<le> 1" using ms(2) ls(2) by (simp_all add: seals_def quiet_def)
    show thesis
    proof (cases q2)
      case (Ok renv)
      obtain q3 w where q3: "on_crypto (commit_staged_rekey L) v = (q3, w)" by fastforce
      have "q3 \<noteq> Panic" "t = w" using r assms(4) q q2 Ok q3 by (auto simp: and_then_def split: result.splits)
      then obtain ns where ns: "client_progress L v ns t" "quiet ns" using commit_progress [OF q3] by blast
      have "set (reply_events r) \<subseteq> {EncryptedMessage renv}"
        using r q q2 Ok q3 by (cases q3) (auto simp: reply_events_def)
      then have "outgoing L [] (ls @ ms @ ns) (reply_events r)"
        using outgoing_append [OF out outgoing_quiet [OF ns(2)]] Ok by (auto simp: outgoing_def)
      moreover have "client_progress L s1 (ls @ ms @ ns) t"
        by (intro client_progress_trans) (use ls ms ns in auto)
      ultimately show thesis using that len ns(2) shown by (simp add: quiet_def)
    next
      case (Err e)
      then have "t = v" "reply_events r = []" using r q q2 by (auto simp: reply_events_def)
      then show thesis using that [of "ls @ ms"] client_progress_trans [OF ls(1) ms(1)] out len Err shown by simp
    qed (use \<open>q2 \<noteq> Panic\<close> in simp)
  qed
qed

lemma handle_encrypted_message_progress:
  assumes "json_payload_faithful L" and h: "handle_encrypted_message L rg env s = (r, t)" and "r \<noteq> Panic"
  obtains ls where "client_progress L s ls t" and "incoming L env r ls" and "length ls \<le> 4"
proof -
  obtain q u where q: "on_crypto (decrypt_payload L env) s = (q, u)" by fastforce
  have "q \<noteq> Panic" using h assms(3) q by (auto simp: handle_encrypted_message_def)
  then obtain ls where ls: "client_progress L s ls u" "unseals L env q ls" using decrypt_payload_progress [OF q] by blast
  show thesis
  proof (cases q)
    case (Ok p)
    then obtain bs where bs: "ls = [Accepted env bs]" "payload_of_json L bs = Some p"
      using ls(2) by (auto simp: unseals_def)
    have "\<exists>ms. client_progress L u ms t \<and> outgoing L [] ms (reply_events r) \<and> length ms \<le> 3 \<and>
        mset (shown_line r) \<subseteq># mset (chat_payload p)"
    proof (cases p)
      case (Chat line)
      then have "t = u" "shown_line r = [line]" "reply_events r = []"
        using h q Ok by (auto simp: handle_encrypted_message_def shown_line_def outcome_line_def reply_events_def)
      then show ?thesis using outgoing_quiet [of "[]"] Chat by (intro exI [of _ "[]"]) simp
    next
      case (RekeyRequest rid pk)
      obtain q2 v where q2: "on_crypto (handle_session_payload L (rg_secret rg) (RekeyRequest rid pk)) u = (q2, v)"
        by fastforce
      show ?thesis
        by (rule request_progress [OF assms(1) q2 _ assms(3), of "rg_message_id rg"])
          (use h q Ok RekeyRequest q2 in \<open>auto simp: handle_encrypted_message_def\<close>)
    next
      case (RekeyResponse rid pk)
      obtain q2 v where q2: "on_crypto (handle_session_payload L (rg_secret rg) (RekeyResponse rid pk)) u = (q2, v)"
        by fastforce
      show ?thesis
        by (rule response_progress [OF q2 _ assms(3)])
          (use h q Ok RekeyResponse q2 in \<open>force simp: handle_encrypted_message_def\<close>,
            use outgoing_quiet in \<open>force simp: quiet_def\<close>)
    qed
    then obtain ms where ms: "client_progress L u ms t" "outgoing L [] ms (reply_events r)" "length ms \<le> 3"
      "mset (shown_line r) \<subseteq># mset (chat_payload p)" by blast
    have "incoming L env r (ls @ ms)"
      using ms(2,4) bs by (cases p) (auto simp: incoming_def outgoing_def)
    then show thesis using that client_progress_trans [OF ls(1) ms(1)] ms(3) bs(1) by simp
  next
    case (Err e)
    then have "t = u" "shown_line r = []" "reply_events r = []"
      using h q by (auto simp: handle_encrypted_message_def shown_line_def outcome_line_def reply_events_def)
    moreover have "sealed ls = []" "length ls \<le> 4" "(\<exists>bs ms. ls = Accepted env bs # ms \<and> opened ms = []) \<or> quiet ls"
      using ls(2) Err by (auto simp: unseals_def quiet_def)
    ultimately show thesis using that ls(1) by (auto simp: incoming_def)
  qed (use \<open>q \<noteq> Panic\<close> in simp)
qed

section \<open>One iteration of the client's loop\<close>

fun shown_lines :: "cli_output list \<Rightarrow> ustring list" where
  "shown_lines [] = []"
| "shown_lines (ChatLine line # xs) = line # shown_lines xs"
| "shown_lines (_ # xs) = shown_lines xs"

lemma shown_lines_append [simp]: "shown_lines (xs @ ys) = shown_lines xs @ shown_lines ys"
  by (induction xs rule: shown_lines.induct) simp_all

lemma shown_lines_say [simp]:
  "shown_lines (cl_output (say x c)) = shown_lines (cl_output c) @ (case x of ChatLine l \<Rightarrow> [l] | _ \<Rightarrow> [])"
  by (cases x) (simp_all add: say_def)

lemma say_sent [simp]: "cl_sent (say x c) = cl_sent c"
  by (simp add: say_def)

definition envelopes_among :: "crates \<Rightarrow> wire_event list \<Rightarrow> cli \<Rightarrow> cli \<Rightarrow> bool" where
  "envelopes_among L es c c' \<longleftrightarrow>
     (\<forall>t \<in> set (cl_sent c') - set (cl_sent c). \<forall>env. wire_of_json L t = Some (EncryptedMessage env) \<longrightarrow>
        EncryptedMessage env \<in> set es)"

lemma envelopes_among_refl [simp]: "cl_sent c' = cl_sent c \<Longrightarrow> envelopes_among L es c c'"
  by (simp add: envelopes_among_def)

lemma envelopes_among_trans:
  "envelopes_among L es c d \<Longrightarrow> envelopes_among L fs d e \<Longrightarrow> envelopes_among L (es @ fs) c e"
  unfolding envelopes_among_def by auto

lemma send_event_effect:
  assumes "json_envelope_faithful L" and "send_event L net e c = (r, d)"
  shows "envelopes_among L [e] c d" and "cl_session d = cl_session c" and "cl_output d = cl_output c" and "r \<noteq> Panic"
proof -
  have "e = EncryptedMessage env" if "json_of_wire L e = Some t" "wire_of_json L t = Some (EncryptedMessage env)" for t env
    using assms(1) that unfolding json_envelope_faithful_def by blast
  then show "envelopes_among L [e] c d"
    using assms(2) by (fastforce simp: send_event_def envelopes_among_def split: option.splits if_splits)
qed (use assms(2) in \<open>auto simp: send_event_def split: option.splits if_splits\<close>)

lemma send_events_effect:
  assumes "json_envelope_faithful L" and "send_events L net es c = (r, d)"
  shows "envelopes_among L es c d \<and> cl_session d = cl_session c \<and> cl_output d = cl_output c \<and> r \<noteq> Panic"
  using assms(2)
proof (induction es arbitrary: c)
  case (Cons e es)
  obtain q b where q: "send_event L net e c = (q, b)" by fastforce
  note b = send_event_effect [OF assms(1) q]
  show ?case
  proof (cases q)
    case (Ok u)
    then have "send_events L net es b = (r, d)" using Cons.prems q by simp
    from Cons.IH [OF this] show ?thesis using b envelopes_among_trans [OF b(1), of es d] by simp
  next
    case (Err x)
    then show ?thesis using Cons.prems q b by (auto simp: envelopes_among_def)
  qed (use b in simp)
qed auto

text \<open>
  What an iteration amounts to: a run of the crypto session under an unchanged peer key, envelopes on
  the wire that the run emitted, chat lines emitted that were typed, and lines shown that were accepted.
\<close>

definition advances :: "crates \<Rightarrow> ustring list \<Rightarrow> session_label list \<Rightarrow> cli \<Rightarrow> cli \<Rightarrow> bool" where
  "advances L typed ms c c' \<longleftrightarrow>
     client_progress L (cl_session c) ms (cl_session c') \<and> length ms \<le> 4 \<and>
     cs_peer_public_key (cl_session c') = cs_peer_public_key (cl_session c) \<and>
     mset (chat_texts L (sealed ms)) \<subseteq># mset typed \<and>
     (\<exists>es. envelopes_among L es c c' \<and> (\<forall>env. EncryptedMessage env \<in> set es \<longrightarrow> env \<in> set (emitted ms))) \<and>
     (\<exists>new. shown_lines (cl_output c') = shown_lines (cl_output c) @ new \<and>
        mset new \<subseteq># mset (chat_texts L (opened ms)))"

lemma advancesI:
  assumes "client_progress L (cl_session c) ms (cl_session c')" and "length ms \<le> 4"
    and "cs_peer_public_key (cl_session c') = cs_peer_public_key (cl_session c)"
    and "mset (chat_texts L (sealed ms)) \<subseteq># mset typed" and "envelopes_among L es c c'"
    and "\<And>env. EncryptedMessage env \<in> set es \<Longrightarrow> env \<in> set (emitted ms)"
    and "shown_lines (cl_output c') = shown_lines (cl_output c) @ new"
    and "mset new \<subseteq># mset (chat_texts L (opened ms))"
  shows "advances L typed ms c c'"
  using assms unfolding advances_def by blast

lemma advances_idle:
  "cl_session c' = cl_session c \<Longrightarrow> envelopes_among L [e] c c' \<Longrightarrow> (\<forall>env. e \<noteq> EncryptedMessage env) \<Longrightarrow>
     shown_lines (cl_output c') = shown_lines (cl_output c) \<Longrightarrow> advances L typed [] c c'"
  by (rule advancesI [where es = "[e]" and new = "[]"]) auto

lemma advances_outgoing:
  assumes "client_progress L (cl_session c) ms (cl_session c')" and "outgoing L typed ms es" and "length ms \<le> 4"
    and "cs_peer_public_key (cl_session c') = cs_peer_public_key (cl_session c)"
    and "envelopes_among L es c c'" and "shown_lines (cl_output c') = shown_lines (cl_output c)"
  shows "advances L typed ms c c'"
  by (rule advancesI [OF assms(1,3,4) _ assms(5), where new = "[]"]) (use assms(2,6) in \<open>auto simp: outgoing_def\<close>)

lemma on_line_advances:
  assumes laws: "json_payload_faithful L" "json_envelope_faithful L"
    and l: "on_line L net rg line c = (r, c')" and "r \<noteq> Panic"
  obtains ms where "advances L [line] ms c c'" and "opened ms = []"
proof -
  have idle: "advances L [line] [] c c'" if "cl_session c' = cl_session c" "cl_sent c' = cl_sent c"
    "shown_lines (cl_output c') = shown_lines (cl_output c)"
    using that advances_idle [of c' c L "Ack (MessageId 0)" "[line]"] by simp
  consider (nothing) "line = []" | (wait) "line = str ''/rekey''" "\<not> is_ready (cl_session c)" "line \<noteq> []"
    | (rekey) "line = str ''/rekey''" "is_ready (cl_session c)" "line \<noteq> []"
    | (chat) "line \<noteq> []" "line \<noteq> str ''/rekey''" by blast
  then show thesis
  proof cases
    case rekey
    obtain q t where q: "client_start_rekey L rg (cl_session c) = (q, t)" by fastforce
    let ?c = "c\<lparr>cl_session := t\<rparr>"
    have "q \<noteq> Panic" using l assms(4) rekey q by (auto simp: on_line_def with_session_def)
    then obtain ms where ms: "client_progress L (cl_session c) ms t" "outgoing L [] ms (ok_single q)" "length ms \<le> 2"
      using client_start_rekey_progress [OF laws(1) q] by blast
    have key: "cs_peer_public_key t = cs_peer_public_key (cl_session c)"
      using client_start_rekey_frame [of "cl_session c" L rg] q by (simp add: client_frame_def)
    have "envelopes_among L (ok_single q) ?c c' \<and> cl_session c' = t \<and> cl_output c' = cl_output c"
      using l assms(4) rekey q send_event_effect [OF laws(2), of net _ ?c]
      by (cases q) (auto simp: on_line_def with_session_def and_then_def split: result.splits prod.splits)
    then have "advances L [] ms c c'"
      using ms key by (intro advances_outgoing [where es = "ok_single q"]) (auto simp: envelopes_among_def)
    then have "advances L [line] ms c c'" by (simp add: advances_def)
    then show thesis using that ms(2) by (simp add: outgoing_def)
  next
    case chat
    obtain q t where q: "encrypt_line L rg line (cl_session c) = (q, t)" by fastforce
    let ?c = "c\<lparr>cl_session := t\<rparr>"
    have "q \<noteq> Panic" using l assms(4) chat q by (auto simp: on_line_def with_session_def)
    then obtain ms where ms: "client_progress L (cl_session c) ms t" "outgoing L [line] ms (oks q)" "length ms \<le> 3"
      using encrypt_line_progress [OF laws(1) q] by blast
    have key: "cs_peer_public_key t = cs_peer_public_key (cl_session c)"
      using encrypt_line_frame [of "cl_session c" L rg line] q by (simp add: client_frame_def)
    have "envelopes_among L (oks q) ?c c' \<and> cl_session c' = t \<and> shown_lines (cl_output c') = shown_lines (cl_output c)"
      using l assms(4) chat q send_events_effect [OF laws(2), of net _ ?c]
      by (cases q) (auto simp: on_line_def with_session_def and_then_def split: result.splits prod.splits if_splits)
    then have "advances L [line] ms c c'"
      using ms key by (intro advances_outgoing [where es = "oks q"]) (auto simp: envelopes_among_def)
    then show thesis using that ms(2) by (simp add: outgoing_def)
  qed (use l that [OF idle] in \<open>auto simp: on_line_def\<close>)
qed

lemma announce_effect:
  "cl_session (announce e out c) = cl_session c" "cl_sent (announce e out c) = cl_sent c"
  "shown_lines (cl_output (announce e out c)) = shown_lines (cl_output c) @ outcome_line out"
  by (auto simp: announce_def outcome_line_def split: option.split inbound_event.split)

lemma show_fingerprint_effect [simp]:
  "cl_session (show_fingerprint L b c) = cl_session c" "cl_sent (show_fingerprint L b c) = cl_sent c"
  "shown_lines (cl_output (show_fingerprint L b c)) = shown_lines (cl_output c)"
  by (auto simp: show_fingerprint_def split: option.split)

lemma on_text_effect:
  assumes faithful: "json_envelope_faithful L" and "on_text L net rg payload c = (r, c')"
    and "wire_of_json L payload = Some e" and "handle_event L rg e (cl_session c) = (q, t)"
  shows "cl_session c' = t \<and> shown_lines (cl_output c') = shown_lines (cl_output c) @ shown_line q \<and>
    envelopes_among L (reply_events q @ [peer_key_event t]) c c' \<and> (r = Panic \<longleftrightarrow> q = Panic)"
proof (cases q)
  case (Ok out)
  let ?c = "announce e out (c\<lparr>cl_session := t\<rparr>)"
  let ?send = "case io_reply_event out of None \<Rightarrow> (Ok (), ?c) | Some reply \<Rightarrow> send_event L net reply ?c"
  obtain q1 c1 where c1: "?send = (q1, c1)" by fastforce
  have e1: "envelopes_among L (reply_events q) c c1" "cl_session c1 = t"
    "shown_lines (cl_output c1) = shown_lines (cl_output c) @ shown_line q" "q1 \<noteq> Panic"
    using c1 send_event_effect [OF faithful, of net _ ?c q1 c1]
    by (auto simp: Ok announce_effect shown_line_def reply_events_def envelopes_among_def split: option.splits)
  let ?d = "show_fingerprint L (is_ready (cl_session c)) c1"
  let ?pk = "if needs_peer_key_reply (is_ready (cl_session c)) e
    then send_event L net (peer_key_event (cl_session ?d)) ?d else (Ok (), ?d)"
  obtain q2 c2 where c2: "?pk = (q2, c2)" by fastforce
  have e2: "envelopes_among L [peer_key_event t] c1 c2" "cl_session c2 = t"
    "shown_lines (cl_output c2) = shown_lines (cl_output c1)" "q2 \<noteq> Panic"
    using c2 e1(2) send_event_effect [OF faithful, of net _ ?d q2 c2]
    by (auto simp: envelopes_among_def split: if_splits)
  have "(r, c') = (case q1 of Err x \<Rightarrow> (Err x, c1) | _ \<Rightarrow> (case q2 of Err x \<Rightarrow> (Err x, c2) | _ \<Rightarrow> (Ok Continue, c2)))"
    using assms(2-4) c1 c2 e1(4) e2(4)
    by (cases q1; cases q2) (auto simp: on_text_def with_session_def Ok Let_def)
  then have "c' = c1 \<or> c' = c2" "r \<noteq> Panic" using e1(4) e2(4) by (auto split: result.splits)
  then show ?thesis
    using e1 e2 envelopes_among_trans [OF e1(1) e2(1)] Ok by (auto simp: envelopes_among_def)
qed (use assms(2-4) in \<open>auto simp: on_text_def with_session_def shown_line_def outcome_line_def reply_events_def\<close>)

text \<open>
  An inbound text either goes to the crypto session, which may accept the envelope it carries, or
  opens the session with the key it offers.
\<close>

definition accepts_only :: "crates \<Rightarrow> ustring \<Rightarrow> cli \<Rightarrow> session_label list \<Rightarrow> bool" where
  "accepts_only L payload c ms \<longleftrightarrow> (\<forall>(env, bs) \<in> set (opened ms).
     wire_of_json L payload = Some (EncryptedMessage env) \<and>
     (\<exists>x y. cs_crypto_session (cl_session c) = Some x \<and> decrypt L env x = (Ok bs, y)))"

definition opens_session :: "crates \<Rightarrow> ustring \<Rightarrow> cli \<Rightarrow> cli \<Rightarrow> bool" where
  "opens_session L payload c c' \<longleftrightarrow>
     (\<exists>from to pk. wire_of_json L payload = Some (PeerKey from to pk) \<and>
        cs_peer_public_key (cl_session c) = None \<and> cs_peer_public_key (cl_session c') = Some pk \<and>
        cs_crypto_session (cl_session c') = Some (crypto_session_new L (cs_keypair (cl_session c)) pk
          (cs_local_id (cl_session c)) (cs_peer_id (cl_session c)))) \<and>
     shown_lines (cl_output c') = shown_lines (cl_output c) \<and> envelopes_among L [] c c'"

lemma incoming_accepts:
  assumes "incoming L env q ms" and "client_progress L (cl_session c) ms t"
    and "wire_of_json L payload = Some (EncryptedMessage env)"
  shows "accepts_only L payload c ms"
proof (cases "quiet ms")
  case False
  then obtain bs ns where ms: "ms = Accepted env bs # ns" "opened ns = []" using assms(1) by (auto simp: incoming_def)
  then obtain x y where x: "cs_crypto_session (cl_session c) = Some x" "session_step L x (Accepted env bs) y"
    using assms(2)
    by (auto simp: client_progress_def split: option.splits elim: session_run.cases)
  then have "decrypt L env x = (Ok bs, y)" by (auto elim: AcceptedE)
  then show ?thesis using assms(3) ms x(1) by (auto simp: accepts_only_def)
qed (simp add: accepts_only_def quiet_def)

lemma handle_event_plain:
  assumes "\<nexists>env. e = EncryptedMessage env" and "handle_event L rg e s = (q, u)"
  shows "shown_line q = [] \<and> reply_events q = [] \<and> (cs_peer_public_key u = cs_peer_public_key s \<longrightarrow> u = s)"
proof (cases e)
  case (PeerKey f t pk)
  then show ?thesis
    using assms(2)
    by (auto simp: handle_event_def shown_line_def outcome_line_def reply_events_def inbound_outcome_default_def Let_def
        split: if_splits option.splits)
qed (use assms in \<open>auto simp: handle_event_def shown_line_def outcome_line_def reply_events_def
    inbound_outcome_default_def\<close>)

lemma on_text_advances:
  assumes laws: "json_payload_faithful L" "json_envelope_faithful L"
    and t: "on_text L net rg payload c = (r, c')" and "r \<noteq> Panic"
  obtains (run) ms where "advances L [] ms c c'" and "accepts_only L payload c ms"
    | (fresh) "opens_session L payload c c'"
proof (cases "wire_of_json L payload")
  case None
  then have "c' = c" using t by (simp add: on_text_def)
  then show thesis
    using run [of "[]"] advances_idle [of c c L "Ack (MessageId 0)"] by (simp add: accepts_only_def)
next
  case (Some e)
  obtain q u where q: "handle_event L rg e (cl_session c) = (q, u)" by fastforce
  note eff = on_text_effect [OF laws(2) t Some q]
  have "q \<noteq> Panic" using eff assms(4) by blast
  show thesis
  proof (cases rule: handle_event_cases [of "cl_session c" L rg e])
    case frame
    then have key: "cs_peer_public_key u = cs_peer_public_key (cl_session c)" using q by (simp add: client_frame_def)
    show thesis
    proof (cases "\<exists>env. e = EncryptedMessage env")
      case True
      then obtain env where e: "e = EncryptedMessage env" by blast
      then have "handle_encrypted_message L rg env (cl_session c) = (q, u)" using q by (simp add: handle_event_def)
      then obtain ms where ms: "client_progress L (cl_session c) ms u" "incoming L env q ms" "length ms \<le> 4"
        using handle_encrypted_message_progress [OF laws(1) _ \<open>q \<noteq> Panic\<close>] by blast
      have "advances L [] ms c c'"
        by (rule advancesI [where es = "reply_events q @ [peer_key_event u]" and new = "shown_line q"])
          (use eff ms key in \<open>simp_all add: incoming_def, auto simp: peer_key_event_def\<close>)
      then show thesis using run incoming_accepts [OF ms(2,1)] Some e by blast
    next
      case False
      then have "u = cl_session c" "shown_line q = []" "reply_events q = []"
        using handle_event_plain [OF _ q] key by simp_all
      then have "advances L [] [] c c'"
        using eff key client_progress_refl [of L "cl_session c"]
        by (intro advancesI [where es = "[peer_key_event u]" and new = "[]"])
          (auto simp: client_progress_def peer_key_event_def)
      then show thesis using run [of "[]"] by (simp add: accepts_only_def)
    qed
  next
    case (opened pk)
    then have "q = Ok inbound_outcome_default"
      using q by (auto simp: handle_event_def Let_def split: option.splits if_splits)
    then have "envelopes_among L [] c c'" "shown_lines (cl_output c') = shown_lines (cl_output c)"
      using eff by (auto simp: shown_line_def outcome_line_def reply_events_def inbound_outcome_default_def envelopes_among_def
          peer_key_event_def)
    then have "opens_session L payload c c'"
      using eff opened q Some by (auto simp: opens_session_def)
    then show thesis by (rule fresh)
  qed
qed

end
