(* ===== verification/Network.thy ===== *)
theory Network
  imports Network_Runs
begin

text \<open>
  Two clients on a network that an attacker controls. The attacker may deliver any text to either
  client at any time: replay, drop, reorder, redirect, alter or invent relay events. The one thing it
  cannot do is make a ciphertext that opens under a session key it does not hold, the integrity an
  AEAD provides. The theory shows what a client then knows of the lines it displays.
\<close>

section \<open>Sealed and opened envelopes\<close>

lemma sealed_origin:
  assumes "session_run L s ls s'" and "(env, pt) \<in> set (sealed ls)"
  shows "\<exists>u mid u'. encrypt L mid pt u = (Ok env, u') \<and> same_identity s u"
  using assms
proof (induction rule: session_run.induct)
  case (advance s l s' ls s'')
  show ?case
  proof (cases "(env, pt) \<in> set (sealed ls)")
    case True
    then show ?thesis
      using advance.IH same_identity_trans [OF session_step_identity [OF advance(1)]] by blast
  next
    case False
    then have "l = Emitted env pt" using advance.prems by (cases l) auto
    then show ?thesis using advance(1) same_identity_refl by (blast elim: EmittedE)
  qed
qed simp

lemma opened_origin:
  assumes "session_run L s ls s'" and "(env, pt) \<in> set (opened ls)"
  shows "\<exists>u u'. decrypt L env u = (Ok pt, u') \<and> same_identity s u"
  using assms
proof (induction rule: session_run.induct)
  case (advance s l s' ls s'')
  show ?case
  proof (cases "(env, pt) \<in> set (opened ls)")
    case True
    then show ?thesis
      using advance.IH same_identity_trans [OF session_step_identity [OF advance(1)]] by blast
  next
    case False
    then have "l = Accepted env pt" using advance.prems by (cases l) auto
    then show ?thesis using advance(1) same_identity_refl by (blast elim: AcceptedE)
  qed
qed simp

text \<open>
  An accepted envelope whose ciphertext one of the two clients emitted is an envelope the other client
  emitted, for the same plaintext: the header is authenticated, and a client's own envelopes name the
  wrong sender.
\<close>

definition integrity_laws :: "crates \<Rightarrow> bool" where
  "integrity_laws L \<longleftrightarrow> aead_correct L \<and> aead_authentic L \<and> json_aad_injective L"

lemma opened_was_sealed:
  assumes laws: "integrity_laws L"
    and runs: "session_run L x ls x'" "session_run L y ms y'"
    and ids: "valid_ids x" "valid_ids y" "local_id y \<noteq> peer_id y"
    and opn: "(env, pt) \<in> set (opened ms)"
    and ct: "env0 \<in> set (emitted ls) \<union> set (emitted ms)" "env_ciphertext env = env_ciphertext env0"
  shows "(env, pt) \<in> set (sealed ls)"
proof -
  obtain u u' where u: "decrypt L env u = (Ok pt, u')" "same_identity y u" using opened_origin [OF runs(2) opn] by blast
  have hd: "env_sender env = peer_id y" "env_recipient env = local_id y"
    using decrypt_Ok_opens [OF u(1)] u(2) by (simp_all add: opens_def same_identity_def)
  have genuine: "(env, pt) = (env0, pt0) \<and> local_id z = peer_id y"
    if run: "session_run L z ns z'" and z: "valid_ids z" and e0: "(env0, pt0) \<in> set (sealed ns)" for z ns z' pt0
  proof -
    obtain v mid v' where v: "encrypt L mid pt0 v = (Ok env0, v')" "same_identity z v"
      using sealed_origin [OF run e0] by blast
    have "valid_client_id (local_id v)" "valid_client_id (peer_id v)"
      using z v(2) by (simp_all add: valid_ids_def same_identity_def)
    from accepted_header_genuine [OF _ _ this v(1) _ _ ct(2) u(1)] hd ids(2) laws
    have "env = env0" "pt = pt0" by (simp_all add: integrity_laws_def valid_ids_def)
    then show ?thesis using encrypt_header [OF v(1)] hd v(2) by (simp add: same_identity_def)
  qed
  consider pt0 where "(env0, pt0) \<in> set (sealed ls)" | pt0 where "(env0, pt0) \<in> set (sealed ms)"
    using ct(1) by (auto simp: emitted_def)
  then show ?thesis
  proof cases
    case (1 pt0)
    then show ?thesis using genuine [OF runs(1) ids(1) 1] by simp
  next
    case (2 pt0)
    then show ?thesis using genuine [OF runs(2) ids(2) 2] ids(3) by simp
  qed
qed

section \<open>Multisets of lines\<close>

lemma mset_chat_texts:
  "mset (chat_texts L xs) =
     image_mset (\<lambda>x. case payload_of_json L (snd x) of Some (Chat line) \<Rightarrow> line | _ \<Rightarrow> [])
       (filter_mset (\<lambda>x. \<exists>line. payload_of_json L (snd x) = Some (Chat line)) (mset xs))"
  by (induction L xs rule: chat_texts.induct) (auto split: option.split session_payload.split)

lemma chat_texts_mono: "mset xs \<subseteq># mset ys \<Longrightarrow> mset (chat_texts L xs) \<subseteq># mset (chat_texts L ys)"
  unfolding mset_chat_texts by (intro image_mset_subseteq_mono multiset_filter_mono)

lemma distinct_mset_subset: "distinct xs \<Longrightarrow> set xs \<subseteq> set ys \<Longrightarrow> mset xs \<subseteq># mset ys"
proof (rule mset_subset_eqI)
  fix a
  assume "distinct xs" and "set xs \<subseteq> set ys"
  then show "count (mset xs) a \<le> count (mset ys) a"
    by (cases "a \<in> set xs") (auto simp: distinct_count_atmost_1 count_greater_eq_one_iff)
qed

section \<open>The history of a client\<close>

text \<open>The labels lead from the session the client opened with its peer key to its current session.\<close>

definition key_run :: "crates \<Rightarrow> bool \<Rightarrow> cli \<Rightarrow> session_label list \<Rightarrow> bool" where
  "key_run L on c ls \<longleftrightarrow> (case cs_peer_public_key (cl_session c) of
      None \<Rightarrow> ls = []
    | Some pk \<Rightarrow> \<exists>x. session_run L (crypto_session_new L (cs_keypair (cl_session c)) pk
          (cs_local_id (cl_session c)) (cs_peer_id (cl_session c))) ls x \<and>
        (on \<longrightarrow> cs_crypto_session (cl_session c) = Some x))"

definition history :: "crates \<Rightarrow> bool \<Rightarrow> nat \<Rightarrow> ustring list \<Rightarrow> cli \<Rightarrow> session_label list \<Rightarrow> bool" where
  "history L on n typed c ls \<longleftrightarrow>
     key_run L on c ls \<and> length ls \<le> 4 * n \<and> mset (chat_texts L (sealed ls)) \<subseteq># mset typed \<and>
     (\<forall>t \<in> set (cl_sent c). \<forall>env. wire_of_json L t = Some (EncryptedMessage env) \<longrightarrow> env \<in> set (emitted ls)) \<and>
     mset (shown_lines (cl_output c)) \<subseteq># mset (chat_texts L (opened ls))"

lemma history_advances:
  assumes h: "history L True n typed c ls" and adv: "advances L more_lines ms c c'"
    and "client_inv L (cl_session c)" and "cli_next c c'"
  shows "history L True (Suc n) (typed @ more_lines) c' (ls @ ms)"
proof -
  have key: "cs_peer_public_key (cl_session c') = cs_peer_public_key (cl_session c)"
    and prog: "client_progress L (cl_session c) ms (cl_session c')"
    using adv by (simp_all add: advances_def)
  have same: "cs_keypair (cl_session c') = cs_keypair (cl_session c)"
    "cs_local_id (cl_session c') = cs_local_id (cl_session c)" "cs_peer_id (cl_session c') = cs_peer_id (cl_session c)"
    using assms(4) by (simp_all add: cli_next_def)
  have "key_run L True c' (ls @ ms)"
  proof (cases "cs_peer_public_key (cl_session c)")
    case None
    then have "cs_crypto_session (cl_session c) = None" using assms(3) by (simp add: client_inv_def)
    then show ?thesis using h prog None key by (auto simp: history_def key_run_def client_progress_def split: option.splits)
  next
    case (Some pk)
    then obtain x where x: "session_run L (crypto_session_new L (cs_keypair (cl_session c)) pk
            (cs_local_id (cl_session c)) (cs_peer_id (cl_session c))) ls x" "cs_crypto_session (cl_session c) = Some x"
      using h by (auto simp: history_def key_run_def)
    then obtain y where "cs_crypto_session (cl_session c') = Some y" "session_run L x ms y"
      using prog by (auto simp: client_progress_def split: option.splits)
    then show ?thesis using session_run_append [OF x(1)] Some key same by (auto simp: key_run_def)
  qed
  moreover obtain es where "envelopes_among L es c c'" "\<forall>env. EncryptedMessage env \<in> set es \<longrightarrow> env \<in> set (emitted ms)"
    using adv by (auto simp: advances_def)
  then have "\<forall>t \<in> set (cl_sent c'). \<forall>env. wire_of_json L t = Some (EncryptedMessage env) \<longrightarrow> env \<in> set (emitted (ls @ ms))"
    using h by (auto simp: history_def envelopes_among_def emitted_def)
  ultimately show ?thesis
    using h adv by (auto simp: history_def advances_def intro: subset_mset.add_mono)
qed

lemma history_off:
  assumes "history L on n typed c ls" and "cli_next c c'" and "cs_peer_public_key (cl_session c') = cs_peer_public_key (cl_session c)"
    and "envelopes_among L [e] c c'" and "\<forall>env. e \<noteq> EncryptedMessage env"
    and "shown_lines (cl_output c') = shown_lines (cl_output c)"
  shows "history L False n typed c' ls"
proof -
  have "\<forall>t \<in> set (cl_sent c'). \<forall>env. wire_of_json L t = Some (EncryptedMessage env) \<longrightarrow> env \<in> set (emitted ls)"
    using assms(1,4,5) by (auto simp: history_def envelopes_among_def)
  then show ?thesis
    using assms(1,2,3,6) by (auto simp: history_def key_run_def cli_next_def split: option.splits)
qed

lemma history_weaken: "history L True n typed c ls \<Longrightarrow> history L on n typed c ls"
  by (auto simp: history_def key_run_def split: option.splits)

lemma history_grow: "history L on n typed c ls \<Longrightarrow> history L on (Suc n) (typed @ more_lines) c ls"
  by (auto simp: history_def intro: subset_mset.order_trans)

text \<open>The line an input types, and the text it delivers.\<close>

fun typed_line :: "cli_input \<Rightarrow> ustring list" where
  "typed_line (Line (Some (Some line))) = [line]"
| "typed_line _ = []"

fun delivered_text :: "cli_input \<Rightarrow> ustring option" where
  "delivered_text (Socket (Some (Some (WsText payload)))) = Some payload"
| "delivered_text _ = None"

lemma cli_step_cases:
  assumes laws: "json_payload_faithful L" "json_envelope_faithful L"
    and "cli_step L net rg i c = (r, c')" and "r \<noteq> Panic"
  obtains (run) ms where "advances L (typed_line i) ms c c'"
      and "opened ms \<noteq> [] \<longrightarrow> (\<exists>payload. delivered_text i = Some payload \<and> accepts_only L payload c ms)"
    | (fresh) payload where "delivered_text i = Some payload" and "opens_session L payload c c'"
proof -
  have quiet: thesis if "advances L (typed_line i) [] c c'" by (rule run [OF that]) simp
  have same: "advances L ts [] c c" for ts by (rule advances_idle [of _ _ _ "Ack (MessageId 0)"]) simp_all
  consider (tick) "i = Tick" | (line) line where "i = Line (Some (Some line))"
    | (frame) payload where "i = Socket (Some (Some (WsText payload)))" | (other) "c' = c" "typed_line i = []"
    using assms(3)
    by (cases i) (auto simp: cli_step_def split: option.splits ws_message.splits)
  then show thesis
  proof cases
    case tick
    obtain q d where q: "send_event L net (peer_key_event (cl_session c)) c = (q, d)" by fastforce
    note d = send_event_effect [OF laws(2) q]
    have "c' = c \<or> c' = d"
      using assms(3) tick q d(4) by (cases q) (auto simp: cli_step_def split: if_splits)
    then have "advances L [] [] c c'"
      using same advances_idle [OF d(2,1)] d(3) by (auto simp: peer_key_event_def)
    then show thesis using quiet tick by simp
  next
    case (line line)
    then have "on_line L net rg line c = (r, c')" using assms(3) by (simp add: cli_step_def)
    then obtain ms where "advances L [line] ms c c'" "opened ms = []"
      using on_line_advances [OF laws _ assms(4)] by blast
    then show thesis using run [of ms] line by simp
  next
    case (frame payload)
    then have t: "on_text L net rg payload c = (r, c')" using assms(3) by (simp add: cli_step_def)
    show thesis
      by (rule on_text_advances [OF laws t assms(4)]) (use run fresh frame in auto)
  next
    case other
    then show thesis using quiet same by simp
  qed
qed

lemma send_event_no_panic [simp]: "send_event L net e c \<noteq> (Panic, d)"
  by (simp add: send_event_def split: option.split)

lemma send_events_no_panic [simp]: "send_events L net es c \<noteq> (Panic, d)"
  by (induction es arbitrary: c) (auto simp: and_then_def split: prod.split result.split)

lemma cli_step_panic:
  assumes "json_envelope_faithful L" and "cli_step L net rg i c = (Panic, c')"
  shows "cs_peer_public_key (cl_session c') = cs_peer_public_key (cl_session c) \<and>
    envelopes_among L [peer_key_event (cl_session c')] c c' \<and>
    shown_lines (cl_output c') = shown_lines (cl_output c)"
proof -
  consider (line) line where "i = Line (Some (Some line))" "on_line L net rg line c = (Panic, c')"
    | (frame) payload where "on_text L net rg payload c = (Panic, c')"
    using assms(2)
    by (cases i) (auto simp: cli_step_def and_then_def split: option.splits ws_message.splits if_splits prod.splits
        result.splits)
  then show ?thesis
  proof cases
    case (line line)
    have "\<exists>t. c' = c\<lparr>cl_session := t\<rparr> \<and> client_frame (cl_session c) t"
      using line(2) client_start_rekey_frame [of "cl_session c" L rg] encrypt_line_frame [of "cl_session c" L rg line]
      by (auto simp: on_line_def with_session_def and_then_def split: if_splits prod.splits result.splits)
    then show ?thesis by (auto simp: client_frame_def)
  next
    case (frame payload)
    then obtain e where e: "wire_of_json L payload = Some e" by (cases "wire_of_json L payload") (auto simp: on_text_def)
    obtain q t where q: "handle_event L rg e (cl_session c) = (q, t)" by fastforce
    note eff = on_text_effect [OF assms(1) frame e q]
    then have "q = Panic" by blast
    then have "client_frame (cl_session c) t"
      using q by (cases rule: handle_event_cases [of "cl_session c" L rg e])
        (auto simp: handle_event_def Let_def split: if_splits option.splits)
    then show ?thesis
      using eff \<open>q = Panic\<close> by (auto simp: shown_line_def reply_events_def client_frame_def)
  qed
qed

lemma history_opens:
  assumes "history L True n typed c ls" and "opens_session L payload c c'" and "cli_next c c'"
  shows "history L True (Suc n) (typed @ more_lines) c' []" and "ls = []"
proof -
  show "ls = []" using assms(1,2) by (auto simp: history_def key_run_def opens_session_def)
  then show "history L True (Suc n) (typed @ more_lines) c' []"
    using assms
    by (auto simp: history_def key_run_def opens_session_def cli_next_def envelopes_among_def intro: session_run.finish)
qed

text \<open>One iteration extends the history by what the session accepted from the delivered text.\<close>

lemma cli_step_history:
  assumes laws: "json_payload_faithful L" "json_envelope_faithful L"
    and h: "history L True n typed c ls" and inv: "client_inv L (cl_session c)"
    and s: "cli_step L net rg i c = (r, c')"
  obtains ms where "history L (r = Ok Continue) (Suc n) (typed @ typed_line i) c' (ls @ ms)"
    and "opened ms \<noteq> [] \<longrightarrow> (\<exists>payload. delivered_text i = Some payload \<and> accepts_only L payload c ms)"
    and "cs_peer_public_key (cl_session c') = cs_peer_public_key (cl_session c) \<or>
      cs_peer_public_key (cl_session c) = None \<and> (\<exists>payload from to pk. delivered_text i = Some payload \<and> wire_of_json L payload = Some (PeerKey from to pk) \<and>
        cs_peer_public_key (cl_session c') = Some pk)"
proof -
  have nx: "cli_next c c'" using cli_step_next [of c L net rg i] s by simp
  show thesis
  proof (cases "r = Panic")
    case True
    then have p: "cli_step L net rg i c = (Panic, c')" using s by simp
    have "history L False n typed c' ls"
      using cli_step_panic [OF laws(2) p] by (intro history_off [OF h nx]) (auto simp: peer_key_event_def)
    from history_grow [OF this] show thesis using that [of "[]"] True cli_step_panic [OF laws(2) p] by simp
  next
    case False
    show thesis
    proof (cases rule: cli_step_cases [OF laws s False])
      case (1 ms)
      then show thesis
        using that [of ms] history_advances [OF h 1(1) inv nx] history_weaken by (simp add: advances_def)
    next
      case (2 payload)
      note o = history_opens [OF h 2(2) nx]
      show thesis using that [of "[]"] o history_weaken 2 by (auto simp: opens_session_def)
    qed
  qed
qed

section \<open>Two clients and an attacker\<close>

record world =
  w_a :: cli
  w_a_on :: bool
  w_b :: cli
  w_b_on :: bool

datatype world_input = AtA rng cli_input | AtB rng cli_input

text \<open>A client that has ended takes no more inputs.\<close>

definition world_step ::
  "crates \<Rightarrow> (ustring list \<Rightarrow> bool) \<Rightarrow> (ustring list \<Rightarrow> bool) \<Rightarrow> world_input \<Rightarrow> world \<Rightarrow> world" where
  "world_step L net_a net_b ev w = (case ev of
      AtA rg i \<Rightarrow>
        if w_a_on w then let (r, c) = cli_step L net_a rg i (w_a w) in w\<lparr>w_a := c, w_a_on := (r = Ok Continue)\<rparr>
        else w
    | AtB rg i \<Rightarrow>
        if w_b_on w then let (r, c) = cli_step L net_b rg i (w_b w) in w\<lparr>w_b := c, w_b_on := (r = Ok Continue)\<rparr>
        else w)"

fun world_run ::
  "crates \<Rightarrow> (ustring list \<Rightarrow> bool) \<Rightarrow> (ustring list \<Rightarrow> bool) \<Rightarrow> world_input list \<Rightarrow> world \<Rightarrow> world" where
  "world_run L net_a net_b [] w = w"
| "world_run L net_a net_b (ev # evs) w = world_run L net_a net_b evs (world_step L net_a net_b ev w)"

text \<open>
  A delivery to the second client forges when that client holds the first client's key, accepts the
  envelope, and neither client ever sent its ciphertext.
\<close>

definition carries :: "crates \<Rightarrow> ciphertext \<Rightarrow> ustring \<Rightarrow> bool" where
  "carries L ct t = (case wire_of_json L t of Some (EncryptedMessage env) \<Rightarrow> env_ciphertext env = ct | _ \<Rightarrow> False)"

definition forges :: "crates \<Rightarrow> world_input \<Rightarrow> world \<Rightarrow> bool" where
  "forges L ev w = (case ev of
      AtB rg (Socket (Some (Some (WsText t)))) \<Rightarrow>
        (case (wire_of_json L t, cs_crypto_session (cl_session (w_b w))) of
           (Some (EncryptedMessage env), Some x) \<Rightarrow>
             cs_peer_public_key (cl_session (w_b w)) = Some (key_pair_public_key (cs_keypair (cl_session (w_a w)))) \<and>
             is_ok (fst (decrypt L env x)) \<and>
             \<not> list_ex (carries L (env_ciphertext env)) (cl_sent (w_a w) @ cl_sent (w_b w))
         | _ \<Rightarrow> False)
    | _ \<Rightarrow> False)"

fun no_forgery ::
  "crates \<Rightarrow> (ustring list \<Rightarrow> bool) \<Rightarrow> (ustring list \<Rightarrow> bool) \<Rightarrow> world_input list \<Rightarrow> world \<Rightarrow> bool" where
  "no_forgery L net_a net_b [] w = True"
| "no_forgery L net_a net_b (ev # evs) w =
     (\<not> forges L ev w \<and> no_forgery L net_a net_b evs (world_step L net_a net_b ev w))"

fun typed_at_a :: "world_input \<Rightarrow> ustring list" where
  "typed_at_a (AtA rg i) = typed_line i"
| "typed_at_a (AtB rg i) = []"

text \<open>The keys offered to the second client.\<close>

fun offered_key :: "crates \<Rightarrow> world_input \<Rightarrow> public_key_bytes list" where
  "offered_key L (AtA rg i) = []"
| "offered_key L (AtB rg i) = (case delivered_text i of
      Some t \<Rightarrow> (case wire_of_json L t of Some (PeerKey from to pk) \<Rightarrow> [pk] | _ \<Rightarrow> []) | None \<Rightarrow> [])"

definition vouched :: "world \<Rightarrow> session_label list \<Rightarrow> session_label list \<Rightarrow> bool" where
  "vouched w ls ms \<longleftrightarrow>
     cs_peer_public_key (cl_session (w_b w)) = Some (key_pair_public_key (cs_keypair (cl_session (w_a w)))) \<longrightarrow>
     env_ciphertext ` set (accepted ms) \<subseteq> env_ciphertext ` (set (emitted ls) \<union> set (emitted ms))"

definition world_inv :: "crates \<Rightarrow> nat \<Rightarrow> ustring list \<Rightarrow> public_key_bytes list \<Rightarrow> world \<Rightarrow> bool" where
  "world_inv L n typed keys w \<longleftrightarrow>
     cli_inv L (w_a w) \<and> cli_inv L (w_b w) \<and>
     (\<forall>pk. cs_peer_public_key (cl_session (w_b w)) = Some pk \<longrightarrow> pk \<in> set keys) \<and>
     (\<exists>ls ms typed_b. history L (w_a_on w) n typed (w_a w) ls \<and> history L (w_b_on w) n typed_b (w_b w) ms \<and>
        vouched w ls ms)"

lemma world_step_A:
  assumes laws: "json_payload_faithful L" "json_envelope_faithful L" and inv: "world_inv L n typed keys w"
  shows "world_inv L (Suc n) (typed @ typed_line i) keys (world_step L net_a net_b (AtA rg i) w)"
proof -
  obtain ls ms typed_b where h: "history L (w_a_on w) n typed (w_a w) ls" "history L (w_b_on w) n typed_b (w_b w) ms"
    "vouched w ls ms" using inv by (auto simp: world_inv_def)
  have b: "history L (w_b_on w) (Suc n) typed_b (w_b w) ms" using history_grow [OF h(2), of "[]"] by simp
  show ?thesis
  proof (cases "w_a_on w")
    case True
    obtain r c where s: "cli_step L net_a rg i (w_a w) = (r, c)" by fastforce
    have on: "history L True n typed (w_a w) ls" "client_inv L (cl_session (w_a w))"
      using h(1) True inv by (simp_all add: world_inv_def cli_inv_def)
    obtain ns where ns: "history L (r = Ok Continue) (Suc n) (typed @ typed_line i) c (ls @ ns)"
      by (rule cli_step_history [OF laws on s])
    have "cli_inv L c" using cli_step_inv [of L "w_a w" net_a rg i] inv s by (simp add: world_inv_def)
    moreover have "cs_keypair (cl_session c) = cs_keypair (cl_session (w_a w))"
      using cli_step_next [of "w_a w" L net_a rg i] s by (simp add: cli_next_def)
    then have "vouched (w\<lparr>w_a := c, w_a_on := (r = Ok Continue)\<rparr>) (ls @ ns) ms"
      using h(3) by (auto simp: vouched_def)
    ultimately show ?thesis
      using ns b inv True s by (auto simp: world_inv_def world_step_def)
  next
    case False
    then show ?thesis using history_grow [OF h(1)] b h(3) inv by (auto simp: world_inv_def world_step_def)
  qed
qed

text \<open>What is accepted without forgery carries a ciphertext that was emitted.\<close>

lemma accepted_vouched:
  assumes "\<not> forges L (AtB rg i) w"
    and ha: "history L on n typed (w_a w) ls" and hb: "history L True n typed_b (w_b w) ms"
    and acc: "opened ns \<noteq> [] \<longrightarrow> (\<exists>payload. delivered_text i = Some payload \<and> accepts_only L payload (w_b w) ns)"
    and key: "cs_peer_public_key (cl_session (w_b w)) = Some (key_pair_public_key (cs_keypair (cl_session (w_a w))))"
  shows "env_ciphertext ` set (accepted ns) \<subseteq> env_ciphertext ` (set (emitted ls) \<union> set (emitted ms))"
proof
  fix ct
  assume "ct \<in> env_ciphertext ` set (accepted ns)"
  then obtain env bs where env: "(env, bs) \<in> set (opened ns)" "ct = env_ciphertext env" by (auto simp: accepted_def)
  then obtain t where "delivered_text i = Some t" "accepts_only L t (w_b w) ns" using acc by force
  moreover from this(1) have i: "i = Socket (Some (Some (WsText t)))" by (cases i rule: delivered_text.cases) simp_all
  ultimately obtain x y where x: "wire_of_json L t = Some (EncryptedMessage env)"
    "cs_crypto_session (cl_session (w_b w)) = Some x" "decrypt L env x = (Ok bs, y)"
    using env(1) by (auto simp: accepts_only_def)
  then have "list_ex (carries L ct) (cl_sent (w_a w) @ cl_sent (w_b w))"
    using assms(1) key by (simp add: forges_def i is_ok_def env(2))
  then obtain u where u: "u \<in> set (cl_sent (w_a w)) \<union> set (cl_sent (w_b w))" "carries L ct u" by (auto simp: list_ex_iff)
  then obtain env0 where "wire_of_json L u = Some (EncryptedMessage env0)" "ct = env_ciphertext env0"
    by (auto simp: carries_def split: option.splits wire_event.splits)
  then show "ct \<in> env_ciphertext ` (set (emitted ls) \<union> set (emitted ms))"
    using u(1) ha hb by (auto simp: history_def)
qed

lemma world_step_B:
  assumes laws: "json_payload_faithful L" "json_envelope_faithful L" and inv: "world_inv L n typed keys w"
    and nf: "\<not> forges L (AtB rg i) w"
  shows "world_inv L (Suc n) typed (keys @ offered_key L (AtB rg i)) (world_step L net_a net_b (AtB rg i) w)"
proof -
  obtain ls ms typed_b where h: "history L (w_a_on w) n typed (w_a w) ls" "history L (w_b_on w) n typed_b (w_b w) ms"
    "vouched w ls ms" using inv by (auto simp: world_inv_def)
  have a: "history L (w_a_on w) (Suc n) typed (w_a w) ls" using history_grow [OF h(1), of "[]"] by simp
  show ?thesis
  proof (cases "w_b_on w")
    case True
    obtain r c where s: "cli_step L net_b rg i (w_b w) = (r, c)" by fastforce
    have on: "history L True n typed_b (w_b w) ms" "client_inv L (cl_session (w_b w))"
      using h(2) True inv by (simp_all add: world_inv_def cli_inv_def)
    obtain ns where ns: "history L (r = Ok Continue) (Suc n) (typed_b @ typed_line i) c (ms @ ns)"
      "opened ns \<noteq> [] \<longrightarrow> (\<exists>payload. delivered_text i = Some payload \<and> accepts_only L payload (w_b w) ns)"
      "cs_peer_public_key (cl_session c) = cs_peer_public_key (cl_session (w_b w)) \<or>
        cs_peer_public_key (cl_session (w_b w)) = None \<and> (\<exists>payload from to pk. delivered_text i = Some payload \<and> wire_of_json L payload = Some (PeerKey from to pk) \<and>
          cs_peer_public_key (cl_session c) = Some pk)"
      by (rule cli_step_history [OF laws on s])
    let ?w = "w\<lparr>w_b := c, w_b_on := (r = Ok Continue)\<rparr>"
    have "cli_inv L c" using cli_step_inv [of L "w_b w" net_b rg i] inv s by (simp add: world_inv_def)
    moreover have "pk \<in> set (keys @ offered_key L (AtB rg i))" if "cs_peer_public_key (cl_session c) = Some pk" for pk
      using ns(3) that inv by (auto simp: world_inv_def)
    moreover have "vouched ?w ls (ms @ ns)"
      unfolding vouched_def
    proof
      assume key: "cs_peer_public_key (cl_session (w_b ?w)) = Some (key_pair_public_key (cs_keypair (cl_session (w_a ?w))))"
      show "env_ciphertext ` set (accepted (ms @ ns)) \<subseteq> env_ciphertext ` (set (emitted ls) \<union> set (emitted (ms @ ns)))"
      proof (cases "accepted (ms @ ns) = []")
        case False
        then have "cs_peer_public_key (cl_session (w_b w)) \<noteq> None"
          using on ns(2) by (auto simp: accepted_def history_def key_run_def client_inv_def accepts_only_def neq_Nil_conv)
        then have "cs_peer_public_key (cl_session c) = cs_peer_public_key (cl_session (w_b w))"
          using ns(3) by auto
        then have "cs_peer_public_key (cl_session (w_b w)) = Some (key_pair_public_key (cs_keypair (cl_session (w_a w))))"
          using key by simp
        with accepted_vouched [OF nf h(1) on(1) ns(2)] h(3) show ?thesis
          by (simp add: vouched_def accepted_def image_Un) blast
      qed simp
    qed
    ultimately show ?thesis
      using ns(1) a inv True s by (auto simp: world_inv_def world_step_def)
  next
    case False
    then show ?thesis using history_grow [OF h(2), of "[]"] a h(3) inv by (auto simp: world_inv_def world_step_def)
  qed
qed

lemma world_run_inv:
  assumes "json_payload_faithful L" "json_envelope_faithful L"
    and "world_inv L n typed keys w" and "no_forgery L net_a net_b ins w"
  shows "world_inv L (n + length ins) (typed @ concat (map typed_at_a ins)) (keys @ concat (map (offered_key L) ins))
    (world_run L net_a net_b ins w)"
  using assms(3,4)
proof (induction ins arbitrary: n typed keys w)
  case (Cons ev ins)
  have "world_inv L (Suc n) (typed @ typed_at_a ev) (keys @ offered_key L ev) (world_step L net_a net_b ev w)"
  proof (cases ev)
    case (AtA rg i)
    then show ?thesis using world_step_A [OF assms(1,2) Cons.prems(1)] by simp
  next
    case (AtB rg i)
    then show ?thesis using world_step_B [OF assms(1,2) Cons.prems(1)] Cons.prems(2) by simp
  qed
  from Cons.IH [OF this] Cons.prems(2) show ?case by simp
qed simp

section \<open>The lines a client shows\<close>

lemma world_lines_authentic:
  assumes laws: "integrity_laws L" and inv: "world_inv L n typed keys w"
    and key: "\<And>pk. cs_peer_public_key (cl_session (w_b w)) = Some pk \<Longrightarrow>
      pk = key_pair_public_key (cs_keypair (cl_session (w_a w)))"
    and ids: "valid_client_id (cs_local_id (cl_session (w_a w)))" "valid_client_id (cs_peer_id (cl_session (w_a w)))"
      "valid_client_id (cs_local_id (cl_session (w_b w)))" "valid_client_id (cs_peer_id (cl_session (w_b w)))"
      "cs_local_id (cl_session (w_b w)) \<noteq> cs_peer_id (cl_session (w_b w))"
    and wrap: "overflow_checks L \<or> 4 * n < 2 ^ 32"
  shows "mset (shown_lines (cl_output (w_b w))) \<subseteq># mset typed"
proof -
  obtain ls ms typed_b where h: "history L (w_a_on w) n typed (w_a w) ls" "history L (w_b_on w) n typed_b (w_b w) ms"
    "vouched w ls ms" using inv by (auto simp: world_inv_def)
  have shown: "mset (shown_lines (cl_output (w_b w))) \<subseteq># mset (chat_texts L (opened ms))"
    and typed: "mset (chat_texts L (sealed ls)) \<subseteq># mset typed" and len: "length ms \<le> 4 * n"
    using h by (simp_all add: history_def)
  have "mset (chat_texts L (opened ms)) \<subseteq># mset (chat_texts L (sealed ls))"
  proof (cases "opened ms = []")
    case False
    then obtain pk where pk: "cs_peer_public_key (cl_session (w_b w)) = Some pk"
      using h(2) by (auto simp: history_def key_run_def split: option.splits)
    let ?y = "crypto_session_new L (cs_keypair (cl_session (w_b w))) pk
      (cs_local_id (cl_session (w_b w))) (cs_peer_id (cl_session (w_b w)))"
    obtain y where y: "session_run L ?y ms y" using h(2) pk by (auto simp: history_def key_run_def)
    have dist: "distinct (opened ms)"
    proof -
      have "no_epoch_wrap L (length ms) ?y" "tracks_window ?y"
        using wrap len by (auto simp: no_epoch_wrap_def tracks_window_def crypto_session_new_def)
      then have "distinct (map envelope_key (accepted ms))" using session_run_accepted [OF y] by blast
      then show ?thesis by (simp add: accepted_def distinct_map)
    qed
    have cts: "env_ciphertext ` set (accepted ms) \<subseteq> env_ciphertext ` (set (emitted ls) \<union> set (emitted ms))"
      using h(3) key [OF pk] pk by (simp add: vouched_def)
    obtain x0 x where x: "session_run L x0 ls x" "valid_ids x0"
    proof (cases "cs_peer_public_key (cl_session (w_a w))")
      case None
      then have "ls = []" using h(1) by (simp add: history_def key_run_def)
      then show thesis
        using that [of ?y ?y] ids by (simp add: session_run.finish valid_ids_def crypto_session_new_def)
    next
      case (Some pk')
      then show thesis
        using h(1) that ids(1,2) by (auto simp: history_def key_run_def valid_ids_def crypto_session_new_def)
    qed
    have "z \<in> set (sealed ls)" if z: "z \<in> set (opened ms)" for z
    proof -
      obtain env pt where e: "z = (env, pt)" by fastforce
      then have "env \<in> set (accepted ms)" using z by (force simp: accepted_def)
      then obtain env0 where "env0 \<in> set (emitted ls) \<union> set (emitted ms)" "env_ciphertext env = env_ciphertext env0"
        using cts by (metis (no_types, lifting) image_iff subsetD imageI)
      from opened_was_sealed [OF laws x(1) y x(2) _ _ z [unfolded e] this] ids show ?thesis
        by (simp add: e valid_ids_def crypto_session_new_def)
    qed
    then show ?thesis by (intro chat_texts_mono distinct_mset_subset dist) blast
  qed simp
  then show ?thesis using shown typed subset_mset.order_trans by blast
qed

section \<open>From start-up\<close>

definition world_start :: "cli \<Rightarrow> cli \<Rightarrow> world" where
  "world_start a b = \<lparr>w_a = a, w_a_on = True, w_b = b, w_b_on = True\<rparr>"

lemma run_start_fresh:
  assumes "run_start L reachable net secret args = Ok c"
  shows "cs_peer_public_key (cl_session c) = None" and "cs_crypto_session (cl_session c) = None" and "cl_output c = []"
    and "valid_client_id (cs_local_id (cl_session c))" and "valid_client_id (cs_peer_id (cl_session c))"
    and "t \<in> set (cl_sent c) \<Longrightarrow> \<exists>e. json_of_wire L e = Some t \<and> (\<forall>env. e \<noteq> EncryptedMessage env)"
proof -
  obtain local peer where ids: "client_id_parse (ar_id args) = Ok local" "client_id_parse (ar_peer args) = Ok peer"
    using assms by (auto simp: run_start_def split: result.splits)
  have "cs_peer_public_key (cl_session c) = None \<and> cs_crypto_session (cl_session c) = None \<and> cl_output c = [] \<and>
      cs_local_id (cl_session c) = local \<and> cs_peer_id (cl_session c) = peer \<and>
      (\<exists>s t1 t2. cl_sent c = [t1, t2] \<and> json_of_wire L (client_hello s) = Some t1 \<and>
        json_of_wire L (peer_key_event s) = Some t2)"
    using assms
    by (auto simp: run_start_def ids Let_def client_session_new_def set_auto_rekey_after_def
        expect_peer_fingerprint_def send_event_def and_then_eq_Ok_iff
        split: option.splits if_splits prod.splits result.splits)
  then show "cs_peer_public_key (cl_session c) = None" "cs_crypto_session (cl_session c) = None" "cl_output c = []"
    "valid_client_id (cs_local_id (cl_session c))" "valid_client_id (cs_peer_id (cl_session c))"
    "t \<in> set (cl_sent c) \<Longrightarrow> \<exists>e. json_of_wire L e = Some t \<and> (\<forall>env. e \<noteq> EncryptedMessage env)"
    using ids by (auto simp: client_id_parse_Ok_iff valid_client_id_def client_hello_def peer_key_event_def; blast)+
qed

lemma history_start:
  assumes "json_envelope_faithful L" and "run_start L reachable net secret args = Ok c"
  shows "history L True 0 [] c []"
proof -
  have "wire_of_json L t \<noteq> Some (EncryptedMessage env)" if "t \<in> set (cl_sent c)" for t env
    using run_start_fresh(6) [OF assms(2) that] assms(1) unfolding json_envelope_faithful_def by metis
  then show ?thesis using run_start_fresh(1-3) [OF assms(2)] by (simp add: history_def key_run_def)
qed

lemma world_start_inv:
  assumes "json_envelope_faithful L" and "lowers L"
    and "run_start L reach_a net_a ska args_a = Ok a" and "run_start L reach_b net_b skb args_b = Ok b"
  shows "world_inv L 0 [] [] (world_start a b)"
proof -
  have "vouched (world_start a b) [] []" by (simp add: vouched_def accepted_def)
  then show ?thesis
    using history_start [OF assms(1,3)] history_start [OF assms(1,4)] run_start_inv(1) [OF assms(2,3)]
      run_start_inv(1) [OF assms(2,4)] run_start_fresh(1) [OF assms(4)]
    by (auto simp: world_inv_def world_start_def)
qed

lemma world_run_next:
  "cli_next (w_a w) (w_a (world_run L net_a net_b ins w)) \<and> cli_next (w_b w) (w_b (world_run L net_a net_b ins w))"
proof (induction ins arbitrary: w)
  case (Cons ev ins)
  have "cli_next (w_a w) (w_a (world_step L net_a net_b ev w)) \<and> cli_next (w_b w) (w_b (world_step L net_a net_b ev w))"
    using cli_step_next [of "w_a w" L net_a] cli_step_next [of "w_b w" L net_b]
    by (cases ev) (auto simp: world_step_def split: prod.splits; metis snd_conv)+
  then show ?case using Cons.IH [of "world_step L net_a net_b ev w"] by (auto intro: cli_next_trans)
qed simp

lemma pinned_lines_authentic:
  assumes laws: "integrity_laws L" "json_payload_faithful L" "json_envelope_faithful L" "lowers L"
    and a: "run_start L reach_a net_a ska args_a = Ok a" and b: "run_start L reach_b net_b skb args_b = Ok b"
    and "ar_id args_b \<noteq> ar_peer args_b" and "ar_verify_fingerprint args_b = Some raw"
    and "normalize_fingerprint L raw = Some (fingerprint L (PublicKeyBytes (x25519_public L ska)))"
    and coll: "\<And>pk. pk \<in> set (concat (map (offered_key L) ins)) \<Longrightarrow>
      fingerprint L pk = fingerprint L (PublicKeyBytes (x25519_public L ska)) \<Longrightarrow> pk = PublicKeyBytes (x25519_public L ska)"
    and nf: "no_forgery L net_a net_b ins (world_start a b)" and wrap: "overflow_checks L \<or> 4 * length ins < 2 ^ 32"
  shows "mset (shown_lines (cl_output (w_b (world_run L net_a net_b ins (world_start a b))))) \<subseteq>#
    mset (concat (map typed_at_a ins))"
proof -
  let ?w = "world_run L net_a net_b ins (world_start a b)"
  have inv: "world_inv L (length ins) (concat (map typed_at_a ins)) (concat (map (offered_key L) ins)) ?w"
    using world_run_inv [OF laws(2,3) world_start_inv [OF laws(3,4) a b] nf] by simp
  have nx: "cli_next a (w_a ?w)" "cli_next b (w_b ?w)"
    using world_run_next [of "world_start a b" L net_a net_b ins] by (simp_all add: world_start_def)
  have kp: "key_pair_public_key (cs_keypair (cl_session (w_a ?w))) = PublicKeyBytes (x25519_public L ska)"
    using nx(1) run_start_ids(3) [OF a] by (simp add: cli_next_def key_pair_generate_def key_pair_public_key_def)
  show ?thesis
  proof (rule world_lines_authentic [OF laws(1) inv _ _ _ _ _ _ wrap])
    fix pk
    assume pk: "cs_peer_public_key (cl_session (w_b ?w)) = Some pk"
    have "cl_pinned (w_b ?w) = Some (fingerprint L (PublicKeyBytes (x25519_public L ska)))"
      using nx(2) run_start_inv(2) [OF laws(4) b] assms(8,9) by (simp add: cli_next_def)
    then have "fingerprint L pk = fingerprint L (PublicKeyBytes (x25519_public L ska))"
      using inv pk by (simp add: world_inv_def cli_inv_def client_inv_def)
    then show "pk = key_pair_public_key (cs_keypair (cl_session (w_a ?w)))"
      using coll inv pk unfolding kp by (auto simp: world_inv_def)
  next
    show "cs_local_id (cl_session (w_b ?w)) \<noteq> cs_peer_id (cl_session (w_b ?w))"
      using nx(2) run_start_ids [OF b] assms(7) by (auto simp: cli_next_def)
  qed (use nx run_start_fresh(4,5) [OF a] run_start_fresh(4,5) [OF b] in \<open>simp_all add: cli_next_def\<close>)
qed

end
