(* ===== verification/Conversation.thy ===== *)
theory Conversation
  imports Client_Cli
begin

text \<open>
  A chat line between two clients whose sessions agree: typed at one, it leaves as one envelope, and
  the text of that envelope makes the other show exactly the line.
\<close>

text \<open>What the two clients need for a line to get through.\<close>

definition line_fits :: "crates \<Rightarrow> ustring \<Rightarrow> bool" where
  "line_fits L line \<longleftrightarrow>
     line \<noteq> [] \<and> line \<noteq> str ''/rekey'' \<and>
     (\<forall>bs. json_of_payload L (Chat line) = Some bs \<longrightarrow> length bs < aead_max_len)"

definition ready_pair :: "crates \<Rightarrow> cli \<Rightarrow> cli \<Rightarrow> bool" where
  "ready_pair L c d \<longleftrightarrow>
     linked (cl_session c) (cl_session d) \<and> client_inv L (cl_session c) \<and>
     cs_auto_rekey_after (cl_session c) = None \<and>
     (\<forall>x. cs_crypto_session (cl_session c) = Some x \<longrightarrow> next_outbound_nonce x \<noteq> - 1 \<and> epoch x \<noteq> - 1)"

text \<open>An envelope a client seals has an encoding that reads back.\<close>

lemma envelope_text:
  assumes "json_wire_roundtrip L" and "digest_lengths L" and "valid_ids s"
    and "outbound_nonce_prefix s = nonce_prefix L i j" and enc: "encrypt L mid bs s = (Ok env, s')"
  obtains x where "json_of_wire L (EncryptedMessage env) = Some x" and "wire_of_json L x = Some (EncryptedMessage env)"
proof -
  have "wf_nonce (env_nonce env)"
    using encrypt_nonce(1) [OF enc] assms(2,4)
    by (simp add: wf_nonce_def nonce_number_def nonce_prefix_def digest_lengths_def)
  then have "wf_wire_event (EncryptedMessage env)"
    using encrypt_header [OF enc] assms(3) by (simp add: wf_envelope_def valid_ids_def)
  then show thesis using assms(1) that unfolding json_wire_roundtrip_def by blast
qed

lemma line_typed:
  assumes laws: "crypto_laws L" and "json_wire_roundtrip L" and "digest_lengths L"
    and pair: "ready_pair L c d" and fits: "line_fits L line" and net: "\<And>sent. net sent"
  obtains env c' x where "cli_step L net rg (Line (Some (Some line))) c = (Ok Continue, c')"
    and "cl_sent c' = cl_sent c @ [x]" and "json_of_wire L (EncryptedMessage env) = Some x"
    and "wire_of_json L x = Some (EncryptedMessage env)"
    and "env_sender env = cs_local_id (cl_session c)" and "env_recipient env = cs_peer_id (cl_session c)"
    and "env_message_id env = rg_message_id rg"
    and "client_encrypt_payload L (rg_message_id rg) (Chat line) (cl_session c) =
      (Ok (EncryptedMessage env), cl_session c')"
    and "cl_output c' = cl_output c"
proof -
  let ?a = "cl_session c"
  obtain s where s: "cs_crypto_session ?a = Some s" "valid_ids s"
    using pair by (auto simp: ready_pair_def linked_def)
  have n: "next_outbound_nonce s \<noteq> - 1" using pair s(1) by (simp add: ready_pair_def)
  have short: "json_of_payload L (Chat line) = Some bs \<Longrightarrow> length bs < aead_max_len" for bs
    using fits by (simp add: line_fits_def)
  obtain env s' where e: "encrypt_payload L (rg_message_id rg) (Chat line) s = (Ok env, s')"
    "client_encrypt_payload L (rg_message_id rg) (Chat line) ?a =
      (Ok (EncryptedMessage env), ?a\<lparr>cs_crypto_session := Some s'\<rparr>)"
    using chat_line_sent [OF laws s n short] by blast
  obtain bs where bs: "encrypt L (rg_message_id rg) bs s = (Ok env, s')" using encrypt_payload_Ok(1) [OF e(1)] by blast
  have id: "local_id s = cs_local_id ?a" "peer_id s = cs_peer_id ?a"
    "outbound_nonce_prefix s = nonce_prefix L (cs_local_id ?a) (cs_peer_id ?a)"
    using pair s(1) by (simp_all add: ready_pair_def client_inv_def)
  obtain x where x: "json_of_wire L (EncryptedMessage env) = Some x" "wire_of_json L x = Some (EncryptedMessage env)"
    by (rule envelope_text [OF assms(2,3) s(2) id(3) bs])
  let ?c = "c\<lparr>cl_session := ?a\<lparr>cs_crypto_session := Some s'\<rparr>, cl_sent := cl_sent c @ [x]\<rparr>"
  have "encrypt_line L rg line ?a = (Ok [EncryptedMessage env], ?a\<lparr>cs_crypto_session := Some s'\<rparr>)"
    using encrypt_line_manual [of ?a L rg line] pair e(2) by (simp add: ready_pair_def)
  then have "cli_step L net rg (Line (Some (Some line))) c = (Ok Continue, ?c)"
    using fits net by (simp add: cli_step_def on_line_def with_session_def send_event_def x(1) line_fits_def)
  then show thesis
    using that [of ?c x env] x encrypt_header [OF bs] e(2) id by simp
qed

lemma line_shown:
  assumes laws: "crypto_laws L" and pair: "ready_pair L c d"
    and sent: "client_encrypt_payload L mid (Chat line) (cl_session c) = (Ok (EncryptedMessage env), a')"
    and x: "wire_of_json L x = Some (EncryptedMessage env)"
  shows "\<exists>d'. cli_step L net rg (Socket (Some (Some (WsText x)))) d = (Ok Continue, d') \<and>
    cl_output d' = cl_output d @ [ChatLine line] \<and> cl_sent d' = cl_sent d \<and> linked a' (cl_session d')"
proof -
  have link: "linked (cl_session c) (cl_session d)" using pair by (simp add: ready_pair_def)
  have ep: "epoch y \<noteq> - 1" if "cs_crypto_session (cl_session d) = Some y" for y
    using link pair that by (auto simp: linked_def ready_pair_def in_sync_def paired_def)
  obtain b' where b': "handle_event L rg (EncryptedMessage env) (cl_session d) =
      (Ok \<lparr>io_event = Some (InboundChat line), io_reply_event = None\<rparr>, b')" "linked a' b'"
    using chat_line_received [OF laws link ep sent] by blast
  have "is_ready (cl_session d)" using link by (auto simp: linked_def is_ready_def)
  then show ?thesis
    using b' by (simp add: cli_step_def on_text_def x with_session_def announce_def show_fingerprint_def
        needs_peer_key_reply_def say_def Let_def)
qed

end
