(* ===== verification/Properties_Network.thy ===== *)
theory Properties_Network
  imports Network Scenario Conversation
begin

text \<open>
  What a user knows of the lines on the screen when the network, the relay included, is hostile.
\<close>

text \<open>
  C2: Chat lines are authentic. Alice and Bob start their clients, Bob with the fingerprint of Alice's
  key. Whatever the network delivers to either client in whatever order (replayed, dropped, reordered,
  redirected, altered or invented events), as long as it makes no ciphertext that opens under a
  key it does not hold and no key offered to Bob collides with the fingerprint, every line Bob's client
  ever shows was typed at Alice's client, and is shown at most as often as it was typed; rekeys, lost
  messages and failing clients included.
\<close>

theorem shown_lines_authentic:
  assumes "integrity_laws L" and "json_payload_faithful L" and "json_envelope_faithful L" and "lowers L"
    and "run_start L reach_a net_a ska args_a = Ok a" and "run_start L reach_b net_b skb args_b = Ok b"
    and "ar_id args_b \<noteq> ar_peer args_b" and "ar_verify_fingerprint args_b = Some raw"
    and "normalize_fingerprint L raw = Some (fingerprint L (PublicKeyBytes (x25519_public L ska)))"
    and "\<And>pk. pk \<in> set (concat (map (offered_key L) ins)) \<Longrightarrow>
      fingerprint L pk = fingerprint L (PublicKeyBytes (x25519_public L ska)) \<Longrightarrow> pk = PublicKeyBytes (x25519_public L ska)"
    and "no_forgery L net_a net_b ins (world_start a b)" and "overflow_checks L \<or> 4 * length ins < 2 ^ 32"
  shows "mset (shown_lines (cl_output (w_b (world_run L net_a net_b ins (world_start a b))))) \<subseteq>#
    mset (concat (map typed_at_a ins))"
  by (rule pinned_lines_authentic [OF assms])

section \<open>A run in which a line gets through\<close>

text \<open>Alice starts without a pin, Bob with the fingerprint of Alice's key.\<close>

definition args_alice :: args where
  "args_alice = \<lparr>ar_server = str ''ws://127.0.0.1:3000/ws'', ar_id = str ''alice'', ar_peer = str ''bob'',
     ar_verify_fingerprint = None, ar_rekey_after = None\<rparr>"

definition args_bob :: args where
  "args_bob = \<lparr>ar_server = str ''ws://127.0.0.1:3000/ws'', ar_id = str ''bob'', ar_peer = str ''alice'',
     ar_verify_fingerprint = Some (fingerprint toy_crates (PublicKeyBytes secret_a)), ar_rekey_after = None\<rparr>"

definition text_of :: "wire_event \<Rightarrow> ustring" where
  "text_of e = map of_nat (toy_wire_toks e)"

lemma text_of_json [simp]: "json_of_wire toy_crates e = Some (text_of e)"
  by (simp add: text_of_def toy_crates_def)

lemma text_of_decodes: "wf_wire_event e \<Longrightarrow> wire_of_json toy_crates (text_of e) = Some e"
  using toy_json_wire_roundtrip unfolding json_wire_roundtrip_def by force

definition cli_alice :: cli where
  "cli_alice = (let s = client_session_new toy_crates secret_a alice bob in
     \<lparr>cl_session = s, cl_pinned = None, cl_sent = [text_of (client_hello s), text_of (peer_key_event s)], cl_output = []\<rparr>)"

definition cli_bob :: cli where
  "cli_bob = (let fp = fingerprint toy_crates (PublicKeyBytes secret_a);
      s = (client_session_new toy_crates secret_b bob alice)\<lparr>cs_expected_peer_fingerprint := Some fp\<rparr> in
     \<lparr>cl_session = s, cl_pinned = Some fp, cl_sent = [text_of (client_hello s), text_of (peer_key_event s)], cl_output = []\<rparr>)"

lemma toy_fingerprint_normalized:
  "normalize_fingerprint toy_crates (fingerprint toy_crates k) = Some (fingerprint toy_crates k)"
  using normalize_hex [of "[]" "[]"] fingerprint_shape [OF toy_digest_lengths] by simp

lemma parse_ids: "client_id_parse (str ''alice'') = Ok alice" "client_id_parse (str ''bob'') = Ok bob"
  using alice_bob(3,4) by (simp_all add: valid_client_id_def alice_def bob_def)

lemma alice_starts: "run_start toy_crates (\<lambda>_. True) (\<lambda>_. True) secret_a args_alice = Ok cli_alice"
  by (simp add: run_start_def args_alice_def parse_ids send_event_def Let_def cli_alice_def)

lemma bob_starts: "run_start toy_crates (\<lambda>_. True) (\<lambda>_. True) secret_b args_bob = Ok cli_bob"
  by (simp add: run_start_def args_bob_def parse_ids send_event_def Let_def cli_bob_def toy_fingerprint_normalized
      normalized_pin [OF toy_lowers toy_fingerprint_normalized])

text \<open>Both keys are delivered, Alice types a line, and its text is delivered to Bob.\<close>

definition key_a :: wire_event where
  "key_a = PeerKey alice bob (PublicKeyBytes secret_a)"

definition key_b :: wire_event where
  "key_b = PeerKey bob alice (PublicKeyBytes secret_b)"

definition line_delivery :: "ustring \<Rightarrow> world_input list" where
  "line_delivery x = [AtB rng0 (Socket (Some (Some (WsText (text_of key_a))))),
     AtA rng0 (Socket (Some (Some (WsText (text_of key_b))))),
     AtA rng0 (Line (Some (Some hello_line))), AtB rng0 (Socket (Some (Some (WsText x))))]"

lemma keys_decode: "wire_of_json toy_crates (text_of key_a) = Some key_a" "wire_of_json toy_crates (text_of key_b) = Some key_b"
  by (simp_all add: text_of_decodes key_a_def key_b_def wf_public_key_def secret_a_def secret_b_def)

abbreviation toy_step :: "cli_input \<Rightarrow> cli \<Rightarrow> (flow, cli_error) result \<times> cli" where
  "toy_step \<equiv> cli_step toy_crates (\<lambda>_. True) rng0"

lemma toy_delivery:
  assumes "wire_of_json toy_crates t = Some e" and "handle_event toy_crates rng0 e (cl_session c) = (q, u)" and "q \<noteq> Panic"
  obtains c' where "toy_step (Socket (Some (Some (WsText t)))) c = (Ok Continue, c')" and "cl_session c' = u"
    and "shown_lines (cl_output c') = shown_lines (cl_output c) @ shown_line q"
proof -
  obtain r c' where s: "on_text toy_crates (\<lambda>_. True) rng0 t c = (r, c')" by fastforce
  have "fst (on_text toy_crates (\<lambda>_. True) rng0 t c) = Ok Continue"
    by (rule on_text_survives [OF assms(1)]) (use assms(2,3) in simp_all)
  then show thesis
    using that [of c'] s on_text_effect [OF toy_envelope_faithful s assms(1,2)] by (simp add: cli_step_def)
qed

lemma bob_accepts_key:
  "handle_event toy_crates rng0 key_a (cl_session cli_bob) = (Ok inbound_outcome_default,
     client_b\<lparr>cs_expected_peer_fingerprint := Some (fingerprint toy_crates (PublicKeyBytes secret_a))\<rparr>)"
  by (simp add: handle_event_def key_a_def cli_bob_def client_session_new_def client_b_def session_b_def
      key_pair_generate_def key_pair_public_key_def toy_crates_def Let_def)

lemma alice_accepts_key:
  "handle_event toy_crates rng0 key_b (cl_session cli_alice) = (Ok inbound_outcome_default, client_a)"
  by (simp add: handle_event_def key_b_def cli_alice_def client_session_new_def client_a_def session_a_def
      key_pair_generate_def key_pair_public_key_def toy_crates_def Let_def)

theorem shown_lines_authentic_witness:
  "\<exists>x. no_forgery toy_crates (\<lambda>_. True) (\<lambda>_. True) (line_delivery x) (world_start cli_alice cli_bob) \<and>
     shown_lines (cl_output (w_b (world_run toy_crates (\<lambda>_. True) (\<lambda>_. True) (line_delivery x)
       (world_start cli_alice cli_bob)))) = [hello_line] \<and>
     mset (shown_lines (cl_output (w_b (world_run toy_crates (\<lambda>_. True) (\<lambda>_. True) (line_delivery x)
       (world_start cli_alice cli_bob))))) \<subseteq># mset (concat (map typed_at_a (line_delivery x)))"
proof -
  obtain b where b: "toy_step (Socket (Some (Some (WsText (text_of key_a))))) cli_bob = (Ok Continue, b)"
    "cl_session b = client_b\<lparr>cs_expected_peer_fingerprint := Some (fingerprint toy_crates (PublicKeyBytes secret_a))\<rparr>"
    "shown_lines (cl_output b) = []"
    by (rule toy_delivery [OF keys_decode(1) bob_accepts_key])
      (simp_all add: cli_bob_def Let_def shown_line_def outcome_line_def inbound_outcome_default_def)
  obtain a where a: "toy_step (Socket (Some (Some (WsText (text_of key_b))))) cli_alice = (Ok Continue, a)"
    "cl_session a = client_a"
    by (rule toy_delivery [OF keys_decode(2) alice_accepts_key]) simp_all
  have pair: "ready_pair toy_crates a b"
    using clients_linked client_a_inv by (simp add: ready_pair_def a(2) b(2) linked_def)
  have fits: "line_fits toy_crates hello_line"
    using hello_line_short by (auto simp: line_fits_def hello_line_def str_def)
  obtain env a' x where x: "toy_step (Line (Some (Some hello_line))) a = (Ok Continue, a')"
    "cl_sent a' = cl_sent a @ [x]" "wire_of_json toy_crates x = Some (EncryptedMessage env)"
    "client_encrypt_payload toy_crates (rg_message_id rng0) (Chat hello_line) (cl_session a) =
      (Ok (EncryptedMessage env), cl_session a')"
    by (rule line_typed [OF toy_crypto_laws toy_json_wire_roundtrip toy_digest_lengths pair fits TrueI, of rng0])
  obtain b' where b': "toy_step (Socket (Some (Some (WsText x)))) b = (Ok Continue, b')"
    "cl_output b' = cl_output b @ [ChatLine hello_line]"
    using line_shown [OF toy_crypto_laws pair x(4,3)] by blast
  have dec: "wire_of_json toy_crates (text_of key_a) = Some (PeerKey alice bob (PublicKeyBytes secret_a))"
    unfolding keys_decode by (simp add: key_a_def)
  note steps = world_step_def a(1) b(1) x(1) b'(1)
  have nf: "no_forgery toy_crates (\<lambda>_. True) (\<lambda>_. True) (line_delivery x) (world_start cli_alice cli_bob)"
    by (simp add: line_delivery_def world_start_def steps forges_def dec carries_def x(2,3) split: option.split)
  have shown: "shown_lines (cl_output (w_b (world_run toy_crates (\<lambda>_. True) (\<lambda>_. True) (line_delivery x)
      (world_start cli_alice cli_bob)))) = [hello_line]"
    by (simp add: line_delivery_def world_start_def steps b(3) b'(2))
  have laws: "integrity_laws toy_crates"
    by (simp add: integrity_laws_def toy_aead_correct toy_aead_authentic toy_json_aad_injective)
  have pk: "x25519_public toy_crates secret_a = secret_a" by (simp add: toy_crates_def)
  have coll: "k = PublicKeyBytes (x25519_public toy_crates secret_a)"
    if "k \<in> set (concat (map (offered_key toy_crates) (line_delivery x)))" for k
    using that by (simp add: line_delivery_def dec x(3) pk)
  have args: "ar_id args_bob \<noteq> ar_peer args_bob" "ar_verify_fingerprint args_bob =
      Some (fingerprint toy_crates (PublicKeyBytes (x25519_public toy_crates secret_a)))"
    by (simp_all add: args_bob_def str_def pk)
  have "overflow_checks toy_crates \<or> 4 * length (line_delivery x) < 2 ^ 32" by (simp add: toy_crates_def)
  from shown_lines_authentic [OF laws toy_payload_faithful toy_envelope_faithful toy_lowers alice_starts bob_starts args
      toy_fingerprint_normalized coll nf this] nf shown
  show ?thesis by blast
qed

end
