(* ===== verification/Chat_System.thy ===== *)
theory Chat_System
  imports Conversation Network_Runs Server_Main
begin

text \<open>
  The whole system at work: two clients and the relay between them. Lines are typed at either client;
  what a client writes to its socket is served by its connection task, what the relay queues is sent by
  the writers and read by the clients. A conversation of any length, rekeys included, shows each line
  on the other screen, in order.
\<close>

section \<open>Clients and relay\<close>

text \<open>The end of a connection task: \<open>unregister_client\<close> and \<open>writer.abort()\<close>.\<close>

definition disconnect_task ::
  "'h event_hook \<Rightarrow> nat \<Rightarrow> client_id \<Rightarrow> (in_memory_router, 'h, 'a) relay \<Rightarrow> (in_memory_router, 'h, 'a) relay" where
  "disconnect_task H t c w =
     (let st = unregister_client in_memory_message_router H c (rl_state w)
      in w\<lparr>rl_state := st\<lparr>ss_channels := (ss_channels st)(t := (ss_channels st t)\<lparr>ch_receiver := False\<rparr>)\<rparr>,
           rl_task := (rl_task w)(t := Finished (Some c)), rl_writer := (rl_writer w)(t := WriterOff)\<rparr>)"

text \<open>
  One iteration of the select loop of \<open>handle_socket\<close> on a text the client of connection \<open>t\<close> has sent, run
  without interference; \<open>sock\<close> is what the upgraded socket yields for the text, which \<open>ws_handler\<close> decides.
\<close>

definition serve_text ::
  "crates \<Rightarrow> 'h event_hook \<Rightarrow> (ustring \<Rightarrow> ws_input) \<Rightarrow> nat \<Rightarrow> ustring \<Rightarrow> (in_memory_router, 'h, 'a) relay
    \<Rightarrow> (in_memory_router, 'h, 'a) relay" where
  "serve_text L H sock t x w = (case rl_task w t of
      SelectLoop c \<Rightarrow>
        (case loop_frame L (sock x) of
           FrameEvent event \<Rightarrow>
             w\<lparr>rl_state := (case route_and_flush in_memory_message_router H c event (rl_state w) of
                 (Err error, st) \<Rightarrow>
                   if should_report_routing_error event error then snd (try_send t (routing_error_event error) st) else st
               | (_, st) \<Rightarrow> st)\<rparr>
         | FrameContinue \<Rightarrow> w
         | FrameBreak \<Rightarrow> disconnect_task H t c w)
    | _ \<Rightarrow> w)"

text \<open>The writer of a connection, run until its queue is empty: the texts it sends and what it leaves.\<close>

definition take_queue ::
  "crates \<Rightarrow> nat \<Rightarrow> ('r, 'h, 'a) relay \<Rightarrow> ustring list \<times> ('r, 'h, 'a) relay" where
  "take_queue L t w =
     (if rl_writer w t = WriterRecv
      then let st = rl_state w; texts = List.map_filter (json_of_wire L) (queue t st)
           in (texts, w\<lparr>rl_state := st\<lparr>ss_channels := (ss_channels st)(t := (ss_channels st t)\<lparr>ch_events := []\<rparr>)\<rparr>,
                rl_sent := (rl_sent w)(t := rl_sent w t @ texts)\<rparr>)
      else ([], w))"

text \<open>The client reads texts from its socket, each with fresh randomness.\<close>

definition receive :: "crates \<Rightarrow> (ustring list \<Rightarrow> bool) \<Rightarrow> (nat \<Rightarrow> rng) \<Rightarrow> ustring list \<Rightarrow> cli \<Rightarrow> cli" where
  "receive L net rg xs c =
     snd (cli_loop L net (map (\<lambda>(k, x). (rg k, Socket (Some (Some (WsText x))))) (enumerate 0 xs)) c)"

text \<open>
  The texts of client \<open>i\<close> (connection \<open>h\<close>) pass the relay, and both clients read what the relay sends them.
\<close>

definition carry ::
  "crates \<Rightarrow> 'h event_hook \<Rightarrow> (ustring \<Rightarrow> ws_input) \<Rightarrow> (ustring list \<Rightarrow> bool) \<Rightarrow> (nat \<Rightarrow> rng) \<Rightarrow> (nat \<Rightarrow> rng)
    \<Rightarrow> client_handle \<times> client_id \<Rightarrow> client_handle \<Rightarrow> ustring list
    \<Rightarrow> cli \<times> cli \<times> (in_memory_router, 'h, 'a) relay \<Rightarrow> cli \<times> cli \<times> (in_memory_router, 'h, 'a) relay" where
  "carry L H sock net rgc rgd here there xs sys =
     (let (c, d, w) = sys;
          w = fold (serve_text L H sock (fst here)) xs w;
          (ys, w) = take_queue L there w;
          (zs, w) = take_queue L (fst here) w
      in (receive L net rgc zs c, receive L net rgd ys d, w))"

text \<open>A line typed at the first client: its texts travel there, and the answers travel back.\<close>

definition exchange ::
  "crates \<Rightarrow> 'h event_hook \<Rightarrow> (ustring \<Rightarrow> ws_input) \<Rightarrow> (ustring list \<Rightarrow> bool) \<Rightarrow> (nat \<Rightarrow> nat \<Rightarrow> rng)
    \<Rightarrow> client_handle \<times> client_id \<Rightarrow> client_handle \<times> client_id \<Rightarrow> ustring
    \<Rightarrow> cli \<times> cli \<times> (in_memory_router, 'h, 'a) relay \<Rightarrow> cli \<times> cli \<times> (in_memory_router, 'h, 'a) relay" where
  "exchange L H sock net rg here there line sys =
     (let (c, d, w) = sys;
          c1 = snd (cli_step L net (rg 0 0) (Line (Some (Some line))) c);
          (c2, d1, w1) = carry L H sock net (rg 1) (rg 2) here (fst there) (drop (length (cl_sent c)) (cl_sent c1)) (c1, d, w);
          (d2, c3, w2) = carry L H sock net (rg 3) (rg 4) there (fst here) (drop (length (cl_sent d)) (cl_sent d1)) (d1, c2, w1)
      in (c3, d2, w2))"

datatype seat = AtFirst | AtSecond

fun converse ::
  "crates \<Rightarrow> 'h event_hook \<Rightarrow> (ustring \<Rightarrow> ws_input) \<Rightarrow> (ustring list \<Rightarrow> bool) \<Rightarrow> client_handle \<times> client_id \<Rightarrow> client_handle \<times> client_id
    \<Rightarrow> (seat \<times> ustring \<times> (nat \<Rightarrow> nat \<Rightarrow> rng)) list
    \<Rightarrow> cli \<times> cli \<times> (in_memory_router, 'h, 'a) relay \<Rightarrow> cli \<times> cli \<times> (in_memory_router, 'h, 'a) relay" where
  "converse L H sock net p q [] sys = sys"
| "converse L H sock net p q ((AtFirst, line, rg) # script) sys =
     converse L H sock net p q script (exchange L H sock net rg p q line sys)"
| "converse L H sock net p q ((AtSecond, line, rg) # script) (c, d, w) =
     (let (d, c, w) = exchange L H sock net rg q p line (d, c, w) in converse L H sock net p q script (c, d, w))"

section \<open>What a client does with a text\<close>

lemma receive_simps [simp]:
  "receive L net rg [] c = c"
  "receive L net rg [x] c = snd (cli_step L net (rg 0) (Socket (Some (Some (WsText x)))) c)"
  by (auto simp: receive_def split: prod.split result.split flow.split)

text \<open>An event a ready client accepts, without and with an answer.\<close>

lemma text_read:
  assumes "wire_of_json L x = Some (EncryptedMessage env)" and "is_ready (cl_session c)"
    and "handle_event L rg (EncryptedMessage env) (cl_session c) = (Ok \<lparr>io_event = ev, io_reply_event = None\<rparr>, s)"
  shows "snd (cli_step L net rg (Socket (Some (Some (WsText x)))) c) =
    announce (EncryptedMessage env) \<lparr>io_event = ev, io_reply_event = None\<rparr> (c\<lparr>cl_session := s\<rparr>)"
  using assms
  by (simp add: cli_step_def on_text_def with_session_def show_fingerprint_def needs_peer_key_reply_def)

lemma text_answered:
  assumes "wire_of_json L x = Some (EncryptedMessage env)" and "is_ready (cl_session c)"
    and "handle_event L rg (EncryptedMessage env) (cl_session c) = (Ok \<lparr>io_event = None, io_reply_event = Some e\<rparr>, s)"
    and "json_of_wire L e = Some y" and "\<And>sent. net sent"
  shows "snd (cli_step L net rg (Socket (Some (Some (WsText x)))) c) = c\<lparr>cl_session := s, cl_sent := cl_sent c @ [y]\<rparr>"
  using assms
  by (simp add: cli_step_def on_text_def with_session_def announce_def show_fingerprint_def send_event_def
      needs_peer_key_reply_def control_status_def)

lemma ack_read:
  assumes "wire_of_json L x = Some (Ack mid)"
  shows "snd (cli_step L net rg (Socket (Some (Some (WsText x)))) c) = say (StatusLine (str ''message delivered to relay'')) c"
  using assms
  by (simp add: cli_step_def on_text_def with_session_def announce_def show_fingerprint_def handle_event_def
      inbound_outcome_default_def needs_peer_key_reply_def control_status_def say_def)

section \<open>A message through the relay\<close>

text \<open>Both connections are in their main loop and their writers wait for events.\<close>

definition resting :: "client_handle \<times> client_id \<Rightarrow> client_handle \<times> client_id \<Rightarrow> ('r, 'h, 'a) relay \<Rightarrow> bool" where
  "resting p q w \<longleftrightarrow>
     rl_task w (fst p) = SelectLoop (snd p) \<and> rl_task w (fst q) = SelectLoop (snd q) \<and>
     rl_writer w (fst p) = WriterRecv \<and> rl_writer w (fst q) = WriterRecv"

text \<open>Both clients are connected and nothing is on its way to them.\<close>

definition relay_ready ::
  "client_handle \<times> client_id \<Rightarrow> client_handle \<times> client_id \<Rightarrow> (in_memory_router, 'h, 'a) relay \<Rightarrow> bool" where
  "relay_ready p q w \<longleftrightarrow> (let st = rl_state w in
     resting p q w \<and> fst p \<noteq> fst q \<and> snd p \<noteq> snd q \<and> {snd p, snd q} \<subseteq> imr_clients (ss_router st) \<and>
     imr_pending (ss_router st) (snd p) = [] \<and> imr_pending (ss_router st) (snd q) = [] \<and>
     ss_connections st (snd p) = Some (fst p) \<and> ss_connections st (snd q) = Some (fst q) \<and>
     ch_receiver (ss_channels st (fst p)) \<and> ch_receiver (ss_channels st (fst q)) \<and>
     queue (fst p) st = [] \<and> queue (fst q) st = [])"

lemma relay_ready_sym: "relay_ready p q w \<Longrightarrow> relay_ready q p w"
  by (auto simp: relay_ready_def resting_def Let_def)

lemma take_queue_frame [simp]:
  "ss_router (rl_state (snd (take_queue L h w))) = ss_router (rl_state w)"
  "ss_connections (rl_state (snd (take_queue L h w))) = ss_connections (rl_state w)"
  "rl_task (snd (take_queue L h w)) = rl_task w" "rl_writer (snd (take_queue L h w)) = rl_writer w"
  "ch_receiver (ss_channels (rl_state (snd (take_queue L h w))) h') = ch_receiver (ss_channels (rl_state w) h')"
  by (simp_all add: take_queue_def Let_def)

lemma take_queue_running [simp]:
  assumes "rl_writer w h = WriterRecv"
  shows "queue h' (rl_state (snd (take_queue L h w))) = (if h' = h then [] else queue h' (rl_state w))"
    and "fst (take_queue L h w) = List.map_filter (json_of_wire L) (queue h (rl_state w))"
  using assms by (simp_all add: take_queue_def queue_def Let_def)

text \<open>A text within the limit of the relay comes through as it is.\<close>

definition within_limit :: "ustring \<Rightarrow> bool" where
  "within_limit x \<longleftrightarrow> length (as_bytes x) \<le> MAX_EVENT_BYTES"

definition passes :: "(ustring \<Rightarrow> ws_input) \<Rightarrow> bool" where
  "passes sock \<longleftrightarrow> (\<forall>x. within_limit x \<longrightarrow> sock x = TextFrame x)"

lemma ws_handler_passes: "frames_limited F \<Longrightarrow> passes (ws_handler F ws)"
  by (simp add: passes_def within_limit_def ws_handler_input)

lemma serve_event:
  assumes "passes sock" and "within_limit x" and "wire_of_json L x = Some e" and "rl_task w t = SelectLoop c"
    and "route_and_flush in_memory_message_router H c e (rl_state w) = (Ok (), st)"
  shows "serve_text L H sock t x w = w\<lparr>rl_state := st\<rparr>"
  using assms by (simp add: serve_text_def passes_def loop_frame_def)

text \<open>What the clients read when one text has been served and both writers have run.\<close>

lemma carry_served:
  assumes "serve_text L H sock (fst p) x w = w1" and "resting p q w1" and "fst p \<noteq> fst q"
  shows "carry L H sock net rgc rgd p (fst q) [x] (c, d, w) =
    (receive L net rgc (List.map_filter (json_of_wire L) (queue (fst p) (rl_state w1))) c,
     receive L net rgd (List.map_filter (json_of_wire L) (queue (fst q) (rl_state w1))) d,
     snd (take_queue L (fst p) (snd (take_queue L (fst q) w1))))"
  using assms by (simp add: carry_def case_prod_beta Let_def resting_def del: receive_simps)

lemma carry_nothing:
  assumes "relay_ready p q w"
  obtains w' where "carry L H sock net rgc rgd p (fst q) [] (c, d, w) = (c, d, w')" and "relay_ready p q w'"
proof -
  let ?w = "snd (take_queue L (fst p) (snd (take_queue L (fst q) w)))"
  have "carry L H sock net rgc rgd p (fst q) [] (c, d, w) = (c, d, ?w)"
    using assms by (simp add: carry_def relay_ready_def resting_def case_prod_beta Let_def)
  moreover have "relay_ready p q ?w" using assms by (simp add: relay_ready_def resting_def Let_def)
  ultimately show thesis using that by blast
qed

lemma carry_message:
  assumes ready: "relay_ready p q w" and L: "json_wire_roundtrip L" and sock: "passes sock" "within_limit x"
    and env: "env_sender env = snd p" "env_recipient env = snd q"
    and x: "json_of_wire L (EncryptedMessage env) = Some x" "wire_of_json L x = Some (EncryptedMessage env)"
  obtains z w' where "wire_of_json L z = Some (Ack (env_message_id env))" and "relay_ready p q w'"
    and "carry L H sock net rgc rgd p (fst q) [x] (c, d, w) = (receive L net rgc [z] c, receive L net rgd [x] d, w')"
proof -
  let ?st = "rl_state w"
  obtain z where z: "json_of_wire L (Ack (env_message_id env)) = Some z" "wire_of_json L z = Some (Ack (env_message_id env))"
    using L unfolding json_wire_roundtrip_def by (metis wf_wire_event.simps(4))
  obtain r st1 where r: "route_and_flush in_memory_message_router H (snd p) (EncryptedMessage env) ?st = (r, st1)" by fastforce
  have ok: "route_outcome (snd p) (EncryptedMessage env) (imr_clients (ss_router ?st)) = Ok (snd q)"
    using ready env by (simp add: route_outcome_Ok_iff relay_ready_def Let_def)
  have room: "has_room h (length [] + 1) ?st" if "h \<in> {fst p, fst q}" for h
    using ready that by (auto simp: has_room_def relay_ready_def queue_def OUTBOX_CAPACITY_def Let_def)
  note d = imr.route_message_delivers [OF ok _ _ _ _ _ _ r, of "fst q" "fst p"]
  have st1: "r = Ok ()" "queue (fst q) st1 = [EncryptedMessage env]" "queue (fst p) st1 = [Ack (env_message_id env)]"
    "imr_pending (ss_router st1) (snd q) = []" "imr_pending (ss_router st1) (snd p) = []"
    "imr_clients (ss_router st1) = imr_clients (ss_router ?st)" "ss_connections st1 = ss_connections ?st"
    "\<forall>h. ch_receiver (ss_channels st1 h) = ch_receiver (ss_channels ?st h)"
    using d ready room by (auto simp: relay_ready_def Let_def)
  let ?w1 = "w\<lparr>rl_state := st1\<rparr>"
  let ?w = "snd (take_queue L (fst p) (snd (take_queue L (fst q) ?w1)))"
  have "serve_text L H sock (fst p) x w = ?w1"
    by (rule serve_event [OF sock x(2)]) (use ready r st1(1) in \<open>simp_all add: relay_ready_def resting_def Let_def\<close>)
  then have "carry L H sock net rgc rgd p (fst q) [x] (c, d, w) = (receive L net rgc [z] c, receive L net rgd [x] d, ?w)"
    using carry_served [of L H sock p x w ?w1 q] ready st1(2,3) x(1) z(1)
    by (simp add: relay_ready_def resting_def map_filter_simps Let_def del: receive_simps)
  moreover have "relay_ready p q ?w" using ready st1 by (simp add: relay_ready_def resting_def Let_def)
  ultimately show thesis using that z(2) by blast
qed

section \<open>Sessions that can go on\<close>

text \<open>Room for \<open>m\<close> more envelopes and \<open>n\<close> more epochs.\<close>

definition calm :: "nat \<Rightarrow> nat \<Rightarrow> crypto_session \<Rightarrow> bool" where
  "calm m n x \<longleftrightarrow> valid_ids x \<and> inbound_nonces x (- 1) = None \<and>
     unat (next_outbound_nonce x) + m < 2 ^ 64 - 1 \<and> unat (epoch x) + n < 2 ^ 32 - 1"

lemma calm_upd [simp]:
  "calm m n (x\<lparr>pending_rekey := p\<rparr>) = calm m n x" "calm m n (x\<lparr>staged_master := s\<rparr>) = calm m n x"
  by (simp_all add: calm_def valid_ids_def)

lemma calm_limits:
  assumes "calm m n x"
  shows "next_outbound_nonce x \<noteq> - 1" and "epoch x \<noteq> - 1" and "valid_ids x"
  using assms by (auto simp: calm_def unsigned_minus_1_eq_mask mask_eq_exp_minus_1)

lemma calm_mono: "calm m n x \<Longrightarrow> m' \<le> m \<Longrightarrow> n' \<le> n \<Longrightarrow> calm m' n' x"
  by (simp add: calm_def)

lemma calm_can_rekey: "calm m n x \<Longrightarrow> \<not> is_rekey_in_progress x \<Longrightarrow> can_rekey L x"
  using calm_limits [of m n x] by (simp add: can_rekey_def calm_def)

lemma calm_noted: "calm m n x \<Longrightarrow> env_epoch env \<noteq> - 1 \<Longrightarrow> calm m n (noted env x)"
  by (simp add: calm_def noted_def valid_ids_def)

lemma calm_rotated:
  assumes "calm m (Suc n) x"
  shows "calm m n (rotated nm x)" and "unat (epoch (rotated nm x)) = Suc (unat (epoch x))"
proof -
  have "unat (epoch x + 1) = Suc (unat (epoch x))"
    using assms calm_limits(2) [OF assms] by (metis Suc_eq_plus1 add_overflows_one_iff unat_add_one)
  then show "calm m n (rotated nm x)" "unat (epoch (rotated nm x)) = Suc (unat (epoch x))"
    using assms by (simp_all add: calm_def rotated_def valid_ids_def retain_apply)
qed

lemma encrypt_payload_state:
  "encrypt_payload L mid p x = (Ok env, x') \<Longrightarrow> x' = x\<lparr>next_outbound_nonce := next_outbound_nonce x + 1\<rparr>"
  using encrypt_payload_Ok(1) encrypt_Ok_state by blast

lemma calm_sent:
  assumes "calm (Suc m) n x" and "encrypt_payload L mid p x = (Ok env, x')"
  shows "calm m n x'"
proof -
  have "unat (next_outbound_nonce x + 1) = Suc (unat (next_outbound_nonce x))"
    using calm_limits(1) [OF assms(1)] by (metis Suc_eq_plus1 add_overflows_one_iff unat_add_one)
  then show ?thesis
    using assms(1) unfolding encrypt_payload_state [OF assms(2)] by (simp add: calm_def valid_ids_def)
qed

text \<open>A client in its seat: it speaks as \<open>i\<close> to \<open>j\<close> with session \<open>x\<close>, rekeys only on command, and is in no handshake.\<close>

definition seated :: "crates \<Rightarrow> nat \<Rightarrow> client_id \<Rightarrow> client_id \<Rightarrow> cli \<Rightarrow> crypto_session \<Rightarrow> bool" where
  "seated L n i j c x \<longleftrightarrow>
     cs_crypto_session (cl_session c) = Some x \<and> cs_local_id (cl_session c) = i \<and> cs_peer_id (cl_session c) = j \<and>
     client_inv L (cl_session c) \<and> cs_auto_rekey_after (cl_session c) = None \<and> calm n n x \<and> \<not> is_rekey_in_progress x"

lemma seated_say [simp]: "seated L n i j (say out c) x = seated L n i j c x"
  by (simp add: seated_def say_def)

lemma seated_moved:
  assumes "seated L m i j c x" and "same_identity x x'" and "calm n n x'" and "\<not> is_rekey_in_progress x'"
    and "cl_session c' = (cl_session c)\<lparr>cs_crypto_session := Some x', cs_outbound_since_rekey := k\<rparr>"
  shows "seated L n i j c' x'"
proof -
  have "client_frame (cl_session c) (cl_session c')"
    using assms by (simp add: client_frame_def seated_def)
  then have "client_inv L (cl_session c')" using assms(1) by (auto simp: seated_def intro: client_inv_frame)
  then show ?thesis using assms by (simp add: seated_def)
qed

text \<open>It stays in its seat when it has sent an envelope and when it has read one.\<close>

lemma seated_sent:
  assumes x: "seated L (Suc n) i j c x" and enc: "encrypt_payload L mid p x = (Ok env, x')"
    and "cl_session c' = (cl_session c)\<lparr>cs_crypto_session := Some x'\<rparr>"
  shows "seated L n i j c' x'"
proof (rule seated_moved [OF x, where k = "cs_outbound_since_rekey (cl_session c)"])
  show "calm n n x'" using calm_sent [OF _ enc, of n n] calm_mono [of "Suc n" "Suc n" x] x by (simp add: seated_def)
qed (use x assms(3) encrypt_payload_state [OF enc] in \<open>simp_all add: same_identity_def seated_def is_rekey_in_progress_def\<close>)

lemma seated_noted:
  assumes y: "seated L (Suc n) i j d y" and "env_epoch env \<noteq> - 1"
    and "cl_session d' = (cl_session d)\<lparr>cs_crypto_session := Some (noted env y)\<rparr>"
  shows "seated L n i j d' (noted env y)"
proof (rule seated_moved [OF y, where k = "cs_outbound_since_rekey (cl_session d)"])
  show "calm n n (noted env y)"
    using calm_noted [OF _ assms(2), of n n y] calm_mono [of "Suc n" "Suc n" y] y by (simp add: seated_def)
qed (use y assms(3) in \<open>simp_all add: same_identity_def seated_def is_rekey_in_progress_def\<close>)

text \<open>The two clients in agreement at epoch \<open>ep\<close>, with the relay ready between them.\<close>

definition in_touch ::
  "crates \<Rightarrow> nat \<Rightarrow> nat \<Rightarrow> client_handle \<times> client_id \<Rightarrow> client_handle \<times> client_id
    \<Rightarrow> cli \<times> cli \<times> (in_memory_router, 'h, 'a) relay \<Rightarrow> bool" where
  "in_touch L n ep p q sys \<longleftrightarrow> (case sys of (c, d, w) \<Rightarrow> relay_ready p q w \<and>
     (\<exists>x y. seated L n (snd p) (snd q) c x \<and> seated L n (snd q) (snd p) d y \<and> in_sync x y \<and> unat (epoch x) = ep))"

lemma in_touchI:
  "relay_ready p q w \<Longrightarrow> seated L n (snd p) (snd q) c x \<Longrightarrow> seated L n (snd q) (snd p) d y \<Longrightarrow> in_sync x y \<Longrightarrow>
     unat (epoch x) = ep \<Longrightarrow> in_touch L n ep p q (c, d, w)"
  unfolding in_touch_def by blast

lemma in_touchE:
  assumes "in_touch L n ep p q (c, d, w)"
  obtains x y where "relay_ready p q w" "seated L n (snd p) (snd q) c x" "seated L n (snd q) (snd p) d y" "in_sync x y"
    "unat (epoch x) = ep"
  using assms by (auto simp: in_touch_def)

lemma in_touch_sym:
  assumes "in_touch L n ep p q (c, d, w)"
  shows "in_touch L n ep q p (d, c, w)"
proof (rule in_touchE [OF assms])
  fix x y
  assume "relay_ready p q w" and x: "seated L n (snd p) (snd q) c x" and y: "seated L n (snd q) (snd p) d y"
    and sync: "in_sync x y" and "unat (epoch x) = ep"
  moreover from sync have "epoch y = epoch x" by (simp add: in_sync_def paired_def)
  ultimately show ?thesis by (intro in_touchI [OF relay_ready_sym y x in_sync_sym [OF sync]]) simp_all
qed

section \<open>One exchange\<close>

lemma exchange_eq:
  assumes "cli_step L net (rg 0 0) (Line (Some (Some line))) c = (r, c1)" and "cl_sent c1 = cl_sent c @ xs"
    and "carry L H sock net (rg 1) (rg 2) p (fst q) xs (c1, d, w) = (c2, d1, w1)" and "cl_sent d1 = cl_sent d @ ys"
    and "carry L H sock net (rg 3) (rg 4) q (fst p) ys (d1, c2, w1) = (d2, c3, w2)"
  shows "exchange L H sock net rg p q line (c, d, w) = (c3, d2, w2)"
  using assms by (simp add: exchange_def)

lemma seated_ready: "seated L n i j c x \<Longrightarrow> is_ready (cl_session c)"
  by (simp add: seated_def is_ready_def)

text \<open>
  A payload is sealed into texts within the limit when every envelope a session between valid identities
  makes of it has such a text.
\<close>

definition sealed_fits :: "crates \<Rightarrow> session_payload \<Rightarrow> bool" where
  "sealed_fits L p \<longleftrightarrow> (\<forall>s mid env s' t.
     valid_ids s \<longrightarrow> outbound_nonce_prefix s = nonce_prefix L (local_id s) (peer_id s) \<longrightarrow>
     encrypt_payload L mid p s = (Ok env, s') \<longrightarrow> json_of_wire L (EncryptedMessage env) = Some t \<longrightarrow> within_limit t)"

text \<open>Hellos, key offers and rekey messages have a fixed size, far below the limit.\<close>

definition control_fits :: "crates \<Rightarrow> bool" where
  "control_fits L \<longleftrightarrow>
     (\<forall>i j k t. valid_client_id i \<longrightarrow> valid_client_id j \<longrightarrow> wf_public_key k \<longrightarrow>
        json_of_wire L (ClientHello i k) = Some t \<or> json_of_wire L (PeerKey i j k) = Some t \<longrightarrow> within_limit t) \<and>
     (\<forall>r k. wf_rekey_id r \<longrightarrow> wf_public_key k \<longrightarrow> sealed_fits L (RekeyRequest r k) \<and> sealed_fits L (RekeyResponse r k))"

lemma seated_identity:
  assumes "seated L n i j c x" and "same_identity x u"
  shows "local_id u = i" and "peer_id u = j" and "outbound_nonce_prefix u = nonce_prefix L i j" and "valid_ids u"
  using assms calm_limits(3) [of n n x] by (simp_all add: seated_def client_inv_def same_identity_def valid_ids_def)

lemma sealed_within:
  assumes "seated L n i j c x" and "same_identity x u" and "encrypt_payload L mid p u = (Ok env, u')"
    and "sealed_fits L p" and "json_of_wire L (EncryptedMessage env) = Some t"
  shows "within_limit t"
  using assms(3-5) seated_identity [OF assms(1,2)] unfolding sealed_fits_def by metis

lemma exchange_line:
  assumes laws: "crypto_laws L" and wire: "json_wire_roundtrip L" and dig: "digest_lengths L"
    and sock: "passes sock" and touch: "in_touch L (Suc n) ep p q (c, d, w)" and fits: "line_fits L line" "sealed_fits L (Chat line)" and net: "\<And>sent. net sent"
  obtains c' d' w' where "exchange L H sock net rg p q line (c, d, w) = (c', d', w')"
    and "in_touch L n ep p q (c', d', w')" and "shown_lines (cl_output c') = shown_lines (cl_output c)"
    and "shown_lines (cl_output d') = shown_lines (cl_output d) @ [line]"
proof -
  obtain x y where ready: "relay_ready p q w" and x: "seated L (Suc n) (snd p) (snd q) c x"
    and y: "seated L (Suc n) (snd q) (snd p) d y" and sync: "in_sync x y" and ep: "unat (epoch x) = ep"
    by (rule in_touchE [OF touch])
  have lim: "epoch y \<noteq> - 1" "epoch x \<noteq> - 1" "next_outbound_nonce x \<noteq> - 1" "valid_ids x" "valid_ids y"
    using x y calm_limits by (auto simp: seated_def)
  have pair: "ready_pair L c d" using x y sync lim by (auto simp: ready_pair_def seated_def linked_def)
  obtain env c1 t where t: "cli_step L net (rg 0 0) (Line (Some (Some line))) c = (Ok Continue, c1)"
    "cl_sent c1 = cl_sent c @ [t]" "json_of_wire L (EncryptedMessage env) = Some t"
    "wire_of_json L t = Some (EncryptedMessage env)" "env_sender env = cs_local_id (cl_session c)"
    "env_recipient env = cs_peer_id (cl_session c)" "env_message_id env = rg_message_id (rg 0 0)"
    "client_encrypt_payload L (rg_message_id (rg 0 0)) (Chat line) (cl_session c) =
      (Ok (EncryptedMessage env), cl_session c1)" "cl_output c1 = cl_output c"
    by (rule line_typed [OF laws wire dig pair fits(1) net, where rg = "rg 0 0"])
  obtain x' where x': "encrypt_payload L (rg_message_id (rg 0 0)) (Chat line) x = (Ok env, x')"
    "cl_session c1 = (cl_session c)\<lparr>cs_crypto_session := Some x'\<rparr>"
    using client_encrypt_payload_OkE [OF t(8)] x by (metis seated_def wire_event.inject(3))
  have dec: "decrypt_payload L env y = (Ok (Chat line), noted env y)" "in_sync x' (noted env y)"
    using payload_arrives [OF laws sync lim(1) _ x'(1)] by simp_all
  have limit: "within_limit t" by (rule sealed_within [OF x _ x'(1) fits(2) t(3)]) (simp add: same_identity_def)
  have ids: "env_sender env = snd p" "env_recipient env = snd q" using t(5,6) x by (simp_all add: seated_def)
  obtain z w1 where z: "wire_of_json L z = Some (Ack (env_message_id env))" "relay_ready p q w1"
    "carry L H sock net (rg 1) (rg 2) p (fst q) [t] (c1, d, w) = (receive L net (rg 1) [z] c1, receive L net (rg 2) [t] d, w1)"
    by (rule carry_message [OF ready wire sock limit ids t(3,4)])
  let ?c = "receive L net (rg 1) [z] c1" and ?d = "receive L net (rg 2) [t] d"
  have c: "?c = say (StatusLine (str ''message delivered to relay'')) c1" using ack_read [OF z(1)] by simp
  have d: "?d = say (ChatLine line) (d\<lparr>cl_session := (cl_session d)\<lparr>cs_crypto_session := Some (noted env y)\<rparr>\<rparr>)"
    using text_read [OF t(4) seated_ready [OF y] chat_opened [OF _ dec(1)]] y by (simp add: seated_def announce_def)
  obtain w2 where w2: "carry L H sock net (rg 3) (rg 4) q (fst p) [] (?d, ?c, w1) = (?d, ?c, w2)" "relay_ready q p w2"
    by (rule carry_nothing [OF relay_ready_sym [OF z(2)]])
  have "exchange L H sock net rg p q line (c, d, w) = (?c, ?d, w2)"
    by (rule exchange_eq [OF t(1,2) z(3) _ w2(1)]) (simp add: d say_def del: receive_simps)
  moreover have "env_epoch env \<noteq> - 1" using encrypt_payload_Ok(3) [OF x'(1)] lim(2) by simp
  then have "in_touch L n ep p q (?c, ?d, w2)"
    using seated_sent [OF x x'(1)] seated_noted [OF y] x'(2) ep encrypt_payload_state [OF x'(1)] unfolding c d
    by (intro in_touchI [OF relay_ready_sym [OF w2(2)] _ _ dec(2)]) simp_all
  moreover have "shown_lines (cl_output ?c) = shown_lines (cl_output c)"
    "shown_lines (cl_output ?d) = shown_lines (cl_output d) @ [line]"
    unfolding c d by (simp_all add: t(9) say_def)
  ultimately show thesis using that by blast
qed

text \<open>The randomness of an exchange gives usable rekey ids and ephemeral keys.\<close>

definition fresh_rngs :: "crates \<Rightarrow> (nat \<Rightarrow> nat \<Rightarrow> rng) \<Rightarrow> bool" where
  "fresh_rngs L rg \<longleftrightarrow> (\<forall>k k'. fresh_rekey L (rg_rekey_id (rg 0 0)) (rg_secret (rg k k')))"

text \<open>The command \<open>/rekey\<close> at a seated client sends the request.\<close>

lemma rekey_typed:
  assumes "is_ready (cl_session c)" and "client_start_rekey L rg (cl_session c) = (Ok e, s)"
    and "json_of_wire L e = Some t" and "\<And>sent. net sent"
  shows "cli_step L net rg (Line (Some (Some (str ''/rekey'')))) c =
    (Ok Continue, c\<lparr>cl_session := s, cl_sent := cl_sent c @ [t]\<rparr>)"
  using assms by (simp add: cli_step_def on_line_def with_session_def send_event_def str_def)

lemma seated_envelope:
  assumes "seated L n i j c x" and "json_wire_roundtrip L" and "digest_lengths L" and "same_identity x u"
    and enc: "encrypt_payload L mid p u = (Ok env, u')"
  obtains t where "json_of_wire L (EncryptedMessage env) = Some t" and "wire_of_json L t = Some (EncryptedMessage env)"
    and "env_sender env = i" and "env_recipient env = j"
proof -
  obtain bs where bs: "encrypt L mid bs u = (Ok env, u')" using encrypt_payload_Ok(1) [OF enc] by blast
  note u = seated_identity [OF assms(1,4)]
  obtain t where "json_of_wire L (EncryptedMessage env) = Some t" "wire_of_json L t = Some (EncryptedMessage env)"
    by (rule envelope_text [OF assms(2,3) u(4,3) bs])
  then show thesis using that encrypt_header [OF bs] u(1,2) by simp
qed

text \<open>The sessions after a handshake.\<close>

lemma handshake_calm:
  fixes nm :: bytes
  assumes x: "calm (Suc n) (Suc n) x" and y: "calm (Suc n) (Suc n) y" and "env_epoch e1 \<noteq> - 1" and "env_epoch e2 \<noteq> - 1"
    and enc: "encrypt_payload L mid req (x\<lparr>pending_rekey := p\<rparr>) = (Ok e1, x1)"
      "encrypt_payload L mid' resp ((noted e1 y)\<lparr>staged_master := m\<rparr>) = (Ok e2, y1)"
  defines "x2 \<equiv> (rotated nm (noted e2 x1))\<lparr>pending_rekey := None\<rparr>" and "y2 \<equiv> (rotated nm y1)\<lparr>staged_master := None\<rparr>"
  shows "calm n n x2" and "calm n n y2" and "same_identity x x2" and "same_identity y y2"
    and "unat (epoch x2) = Suc (unat (epoch x))"
proof -
  have x1: "calm n (Suc n) x1" using calm_sent [OF _ enc(1), of n "Suc n"] x by simp
  note x1' = calm_rotated [OF calm_noted [OF x1 assms(4)], of nm]
  have y1: "calm n (Suc n) y1" using calm_sent [OF _ enc(2), of n "Suc n"] calm_noted [OF y assms(3)] by simp
  show "calm n n x2" "calm n n y2" using x1'(1) calm_rotated(1) [OF y1] by (simp_all add: x2_def y2_def)
  show "same_identity x x2" "same_identity y y2" "unat (epoch x2) = Suc (unat (epoch x))"
    using encrypt_payload_state [OF enc(1)] encrypt_payload_state [OF enc(2)] x1'(2)
    by (simp_all add: x2_def y2_def same_identity_def)
qed

lemma exchange_rekey:
  assumes laws: "crypto_laws L" and wire: "json_wire_roundtrip L" and dig: "digest_lengths L"
    and sock: "passes sock" and touch: "in_touch L (Suc n) ep p q (c, d, w)" and fresh: "fresh_rngs L rg" and control: "control_fits L" and net: "\<And>sent. net sent"
  obtains c' d' w' where "exchange L H sock net rg p q (str ''/rekey'') (c, d, w) = (c', d', w')"
    and "in_touch L n (Suc ep) p q (c', d', w')" and "shown_lines (cl_output c') = shown_lines (cl_output c)"
    and "shown_lines (cl_output d') = shown_lines (cl_output d)"
proof -
  obtain x y where ready: "relay_ready p q w" and x: "seated L (Suc n) (snd p) (snd q) c x"
    and y: "seated L (Suc n) (snd q) (snd p) d y" and sync: "in_sync x y" and ep: "unat (epoch x) = ep"
    by (rule in_touchE [OF touch])
  have xs: "cs_crypto_session (cl_session c) = Some x" "can_rekey L x" "calm (Suc n) (Suc n) x"
    and ys: "cs_crypto_session (cl_session d) = Some y" "can_rekey L y" "calm (Suc n) (Suc n) y"
    using x y calm_can_rekey by (auto simp: seated_def)
  show thesis
  proof (rule client_handshake_sessions [OF laws xs(1) ys(1) sync xs(2) ys(2), of "rg 0 0" "rg 2 0" "rg 4 0"], goal_cases)
    case (3 e1 pend x1 e2 nm y1)
    let ?s1 = "(cl_session c)\<lparr>cs_crypto_session := Some x1\<rparr>"
    let ?y2 = "(rotated nm y1)\<lparr>staged_master := None\<rparr>" and ?x2 = "(rotated nm (noted e2 x1))\<lparr>pending_rekey := None\<rparr>"
    obtain t1 where t1: "json_of_wire L (EncryptedMessage e1) = Some t1" "wire_of_json L t1 = Some (EncryptedMessage e1)"
      "env_sender e1 = snd p" "env_recipient e1 = snd q"
      by (rule seated_envelope [OF x wire dig _ 3(2)]) (simp_all add: same_identity_def)
    obtain t2 where t2: "json_of_wire L (EncryptedMessage e2) = Some t2" "wire_of_json L t2 = Some (EncryptedMessage e2)"
      "env_sender e2 = snd q" "env_recipient e2 = snd p"
      by (rule seated_envelope [OF y wire dig _ 3(3)]) (simp_all add: same_identity_def)
    have wf: "wf_rekey_id (rg_rekey_id (rg 0 0))" "wf_public_key (PublicKeyBytes (x25519_public L (rg_secret (rg k k'))))" for k k'
      using fresh by (simp_all add: fresh_rngs_def fresh_rekey_def)
    have limit: "within_limit t1" "within_limit t2"
      using sealed_within [OF x _ 3(2) _ t1(1)] sealed_within [OF y _ 3(3) _ t2(1)] control wf
      by (simp_all add: same_identity_def control_fits_def)
    let ?c1 = "c\<lparr>cl_session := ?s1, cl_sent := cl_sent c @ [t1]\<rparr>"
    let ?d1 = "d\<lparr>cl_session := (cl_session d)\<lparr>cs_crypto_session := Some ?y2\<rparr>, cl_sent := cl_sent d @ [t2]\<rparr>"
    let ?c2 = "say (StatusLine (str ''message delivered to relay'')) ?c1"
    let ?d2 = "say (StatusLine (str ''message delivered to relay'')) ?d1"
    let ?c3 = "say (RotatedTo (epoch x + 1)) (?c2\<lparr>cl_session := (cl_session c)
      \<lparr>cs_crypto_session := Some ?x2, cs_outbound_since_rekey := 0\<rparr>\<rparr>)"
    have typed: "cli_step L net (rg 0 0) (Line (Some (Some (str ''/rekey'')))) c = (Ok Continue, ?c1)"
      by (rule rekey_typed [OF seated_ready [OF x] 3(1) t1(1) net])
    obtain z1 w1 where z1: "wire_of_json L z1 = Some (Ack (env_message_id e1))" "relay_ready p q w1"
      "carry L H sock net (rg 1) (rg 2) p (fst q) [t1] (?c1, d, w) = (receive L net (rg 1) [z1] ?c1, receive L net (rg 2) [t1] d, w1)"
      by (rule carry_message [OF ready wire sock limit(1) t1(3,4,1,2)])
    have there: "carry L H sock net (rg 1) (rg 2) p (fst q) [t1] (?c1, d, w) = (?c2, ?d1, w1)"
      using z1(3) ack_read [OF z1(1)] text_answered [OF t1(2) seated_ready [OF y] 3(4) t2(1) net] by simp
    obtain z2 w2 where z2: "wire_of_json L z2 = Some (Ack (env_message_id e2))" "relay_ready q p w2"
      "carry L H sock net (rg 3) (rg 4) q (fst p) [t2] (?d1, ?c2, w1) = (receive L net (rg 3) [z2] ?d1, receive L net (rg 4) [t2] ?c2, w2)"
      by (rule carry_message [OF relay_ready_sym [OF z1(2)] wire sock limit(2) t2(3,4,1,2)])
    have "receive L net (rg 4) [t2] ?c2 = ?c3"
      using text_read [OF t2(2), of ?c2 "rg 4 0"] 3(5) by (simp add: say_def is_ready_def announce_def)
    then have home: "carry L H sock net (rg 3) (rg 4) q (fst p) [t2] (?d1, ?c2, w1) = (?d2, ?c3, w2)"
      using z2(3) ack_read [OF z2(1)] by simp
    have ex: "exchange L H sock net rg p q (str ''/rekey'') (c, d, w) = (?c3, ?d2, w2)"
      by (rule exchange_eq [OF typed _ there _ home]) simp_all
    have "env_epoch e1 \<noteq> - 1" "env_epoch e2 \<noteq> - 1" using 3(6,7) calm_limits(2) [OF xs(3)] by simp_all
    note calm = handshake_calm [OF xs(3) ys(3) this 3(2,3), of nm]
    have "seated L n (snd p) (snd q) ?c3 ?x2"
      using seated_moved [OF x calm(3,1) 3(9), of ?c3 0] by (simp add: say_def)
    moreover have "seated L n (snd q) (snd p) ?d2 ?y2"
      using seated_moved [OF y calm(4,2) 3(10), of ?d2 "cs_outbound_since_rekey (cl_session d)"] by (simp add: say_def)
    ultimately have "in_touch L n (Suc ep) p q (?c3, ?d2, w2)"
      using calm(5) ep by (intro in_touchI [OF relay_ready_sym [OF z2(2)] _ _ 3(8)]) simp_all
    then show thesis by (rule that [OF ex]) (simp_all add: say_def)
  qed (use fresh in \<open>simp_all add: fresh_rngs_def\<close>)
qed

section \<open>A conversation\<close>

text \<open>What a script has typed at a seat as chat lines, and how often it commands a rekey.\<close>

definition said :: "seat \<Rightarrow> (seat \<times> ustring \<times> (nat \<Rightarrow> nat \<Rightarrow> rng)) list \<Rightarrow> ustring list" where
  "said s script = [line. (s', line, rg) \<leftarrow> script, s' = s \<and> line \<noteq> str ''/rekey'']"

definition rekeys :: "(seat \<times> ustring \<times> (nat \<Rightarrow> nat \<Rightarrow> rng)) list \<Rightarrow> nat" where
  "rekeys script = length (filter (\<lambda>(s, line, rg). line = str ''/rekey'') script)"

lemma said_simps [simp]:
  "said s [] = []"
  "said s ((s', line, rg) # script) = (if s' = s \<and> line \<noteq> str ''/rekey'' then [line] else []) @ said s script"
  by (simp_all add: said_def)

lemma rekeys_simps [simp]:
  "rekeys [] = 0" "rekeys ((s, line, rg) # script) = (if line = str ''/rekey'' then 1 else 0) + rekeys script"
  by (simp_all add: rekeys_def)

definition script_fits :: "crates \<Rightarrow> (seat \<times> ustring \<times> (nat \<Rightarrow> nat \<Rightarrow> rng)) list \<Rightarrow> bool" where
  "script_fits L = list_all (\<lambda>(s, line, rg). if line = str ''/rekey'' then fresh_rngs L rg else line_fits L line \<and> sealed_fits L (Chat line))"

lemma exchange_step:
  assumes "crypto_laws L" and "json_wire_roundtrip L" and "digest_lengths L" and "control_fits L" and "passes sock"
    and "in_touch L (Suc n) ep p q (c, d, w)"
    and "if line = str ''/rekey'' then fresh_rngs L rg else line_fits L line \<and> sealed_fits L (Chat line)"
    and "\<And>sent. net sent"
  obtains c' d' w' where "exchange L H sock net rg p q line (c, d, w) = (c', d', w')"
    and "in_touch L n (ep + (if line = str ''/rekey'' then 1 else 0)) p q (c', d', w')"
    and "shown_lines (cl_output c') = shown_lines (cl_output c)"
    and "shown_lines (cl_output d') = shown_lines (cl_output d) @ (if line = str ''/rekey'' then [] else [line])"
proof (cases "line = str ''/rekey''")
  case True
  then have "fresh_rngs L rg" using assms(7) by simp
  note rekey = exchange_rekey [where net = net and H = H, OF assms(1-3,5,6) this assms(4,8)]
  show thesis by (rule rekey) (use True that in simp)
next
  case False
  then have "line_fits L line" "sealed_fits L (Chat line)" using assms(7) by simp_all
  note line = exchange_line [where net = net and H = H and rg = rg, OF assms(1-3,5,6) this assms(8)]
  show thesis by (rule line) (use False that in simp)
qed

lemma converse_shown:
  assumes laws: "crypto_laws L" "json_wire_roundtrip L" "digest_lengths L" "control_fits L" "passes sock"
    and net: "\<And>sent. net sent" and "in_touch L (n + length script) ep p q (c, d, w)" and "script_fits L script"
    and "converse L H sock net p q script (c, d, w) = (c', d', w')"
  shows "shown_lines (cl_output d') = shown_lines (cl_output d) @ said AtFirst script \<and>
    shown_lines (cl_output c') = shown_lines (cl_output c) @ said AtSecond script \<and>
    in_touch L n (ep + rekeys script) p q (c', d', w')"
  using assms(7-9)
proof (induction script arbitrary: c d w ep)
  case (Cons item script)
  obtain s line rg where item: "item = (s, line, rg)" by (cases item) auto
  have fits: "if line = str ''/rekey'' then fresh_rngs L rg else line_fits L line \<and> sealed_fits L (Chat line)" "script_fits L script"
    using Cons.prems(2) by (simp_all add: script_fits_def item)
  let ?k = "if line = str ''/rekey'' then 1 else 0"
  show ?case
  proof (cases s)
    case AtFirst
    obtain c1 d1 w1 where e: "exchange L H sock net rg p q line (c, d, w) = (c1, d1, w1)"
      "in_touch L (n + length script) (ep + ?k) p q (c1, d1, w1)"
      "shown_lines (cl_output c1) = shown_lines (cl_output c)"
      "shown_lines (cl_output d1) = shown_lines (cl_output d) @ (if line = str ''/rekey'' then [] else [line])"
      by (rule exchange_step [where net = net and H = H, OF laws _ fits(1) net]) (use Cons.prems(1) in simp)
    show ?thesis using Cons.IH [OF e(2) fits(2)] Cons.prems(3) e by (auto simp: item AtFirst add.assoc)
  next
    case AtSecond
    obtain c1 d1 w1 where e: "exchange L H sock net rg q p line (d, c, w) = (d1, c1, w1)"
      "in_touch L (n + length script) (ep + ?k) q p (d1, c1, w1)"
      "shown_lines (cl_output d1) = shown_lines (cl_output d)"
      "shown_lines (cl_output c1) = shown_lines (cl_output c) @ (if line = str ''/rekey'' then [] else [line])"
      by (rule exchange_step [where net = net and H = H, OF laws _ fits(1) net]) (use in_touch_sym [OF Cons.prems(1)] in simp)
    show ?thesis using Cons.IH [OF in_touch_sym [OF e(2)] fits(2)] Cons.prems(3) e by (auto simp: item AtSecond add.assoc)
  qed
qed simp

end
