(* ===== verification/Chat_Schedule.thy ===== *)
theory Chat_Schedule
  imports Chat_System Server_Reorder
begin

text \<open>
  What \<open>Chat_System\<close> takes the relay to do is a run of the relay: serving a text, the end of the connection
  included, is a sequence of steps of one connection task, emptying a queue is a sequence of steps of one
  writer, and so a whole conversation is a schedule of \<open>relay_step\<close>.
\<close>

section \<open>A task on its own\<close>

text \<open>The control points between reading an event and the next wait. None of them touches the writer or the socket.\<close>

definition routing :: "task_pc \<Rightarrow> bool" where
  "routing pc \<longleftrightarrow> (case pc of
      SelectLoop _ \<Rightarrow> True | RouteEvent _ _ \<Rightarrow> True | HookAccepted _ _ \<Rightarrow> True | HookRejected _ _ _ \<Rightarrow> True
    | CollectOutboxes _ _ \<Rightarrow> True | Deliver _ _ \<Rightarrow> True | RemoveSlow _ _ _ \<Rightarrow> True | ReportError _ _ _ \<Rightarrow> True
    | Finished _ \<Rightarrow> True | _ \<Rightarrow> False)"

lemma routing_step:
  assumes "routing pc" and "task_step R H A L t (pc, sent, st) = (pc', sent', st')"
  shows "routing pc' \<and> sent' = sent"
proof (cases pc)
  case (Deliver c ds)
  then show ?thesis
    using assms by (cases ds) (auto simp: task_step_def routing_def split: list.splits prod.splits if_splits)
qed (use assms in \<open>auto simp: task_step_def routing_def Let_def split: prod.splits result.splits if_splits\<close>)

lemma routing_run:
  assumes "relay_reach R H A L w0 ops w" and "routing (rl_task w t)"
    and "(task_step R H A L t ^^ n) (rl_task w t, rl_sent w t, rl_state w) = (pc, sent, st)"
  shows "\<exists>ops'. relay_reach R H A L w0 ops' (w\<lparr>rl_state := st, rl_task := (rl_task w)(t := pc)\<rparr>)"
  using assms
proof (induction n arbitrary: ops w)
  case 0
  then show ?case by (auto simp: fun_upd_idem)
next
  case (Suc n)
  obtain pc1 sent1 st1 where s: "task_step R H A L t (rl_task w t, rl_sent w t, rl_state w) = (pc1, sent1, st1)"
    by (metis prod_cases3)
  have r: "routing pc1" "sent1 = rl_sent w t" using routing_step [OF Suc.prems(2) s] by simp_all
  let ?w = "w\<lparr>rl_state := st1, rl_task := (rl_task w)(t := pc1)\<rparr>"
  have "run_task R H A L t w = ?w"
    using Suc.prems(2) r(2) by (simp add: run_task_def s writer_after_def routing_def fun_upd_idem split: task_pc.splits)
  then have reach: "relay_reach R H A L w0 (route_calls (rl_task w t) @ ops) ?w"
    using relay_reach.reach_step [OF Suc.prems(1) relay_step.internal [of R H A L w t]] by simp
  have "routing (rl_task ?w t)" using r(1) by simp
  moreover have "(task_step R H A L t ^^ n) (rl_task ?w t, rl_sent ?w t, rl_state ?w) = (pc, sent, st)"
    using Suc.prems(3) s r(2) by (simp add: funpow_swap1)
  ultimately obtain ops' where "relay_reach R H A L w0 ops' (?w\<lparr>rl_state := st, rl_task := (rl_task ?w)(t := pc)\<rparr>)"
    using Suc.IH [OF reach] by blast
  moreover have "?w\<lparr>rl_state := st, rl_task := (rl_task ?w)(t := pc)\<rparr> = w\<lparr>rl_state := st, rl_task := (rl_task w)(t := pc)\<rparr>"
    by (simp add: fun_upd_upd)
  ultimately show ?case by (simp only:) blast
qed

text \<open>A routed event, run alone: what \<open>serve_text\<close> says of it.\<close>

lemma event_solo:
  assumes "route_and_flush in_memory_message_router H c e st = (r, st')"
  shows "solo in_memory_message_router H A L t (RouteEvent c e, sent, st) (SelectLoop c, sent, case r of
      Err error \<Rightarrow> if should_report_routing_error e error then snd (try_send t (routing_error_event error) st') else st'
    | _ \<Rightarrow> st')"
proof (cases r)
  case (Err err)
  have "solo in_memory_message_router H A L t (ReportError c e err, sent, st')
      (SelectLoop c, sent, snd (try_send t (routing_error_event err) st'))"
    by (rule solo_one) (simp add: task_step_def)
  then show ?thesis
    using solo_route_and_flush [OF assms, of A L t sent] solo_trans [OF solo_route_and_flush [OF assms, of A L t sent]]
    by (cases "should_report_routing_error e err") (simp_all add: Err after_route_def)
next
  case Panic
  have "fst (route_and_flush in_memory_message_router H c e st) \<noteq> Panic"
    by (cases e) (auto simp: route_and_flush_def in_memory_message_router_def in_memory_route_def Let_def
        split: option.splits prod.splits result.splits if_splits)
  then show ?thesis using Panic assms by simp
qed (use solo_route_and_flush [OF assms, of A L t sent] in \<open>simp add: after_route_def\<close>)

section \<open>Serving and sending as runs of the relay\<close>

lemma event_run:
  assumes "relay_reach in_memory_message_router H A L w0 ops w" and "rl_task w t = RouteEvent c e"
    and "route_and_flush in_memory_message_router H c e (rl_state w) = (r, st')"
  shows "\<exists>ops'. relay_reach in_memory_message_router H A L w0 ops' (w\<lparr>rl_state := (case r of
      Err error \<Rightarrow> if should_report_routing_error e error then snd (try_send t (routing_error_event error) st') else st'
    | _ \<Rightarrow> st'), rl_task := (rl_task w)(t := SelectLoop c)\<rparr>)"
proof -
  have "routing (rl_task w t)" using assms(2) by (simp add: routing_def)
  moreover note event_solo [OF assms(3), of A L t "rl_sent w t", folded assms(2), unfolded solo_def]
  ultimately show ?thesis using routing_run [OF assms(1)] by blast
qed

lemma run_task_reach:
  assumes "relay_reach R H A L w0 ops w"
  shows "\<exists>ops'. relay_reach R H A L w0 ops' ((run_task R H A L t ^^ n) w)"
proof (induction n)
  case (Suc n)
  then show ?case using relay_reach.reach_step [OF _ relay_step.internal] by fastforce
qed (use assms in auto)

text \<open>The end of a task, step by step.\<close>

lemma disconnect_steps:
  "\<exists>n. (run_task in_memory_message_router H A L t ^^ n) (goto t (RemoveConnection c) w) = disconnect_task H t c w"
proof -
  obtain r router where r: "mr_disconnect in_memory_message_router c (ss_router (rl_state w)) = (r, router)" by fastforce
  note steps = run_task_def task_step_def writer_after_def goto_def disconnect_task_def unregister_client_def r Let_def
  show ?thesis
  proof (cases "is_ok r")
    case True
    then have "(run_task in_memory_message_router H A L t ^^ 4) (goto t (RemoveConnection c) w) = disconnect_task H t c w"
      by (simp add: numeral_eq_Suc steps)
    then show ?thesis by blast
  next
    case False
    then have "(run_task in_memory_message_router H A L t ^^ 3) (goto t (RemoveConnection c) w) = disconnect_task H t c w"
      by (simp add: numeral_eq_Suc steps)
    then show ?thesis by blast
  qed
qed

lemma serve_run:
  assumes "relay_reach in_memory_message_router H A L w0 ops w"
  shows "\<exists>ops'. relay_reach in_memory_message_router H A L w0 ops' (serve_text L H sock t x w)"
proof (cases "rl_task w t")
  case (SelectLoop c)
  let ?w = "goto t (select_next L c (sock x)) w"
  have reach: "relay_reach in_memory_message_router H A L w0 ops ?w"
    using relay_reach.reach_step [OF assms relay_step.input [OF SelectLoop]] by simp
  show ?thesis
  proof (cases "loop_frame L (sock x)")
    case (FrameEvent e)
    obtain r st' where r: "route_and_flush in_memory_message_router H c e (rl_state w) = (r, st')" by fastforce
    have "?w\<lparr>rl_state := s, rl_task := (rl_task ?w)(t := SelectLoop c)\<rparr> = w\<lparr>rl_state := s\<rparr>" for s
      using SelectLoop by (simp add: goto_def fun_upd_idem)
    then show ?thesis
      using event_run [OF reach, of t c e r st'] r
      by (simp add: serve_text_def SelectLoop FrameEvent select_next_def goto_def split: result.split)
  next
    case FrameBreak
    obtain n where "(run_task in_memory_message_router H A L t ^^ n) ?w = disconnect_task H t c w"
      using disconnect_steps [of H A L t c w] FrameBreak by (auto simp: select_next_def)
    then show ?thesis
      using run_task_reach [OF reach, where t = t and n = n] by (simp add: serve_text_def SelectLoop FrameBreak)
  qed (use assms in \<open>auto simp: serve_text_def SelectLoop\<close>)
qed (use assms in \<open>auto simp: serve_text_def\<close>)

lemma serve_all_run:
  assumes "relay_reach in_memory_message_router H A L w0 ops w"
  shows "\<exists>ops'. relay_reach in_memory_message_router H A L w0 ops' (fold (serve_text L H sock t) xs w)"
  using assms
proof (induction xs arbitrary: ops w)
  case (Cons x xs)
  obtain ops1 where "relay_reach in_memory_message_router H A L w0 ops1 (serve_text L H sock t x w)"
    using serve_run [OF Cons.prems] by blast
  from Cons.IH [OF this] show ?case by simp
qed auto

lemma take_run_running:
  assumes "relay_reach R H A L w0 ops w" and "rl_writer w t = WriterRecv"
  shows "relay_reach R H A L w0 ops (snd (take_queue L t w))"
  using assms
proof (induction "queue t (rl_state w)" arbitrary: w)
  case Nil
  then show ?case by (simp add: take_queue_def Let_def queue_def fun_upd_idem)
next
  case (Cons e es)
  let ?st = "(rl_state w)\<lparr>ss_channels := (ss_channels (rl_state w))(t := (ss_channels (rl_state w) t)\<lparr>ch_events := es\<rparr>)\<rparr>"
  have q: "ch_events (ss_channels (rl_state w) t) = e # es" using Cons(2) by (simp add: queue_def)
  have recv: "relay_reach R H A L w0 ops (writer_recv L t w)"
    using relay_reach.reach_step [OF Cons(3) relay_step.recv [OF Cons(4)]] by simp
  show ?case
  proof (cases "json_of_wire L e")
    case None
    have w1: "writer_recv L t w = w\<lparr>rl_state := ?st\<rparr>"
      using Cons(4) by (simp add: writer_recv_def q None Let_def fun_upd_idem)
    show ?thesis
      using Cons(1) [of "w\<lparr>rl_state := ?st\<rparr>"] recv Cons(4) unfolding w1
      by (simp add: take_queue_def Let_def queue_def q None map_filter_simps)
  next
    case (Some x)
    let ?w = "w\<lparr>rl_state := ?st, rl_sent := (rl_sent w)(t := rl_sent w t @ [x])\<rparr>"
    have w1: "rl_writer (writer_recv L t w) t = WriterSend x" "writer_send t x (writer_recv L t w) = ?w"
      using Cons(4) by (simp_all add: writer_recv_def writer_send_def q Some Let_def fun_upd_idem)
    have "relay_reach R H A L w0 ops ?w"
      using relay_reach.reach_step [OF recv relay_step.send [OF w1(1)]] unfolding w1(2) by simp
    then show ?thesis
      using Cons(1) [of ?w] Cons(4) by (simp add: take_queue_def Let_def queue_def q Some map_filter_simps)
  qed
qed

lemma take_run: "relay_reach R H A L w0 ops w \<Longrightarrow> relay_reach R H A L w0 ops (snd (take_queue L t w))"
  using take_run_running [of R H A L w0 ops w t] by (cases "rl_writer w t = WriterRecv") (auto simp: take_queue_def)

text \<open>So the relay states along a conversation are states the relay reaches.\<close>

lemma carry_run:
  assumes "relay_reach in_memory_message_router H A L w0 ops w"
    and "carry L H sock net rgc rgd p h xs (c, d, w) = (c', d', w')"
  shows "\<exists>ops'. relay_reach in_memory_message_router H A L w0 ops' w'"
proof -
  obtain ops' where "relay_reach in_memory_message_router H A L w0 ops' (fold (serve_text L H sock (fst p)) xs w)"
    using serve_all_run [OF assms(1)] by blast
  from take_run [OF take_run [OF this]] show ?thesis
    using assms(2) by (auto simp: carry_def case_prod_beta Let_def)
qed

lemma exchange_run:
  assumes "relay_reach in_memory_message_router H A L w0 ops w"
    and "exchange L H sock net rg p q line (c, d, w) = (c', d', w')"
  shows "\<exists>ops'. relay_reach in_memory_message_router H A L w0 ops' w'"
proof -
  let ?c1 = "snd (cli_step L net (rg 0 0) (Line (Some (Some line))) c)"
  obtain c2 d1 w1 where there: "carry L H sock net (rg 1) (rg 2) p (fst q) (drop (length (cl_sent c)) (cl_sent ?c1))
      (?c1, d, w) = (c2, d1, w1)" by (metis prod_cases3)
  obtain ops1 where "relay_reach in_memory_message_router H A L w0 ops1 w1" using carry_run [OF assms(1) there] by blast
  moreover have "carry L H sock net (rg 3) (rg 4) q (fst p) (drop (length (cl_sent d)) (cl_sent d1)) (d1, c2, w1) = (d', c', w')"
    using assms(2) there by (auto simp: exchange_def split: prod.splits)
  ultimately show ?thesis by (rule carry_run)
qed

lemma converse_run:
  assumes "relay_reach in_memory_message_router H A L w0 ops w"
    and "converse L H sock net p q script (c, d, w) = (c', d', w')"
  shows "\<exists>ops'. relay_reach in_memory_message_router H A L w0 ops' w'"
  using assms
proof (induction script arbitrary: ops w c d)
  case (Cons item script)
  obtain s line rg where item: "item = (s, line, rg)" by (cases item) auto
  show ?case
  proof (cases s)
    case AtFirst
    obtain c1 d1 w1 where e: "exchange L H sock net rg p q line (c, d, w) = (c1, d1, w1)" by (metis prod_cases3)
    obtain ops1 where "relay_reach in_memory_message_router H A L w0 ops1 w1" using exchange_run [OF Cons.prems(1) e] by blast
    then show ?thesis using Cons.IH Cons.prems(2) e by (simp add: item AtFirst)
  next
    case AtSecond
    obtain c1 d1 w1 where e: "exchange L H sock net rg q p line (d, c, w) = (d1, c1, w1)" by (metis prod_cases3)
    obtain ops1 where "relay_reach in_memory_message_router H A L w0 ops1 w1" using exchange_run [OF Cons.prems(1) e] by blast
    then show ?thesis using Cons.IH Cons.prems(2) e by (simp add: item AtSecond)
  qed
qed auto

end
