(* ===== verification/Chat_Start.thy ===== *)
theory Chat_Start
  imports Chat_Schedule Network
begin

text \<open>
  Starting up: the first client connects and offers its key before anybody is there to take it; the
  second connects and offers its own, which the first answers and the second answers once more. After
  that the two clients and the relay are in the state in which a conversation can go on.
\<close>

section \<open>A key through the relay\<close>

lemma carry_key:
  assumes ready: "relay_ready p q w" and sock: "passes sock" "within_limit x"
    and x: "json_of_wire L (PeerKey (snd p) (snd q) k) = Some x" "wire_of_json L x = Some (PeerKey (snd p) (snd q) k)"
  obtains w' where "relay_ready p q w'"
    and "carry L H sock net rgc rgd p (fst q) [x] (c, d, w) = (c, receive L net rgd [x] d, w')"
proof -
  let ?e = "PeerKey (snd p) (snd q) k" and ?st = "rl_state w"
  obtain r st1 where r: "route_and_flush in_memory_message_router H (snd p) ?e ?st = (r, st1)" by fastforce
  have ok: "route_outcome (snd p) ?e (imr_clients (ss_router ?st)) = Ok (snd q)"
    using ready by (simp add: route_outcome_Ok_iff relay_ready_def Let_def)
  have room: "has_room (fst q) (length (imr_pending (ss_router ?st) (snd q)) + 1) ?st"
    using ready by (simp add: has_room_def relay_ready_def queue_def OUTBOX_CAPACITY_def Let_def)
  have conn: "ss_connections ?st (snd q) = Some (fst q)" using ready by (simp add: relay_ready_def Let_def)
  note d = imr.route_key_delivers [OF ok conn room r]
  let ?w1 = "w\<lparr>rl_state := st1\<rparr>"
  let ?w = "snd (take_queue L (fst p) (snd (take_queue L (fst q) ?w1)))"
  have "serve_text L H sock (fst p) x w = ?w1"
    by (rule serve_event [OF sock x(2)]) (use ready r d in \<open>simp_all add: relay_ready_def resting_def Let_def\<close>)
  moreover have "queue (fst q) st1 = [?e]" "queue (fst p) st1 = []" using d ready by (auto simp: relay_ready_def Let_def)
  ultimately have "carry L H sock net rgc rgd p (fst q) [x] (c, d, w) = (c, receive L net rgd [x] d, ?w)"
    using carry_served [of L H sock p x w ?w1 q] ready x(1)
    by (simp add: relay_ready_def resting_def map_filter_simps Let_def)
  moreover have "relay_ready p q ?w" using ready d by (auto simp: relay_ready_def resting_def Let_def)
  ultimately show thesis using that by blast
qed

section \<open>A client that meets its peer\<close>

text \<open>Fresh from \<open>run_start\<close>, with secret \<open>sk\<close>, to talk as \<open>i\<close> to \<open>j\<close> and rekey only on command.\<close>

definition newcomer :: "crates \<Rightarrow> bytes \<Rightarrow> client_id \<Rightarrow> client_id \<Rightarrow> cli \<Rightarrow> bool" where
  "newcomer L sk i j c \<longleftrightarrow>
     cs_local_id (cl_session c) = i \<and> cs_peer_id (cl_session c) = j \<and> valid_client_id i \<and> valid_client_id j \<and>
     cs_keypair (cl_session c) = key_pair_generate L sk \<and> cs_peer_public_key (cl_session c) = None \<and>
     cs_crypto_session (cl_session c) = None \<and> cs_auto_rekey_after (cl_session c) = None"

definition public_of :: "crates \<Rightarrow> bytes \<Rightarrow> public_key_bytes" where
  "public_of L sk = PublicKeyBytes (x25519_public L sk)"

text \<open>The session it opens with the key of the other side.\<close>

definition opened_session :: "crates \<Rightarrow> bytes \<Rightarrow> bytes \<Rightarrow> client_id \<Rightarrow> client_id \<Rightarrow> crypto_session" where
  "opened_session L sk sk' i j = crypto_session_new L (key_pair_generate L sk) (public_of L sk') i j"

definition met :: "crates \<Rightarrow> bytes \<Rightarrow> bytes \<Rightarrow> client_id \<Rightarrow> client_id \<Rightarrow> cli \<Rightarrow> bool" where
  "met L sk sk' i j c \<longleftrightarrow>
     cs_local_id (cl_session c) = i \<and> cs_peer_id (cl_session c) = j \<and>
     cs_keypair (cl_session c) = key_pair_generate L sk \<and> cs_peer_public_key (cl_session c) = Some (public_of L sk') \<and>
     cs_crypto_session (cl_session c) = Some (opened_session L sk sk' i j) \<and> cs_auto_rekey_after (cl_session c) = None \<and>
     pin_accepts L (cl_session c) (public_of L sk')"

lemma newcomer_key_event: "newcomer L sk i j c \<Longrightarrow> peer_key_event (cl_session c) = PeerKey i j (public_of L sk)"
  by (simp add: newcomer_def peer_key_event_def key_pair_generate_def key_pair_public_key_def public_of_def)

lemma key_read_first:
  assumes "newcomer L sk i j c" and "pin_accepts L (cl_session c) (public_of L sk')"
    and "wire_of_json L x = Some (PeerKey j i (public_of L sk'))"
    and "json_of_wire L (PeerKey i j (public_of L sk)) = Some y" and "\<And>sent. net sent"
  shows "\<exists>c'. receive L net rg [x] c = c' \<and> met L sk sk' i j c' \<and> cl_sent c' = cl_sent c @ [y] \<and>
    shown_lines (cl_output c') = shown_lines (cl_output c)"
proof -
  let ?s = "(cl_session c)\<lparr>cs_peer_public_key := Some (public_of L sk'),
    cs_crypto_session := Some (opened_session L sk sk' i j)\<rparr>"
  have h: "handle_event L (rg 0) (PeerKey j i (public_of L sk')) (cl_session c) = (Ok inbound_outcome_default, ?s)"
    using peer_key_opens [OF _ assms(2), of "rg 0"] assms(1) by (simp add: newcomer_def opened_session_def)
  have r: "\<not> is_ready (cl_session c)" "is_ready ?s" using assms(1) by (simp_all add: newcomer_def is_ready_def)
  have e: "peer_key_event ?s = PeerKey i j (public_of L sk)"
    using newcomer_key_event [OF assms(1)] by (simp add: peer_key_event_def)
  let ?c = "show_fingerprint L False (c\<lparr>cl_session := ?s\<rparr>)"
  have c: "cl_session ?c = ?s" "cl_sent ?c = cl_sent c" "shown_lines (cl_output ?c) = shown_lines (cl_output c)"
    by (simp_all add: show_fingerprint_def say_def split: option.split)
  have "receive L net rg [x] c = ?c\<lparr>cl_sent := cl_sent c @ [y]\<rparr>"
    using assms(3-5) h r e c
    by (simp add: cli_step_def on_text_def with_session_def announce_def inbound_outcome_default_def control_status_def
        needs_peer_key_reply_def send_event_def)
  moreover have "met L sk sk' i j (?c\<lparr>cl_sent := cl_sent c @ [y]\<rparr>)"
    using assms(1,2) c(1) by (simp add: met_def newcomer_def pin_accepts_def)
  ultimately show ?thesis using c(3) by auto
qed

lemma key_read_again:
  assumes "met L sk sk' i j c" and "wire_of_json L x = Some (PeerKey j i (public_of L sk'))"
  shows "receive L net rg [x] c = c"
  using assms
  by (simp add: cli_step_def on_text_def with_session_def announce_def inbound_outcome_default_def control_status_def
      needs_peer_key_reply_def handle_event_def met_def is_ready_def show_fingerprint_def)

lemma met_seated:
  assumes "met L sk sk' i j c" and "valid_client_id i" and "valid_client_id j" and "n < 2 ^ 32 - 1"
  shows "seated L n i j c (opened_session L sk sk' i j)"
proof -
  have "calm n n (opened_session L sk sk' i j)"
    using assms(2-4) by (simp add: calm_def opened_session_def crypto_session_new_def valid_ids_def)
  then show ?thesis
    using assms(1)
    by (simp add: seated_def met_def client_inv_def pin_accepts_def opened_session_def crypto_session_new_def is_rekey_in_progress_def)
qed

section \<open>The two meet\<close>

text \<open>
  The second client's key travels to the first, the first one's answer to the second, and the second one's
  answer to that back to the first.
\<close>

definition meet ::
  "crates \<Rightarrow> 'h event_hook \<Rightarrow> (ustring \<Rightarrow> ws_input) \<Rightarrow> (ustring list \<Rightarrow> bool) \<Rightarrow> (nat \<Rightarrow> nat \<Rightarrow> rng)
    \<Rightarrow> client_handle \<times> client_id \<Rightarrow> client_handle \<times> client_id
    \<Rightarrow> cli \<times> cli \<times> (in_memory_router, 'h, 'a) relay \<Rightarrow> cli \<times> cli \<times> (in_memory_router, 'h, 'a) relay" where
  "meet L H sock net rg p q sys =
     (let (c, d, w) = sys;
          (d1, c1, w1) = carry L H sock net (rg 0) (rg 1) q (fst p) [last (cl_sent d)] (d, c, w);
          (c2, d2, w2) = carry L H sock net (rg 2) (rg 3) p (fst q) (drop (length (cl_sent c)) (cl_sent c1)) (c1, d1, w1);
          (d3, c3, w3) = carry L H sock net (rg 4) (rg 5) q (fst p) (drop (length (cl_sent d)) (cl_sent d2)) (d2, c2, w2)
      in (c3, d3, w3))"

text \<open>The text of the key a client offers.\<close>

definition key_text :: "crates \<Rightarrow> bytes \<Rightarrow> client_id \<Rightarrow> client_id \<Rightarrow> ustring \<Rightarrow> bool" where
  "key_text L sk i j x \<longleftrightarrow>
     json_of_wire L (PeerKey i j (public_of L sk)) = Some x \<and> wire_of_json L x = Some (PeerKey i j (public_of L sk)) \<and>
     within_limit x"

lemma meet_opens:
  assumes ready: "relay_ready p q w" and c: "newcomer L ska (snd p) (snd q) c" and d: "newcomer L skb (snd q) (snd p) d"
    and pins: "pin_accepts L (cl_session c) (public_of L skb)" "pin_accepts L (cl_session d) (public_of L ska)"
    and xa: "key_text L ska (snd p) (snd q) xa" and xb: "key_text L skb (snd q) (snd p) xb"
    and sock: "passes sock" and offer: "last (cl_sent d) = xb" and net: "\<And>sent. net sent"
  obtains c' d' w' where "meet L H sock net rg p q (c, d, w) = (c', d', w')" and "relay_ready p q w'"
    and "met L ska skb (snd p) (snd q) c'" and "met L skb ska (snd q) (snd p) d'"
    and "shown_lines (cl_output c') = shown_lines (cl_output c)"
    and "shown_lines (cl_output d') = shown_lines (cl_output d)"
proof -
  have a: "json_of_wire L (PeerKey (snd p) (snd q) (public_of L ska)) = Some xa"
    "wire_of_json L xa = Some (PeerKey (snd p) (snd q) (public_of L ska))"
    and b: "json_of_wire L (PeerKey (snd q) (snd p) (public_of L skb)) = Some xb"
    "wire_of_json L xb = Some (PeerKey (snd q) (snd p) (public_of L skb))"
    and limit: "within_limit xa" "within_limit xb"
    using xa xb by (simp_all add: key_text_def)
  obtain c1 where c1: "receive L net (rg 1) [xb] c = c1" "met L ska skb (snd p) (snd q) c1"
    "cl_sent c1 = cl_sent c @ [xa]" "shown_lines (cl_output c1) = shown_lines (cl_output c)"
    using key_read_first [where net = net and rg = "rg 1", OF c pins(1) b(2) a(1) net] by blast
  obtain d1 where d1: "receive L net (rg 3) [xa] d = d1" "met L skb ska (snd q) (snd p) d1"
    "cl_sent d1 = cl_sent d @ [xb]" "shown_lines (cl_output d1) = shown_lines (cl_output d)"
    using key_read_first [where net = net and rg = "rg 3", OF d pins(2) a(2) b(1) net] by blast
  obtain w1 where w1: "relay_ready q p w1"
    "carry L H sock net (rg 0) (rg 1) q (fst p) [xb] (d, c, w) = (d, receive L net (rg 1) [xb] c, w1)"
    by (rule carry_key [OF relay_ready_sym [OF ready] sock limit(2) b])
  obtain w2 where w2: "relay_ready p q w2"
    "carry L H sock net (rg 2) (rg 3) p (fst q) [xa] (c1, d, w1) = (c1, receive L net (rg 3) [xa] d, w2)"
    by (rule carry_key [OF relay_ready_sym [OF w1(1)] sock limit(1) a])
  obtain w3 where w3: "relay_ready q p w3"
    "carry L H sock net (rg 4) (rg 5) q (fst p) [xb] (d1, c1, w2) = (d1, receive L net (rg 5) [xb] c1, w3)"
    by (rule carry_key [OF relay_ready_sym [OF w2(1)] sock limit(2) b])
  have "receive L net (rg 5) [xb] c1 = c1" by (rule key_read_again [OF c1(2) b(2)])
  then have "meet L H sock net rg p q (c, d, w) = (c1, d1, w3)"
    using w1(2) w2(2) w3(2) c1(1,3) d1(1,3) offer by (simp add: meet_def del: receive_simps)
  then show thesis by (rule that [OF _ relay_ready_sym [OF w3(1)] c1(2) d1(2) c1(4) d1(4)])
qed

lemma met_in_touch:
  assumes "x25519_agrees L" and "relay_ready p q w" and "met L ska skb (snd p) (snd q) c" and "met L skb ska (snd q) (snd p) d"
    and "valid_client_id (snd p)" and "valid_client_id (snd q)" and "n < 2 ^ 32 - 1"
  shows "in_touch L n 0 p q (c, d, w)"
proof (rule in_touchI [OF assms(2) met_seated [OF assms(3,5-7)] met_seated [OF assms(4,6,5,7)]])
  show "in_sync (opened_session L ska skb (snd p) (snd q)) (opened_session L skb ska (snd q) (snd p))"
    using in_sync_new [OF assms(1), of ska skb "snd p" "snd q"]
    by (simp add: opened_session_def public_of_def key_pair_generate_def key_pair_public_key_def)
qed (simp add: opened_session_def crypto_session_new_def)

lemma meet_run:
  assumes "relay_reach in_memory_message_router H A L w0 ops w" and "meet L H sock net rg p q (c, d, w) = (c', d', w')"
  shows "\<exists>ops'. relay_reach in_memory_message_router H A L w0 ops' w'"
proof -
  obtain d1 c1 w1 where m1: "carry L H sock net (rg 0) (rg 1) q (fst p) [last (cl_sent d)] (d, c, w) = (d1, c1, w1)"
    by (metis prod_cases3)
  obtain ops1 where w1: "relay_reach in_memory_message_router H A L w0 ops1 w1" using carry_run [OF assms(1) m1] by blast
  obtain c2 d2 w2 where m2: "carry L H sock net (rg 2) (rg 3) p (fst q) (drop (length (cl_sent c)) (cl_sent c1))
      (c1, d1, w1) = (c2, d2, w2)"
    by (metis prod_cases3)
  obtain ops2 where w2: "relay_reach in_memory_message_router H A L w0 ops2 w2" using carry_run [OF w1 m2] by blast
  have "carry L H sock net (rg 4) (rg 5) q (fst p) (drop (length (cl_sent d)) (cl_sent d2)) (d2, c2, w2) = (d', c', w')"
    using assms(2) m1 m2 by (auto simp: meet_def split: prod.splits)
  from carry_run [OF w2 this] show ?thesis .
qed

section \<open>Arriving at the relay\<close>

text \<open>
  The first client connects and its key is served while its peer is not there; then the second connects.
\<close>

definition arrive :: "crates \<Rightarrow> (ustring \<Rightarrow> ws_input) \<Rightarrow> cli \<Rightarrow> cli \<Rightarrow> (router_op list \<times> (in_memory_router, unit, unit) relay) option" where
  "arrive L sock a b = sched L
     (enters 0 (sock (hd (cl_sent a))) @
      [ActFrame 0 (sock (last (cl_sent a))), ActTask 0, ActTask 0] @
      enters 1 (sock (hd (cl_sent b)))) ([], default_relay)"

lemma run_rejected:
  "rl_task w t = RouteEvent c (PeerKey c d k) \<Longrightarrow> outboxes (ss_router (rl_state w)) c \<noteq> None \<Longrightarrow>
      outboxes (ss_router (rl_state w)) d = None \<Longrightarrow>
      run L t w = moved t (HookRejected c (PeerKey c d k) UnknownRecipient) (rl_state w) w"
  "rl_task w t = HookRejected c (PeerKey c d k) UnknownRecipient \<Longrightarrow> run L t w = moved t (SelectLoop c) (rl_state w) w"
  by (auto simp: run_task_def task_step_def noop_event_hook_def in_memory_message_router_def in_memory_route_def
      writer_after_def moved_def after_route_def)

lemma key_to_nobody:
  assumes "rl_task w t = SelectLoop c" and "wire_of_json L x = Some (PeerKey c d k)"
    and "outboxes (ss_router (rl_state w)) c \<noteq> None" and "outboxes (ss_router (rl_state w)) d = None"
  shows "sched L [ActFrame t (TextFrame x), ActTask t, ActTask t] (ops, w) = Some (OpRoute c (PeerKey c d k) # ops, w)"
proof -
  have "moved t (SelectLoop c) (rl_state w) w = w" using assms(1) by (simp add: moved_def fun_upd_idem)
  then show ?thesis
    using assms by (simp add: relay_act_def select_next_def loop_frame_def run_rejected del: run_task_frame)
qed

lemma arrive_ready:
  assumes "i \<noteq> j" and "cl_sent a = [ha, xa]" and "hello_frame L (sock ha) = HelloFrom i" and "sock xa = TextFrame xa"
    and "wire_of_json L xa = Some (PeerKey i j k)" and "cl_sent b = [hb, xb]" and "hello_frame L (sock hb) = HelloFrom j"
  obtains ops w where "arrive L sock a b = Some (ops, w)" and "relay_ready (0, i) (1, j) w"
    and "relay_reach in_memory_message_router noop_event_hook noop_auth_provider L default_relay ops w"
proof -
  note defs = default_relay_def ws_server_run_def ws_server_new_def in_memory_router_default_def
    server_state_new_def relay_new_def joined_def
  let ?w1 = "joined 0 i default_relay"
  let ?w2 = "joined 1 j ?w1"
  have 1: "sched L (enters 0 (sock ha)) ([], default_relay) = Some ([], ?w1)"
    by (rule enters_run [OF assms(3)]) (simp_all add: defs)
  have 2: "sched L [ActFrame 0 (TextFrame xa), ActTask 0, ActTask 0] ([], ?w1) = Some ([OpRoute i (PeerKey i j k)], ?w1)"
    by (rule key_to_nobody [OF _ assms(5)]) (use assms(1) in \<open>simp_all add: defs\<close>)
  have 3: "sched L (enters 1 (sock hb)) (ops, ?w1) = Some (ops, ?w2)" for ops
    by (rule enters_run [OF assms(7)]) (use assms(1) in \<open>simp_all add: defs\<close>)
  have arr: "arrive L sock a b = Some ([OpRoute i (PeerKey i j k)], ?w2)"
    unfolding arrive_def relay_sched_append using assms(2,4,6) 1 2 3 by (simp del: relay_sched.simps(2))
  moreover have "relay_ready (0, i) (1, j) ?w2"
    using assms(1) by (auto simp: Let_def relay_ready_def resting_def defs queue_def channel_new_def imr_clients_def imr_pending_def)
  ultimately show thesis
    using that relay_sched_reach [OF arr [unfolded arrive_def] relay_reach.reach_start] by blast
qed

section \<open>From the command line\<close>

definition pin_fits :: "crates \<Rightarrow> args \<Rightarrow> public_key_bytes \<Rightarrow> bool" where
  "pin_fits L args pk \<longleftrightarrow> (case ar_verify_fingerprint args of
      None \<Rightarrow> True | Some raw \<Rightarrow> normalize_fingerprint L raw = Some (fingerprint L pk))"

lemma run_start_newcomer:
  assumes "run_start L reachable net sk args = Ok c" and "ar_rekey_after args = None"
  shows "newcomer L sk (ClientId (ar_id args)) (ClientId (ar_peer args)) c"
    and "\<exists>hello key. cl_sent c = [hello, key] \<and>
      json_of_wire L (ClientHello (ClientId (ar_id args)) (public_of L sk)) = Some hello \<and>
      json_of_wire L (PeerKey (ClientId (ar_id args)) (ClientId (ar_peer args)) (public_of L sk)) = Some key"
    and "pin_fits L args pk \<Longrightarrow> lowers L \<Longrightarrow> pin_accepts L (cl_session c) pk"
proof -
  let ?i = "ClientId (ar_id args)" and ?j = "ClientId (ar_peer args)"
  have ids: "client_id_parse (ar_id args) = Ok ?i" "client_id_parse (ar_peer args) = Ok ?j"
    using assms(1) by (auto simp: run_start_def client_id_parse_Ok_iff split: result.splits)
  have "cs_auto_rekey_after (cl_session c) = None \<and> cs_local_id (cl_session c) = ?i \<and> cs_peer_id (cl_session c) = ?j \<and>
     (\<exists>hello key. cl_sent c = [hello, key] \<and> json_of_wire L (ClientHello ?i (public_of L sk)) = Some hello \<and>
        json_of_wire L (PeerKey ?i ?j (public_of L sk)) = Some key)"
    using assms
    by (auto simp: run_start_def ids Let_def client_session_new_def client_hello_def peer_key_event_def public_of_def
        key_pair_generate_def key_pair_public_key_def
        expect_peer_fingerprint_def send_event_def and_then_eq_Ok_iff
        split: option.splits if_splits prod.splits result.splits)
  then show "newcomer L sk ?i ?j c" "\<exists>hello key. cl_sent c = [hello, key] \<and>
      json_of_wire L (ClientHello ?i (public_of L sk)) = Some hello \<and> json_of_wire L (PeerKey ?i ?j (public_of L sk)) = Some key"
    using run_start_fresh [OF assms(1)] run_start_ids(3) [OF assms(1)] by (auto simp: newcomer_def)
  show "pin_accepts L (cl_session c) pk" if "pin_fits L args pk" "lowers L"
    using run_start_inv [OF that(2) assms(1)] that(1)
    by (auto simp: pin_accepts_def pin_fits_def cli_inv_def split: option.splits)
qed

text \<open>Arrival, key exchange and a script of typed lines, as one function of two started clients.\<close>

definition chat ::
  "crates \<Rightarrow> (ustring \<Rightarrow> ws_input) \<Rightarrow> (ustring list \<Rightarrow> bool) \<Rightarrow> (nat \<Rightarrow> nat \<Rightarrow> rng) \<Rightarrow> (seat \<times> ustring \<times> (nat \<Rightarrow> nat \<Rightarrow> rng)) list \<Rightarrow> cli \<Rightarrow> cli
    \<Rightarrow> (cli \<times> cli \<times> (in_memory_router, unit, unit) relay) option" where
  "chat L sock net rg script a b =
     (let p = (0, cs_local_id (cl_session a)); q = (1, cs_local_id (cl_session b)) in
      case arrive L sock a b of
        None \<Rightarrow> None
      | Some (ops, w) \<Rightarrow>
          Some (converse L noop_event_hook sock net p q script (meet L noop_event_hook sock net rg p q (a, b, w))))"

lemma started:
  assumes "json_wire_roundtrip L" and "control_fits L" and "passes sock"
    and run: "run_start L reachable net sk args = Ok c" "ar_rekey_after args = None"
    and key: "wf_public_key (public_of L sk)" and "ar_id args = s" and "ar_peer args = s'"
  obtains hello key where "newcomer L sk (ClientId s) (ClientId s') c" and "cl_sent c = [hello, key]"
    and "hello_frame L (sock hello) = HelloFrom (ClientId s)" and "key_text L sk (ClientId s) (ClientId s') key"
    and "sock key = TextFrame key"
proof -
  note new = run_start_newcomer(1,2) [OF run, unfolded assms(7,8)]
  have valid: "valid_client_id (ClientId s)" "valid_client_id (ClientId s')" using new(1) by (simp_all add: newcomer_def)
  obtain hello key where sent: "cl_sent c = [hello, key]"
    "json_of_wire L (ClientHello (ClientId s) (public_of L sk)) = Some hello"
    "json_of_wire L (PeerKey (ClientId s) (ClientId s') (public_of L sk)) = Some key"
    using new(2) by blast
  have decode: "wire_of_json L t = Some e" if "wf_wire_event e" "json_of_wire L e = Some t" for e t
    using assms(1) that unfolding json_wire_roundtrip_def by fastforce
  have d: "wire_of_json L hello = Some (ClientHello (ClientId s) (public_of L sk))"
    "wire_of_json L key = Some (PeerKey (ClientId s) (ClientId s') (public_of L sk))"
    using decode [OF _ sent(2)] decode [OF _ sent(3)] valid key by simp_all
  have "within_limit hello" "within_limit key"
    using assms(2) valid key sent(2,3) unfolding control_fits_def by blast+
  then show thesis
    using that [OF new(1) sent(1)] sent(3) d assms(3) by (simp add: hello_frame_def key_text_def passes_def)
qed

lemma chat_opens:
  assumes laws: "x25519_agrees L" "json_wire_roundtrip L" "lowers L" "control_fits L" "passes sock" and net: "\<And>sent. net sent"
    and a: "run_start L reach_a net ska args_a = Ok a" "ar_rekey_after args_a = None" "wf_public_key (public_of L ska)"
    and b: "run_start L reach_b net skb args_b = Ok b" "ar_rekey_after args_b = None" "wf_public_key (public_of L skb)"
    and peers: "ar_peer args_a = ar_id args_b" "ar_peer args_b = ar_id args_a" "ar_id args_a \<noteq> ar_id args_b"
    and pins: "pin_fits L args_a (public_of L skb)" "pin_fits L args_b (public_of L ska)" and n: "n < 2 ^ 32 - 1"
    and p: "p = (0, ClientId (ar_id args_a))" and q: "q = (1, ClientId (ar_id args_b))"
  obtains ops w a1 b1 w1 where "arrive L sock a b = Some (ops, w)"
    and "relay_reach in_memory_message_router noop_event_hook noop_auth_provider L default_relay ops w"
    and "meet L noop_event_hook sock net rg p q (a, b, w) = (a1, b1, w1)" and "in_touch L n 0 p q (a1, b1, w1)"
    and "shown_lines (cl_output a1) = []" and "shown_lines (cl_output b1) = []"
proof -
  let ?i = "ClientId (ar_id args_a)" and ?j = "ClientId (ar_id args_b)"
  obtain ha xa where sa: "newcomer L ska ?i ?j a" "cl_sent a = [ha, xa]" "hello_frame L (sock ha) = HelloFrom ?i"
    "key_text L ska ?i ?j xa" "sock xa = TextFrame xa" by (rule started [OF laws(2,4,5) a refl peers(1)])
  obtain hb xb where sb: "newcomer L skb ?j ?i b" "cl_sent b = [hb, xb]" "hello_frame L (sock hb) = HelloFrom ?j"
    "key_text L skb ?j ?i xb" by (rule started [OF laws(2,4,5) b refl peers(2)])
  have ij: "?i \<noteq> ?j" using peers(3) by simp
  have xa: "wire_of_json L xa = Some (PeerKey ?i ?j (public_of L ska))" using sa(4) by (simp add: key_text_def)
  obtain ops w where arr: "arrive L sock a b = Some (ops, w)" "relay_ready p q w"
    "relay_reach in_memory_message_router noop_event_hook noop_auth_provider L default_relay ops w"
    unfolding p q by (rule arrive_ready [OF ij sa(2,3,5) xa sb(2,3)])
  have accepts: "pin_accepts L (cl_session a) (public_of L skb)" "pin_accepts L (cl_session b) (public_of L ska)"
    using run_start_newcomer(3) [OF a(1,2) pins(1) laws(3)] run_start_newcomer(3) [OF b(1,2) pins(2) laws(3)] by simp_all
  have new: "newcomer L ska (snd p) (snd q) a" "newcomer L skb (snd q) (snd p) b" and
    texts: "key_text L ska (snd p) (snd q) xa" "key_text L skb (snd q) (snd p) xb" and last: "last (cl_sent b) = xb"
    using sa sb by (simp_all add: p q)
  obtain a1 b1 w1 where m: "meet L noop_event_hook sock net rg p q (a, b, w) = (a1, b1, w1)" "relay_ready p q w1"
    "met L ska skb (snd p) (snd q) a1" "met L skb ska (snd q) (snd p) b1"
    "shown_lines (cl_output a1) = shown_lines (cl_output a)" "shown_lines (cl_output b1) = shown_lines (cl_output b)"
    by (rule meet_opens [where net = net and H = noop_event_hook and rg = rg, OF arr(2) new accepts texts laws(5) last net])
  have "in_touch L n 0 p q (a1, b1, w1)"
    by (rule met_in_touch [OF laws(1) m(2-4) _ _ n]) (use new in \<open>simp_all add: newcomer_def\<close>)
  then show thesis
    using that [OF arr(1,3) m(1)] m(5,6) run_start_fresh(3) [OF a(1)] run_start_fresh(3) [OF b(1)] by simp
qed

lemma chat_converses:
  assumes laws: "crypto_laws L" "json_wire_roundtrip L" "digest_lengths L" "lowers L" "control_fits L" "passes sock"
    and net: "\<And>sent. net sent"
    and a: "run_start L reach_a net ska args_a = Ok a" "ar_rekey_after args_a = None" "wf_public_key (public_of L ska)"
    and b: "run_start L reach_b net skb args_b = Ok b" "ar_rekey_after args_b = None" "wf_public_key (public_of L skb)"
    and peers: "ar_peer args_a = ar_id args_b" "ar_peer args_b = ar_id args_a" "ar_id args_a \<noteq> ar_id args_b"
    and pins: "pin_fits L args_a (public_of L skb)" "pin_fits L args_b (public_of L ska)"
    and script: "script_fits L script" "length script < 2 ^ 32 - 1"
  shows "\<exists>a' b' ops w. chat L sock net rg script a b = Some (a', b', w) \<and>
    relay_reach in_memory_message_router noop_event_hook noop_auth_provider L default_relay ops w \<and>
    shown_lines (cl_output b') = said AtFirst script \<and> shown_lines (cl_output a') = said AtSecond script \<and>
    in_touch L 0 (rekeys script) (0, ClientId (ar_id args_a)) (1, ClientId (ar_id args_b)) (a', b', w)"
proof -
  let ?p = "(0, ClientId (ar_id args_a))" and ?q = "(1, ClientId (ar_id args_b))"
  have x: "x25519_agrees L" using laws(1) by (simp add: crypto_laws_def)
  obtain ops w a1 b1 w1 where op: "arrive L sock a b = Some (ops, w)"
    "relay_reach in_memory_message_router noop_event_hook noop_auth_provider L default_relay ops w"
    "meet L noop_event_hook sock net rg ?p ?q (a, b, w) = (a1, b1, w1)"
    "in_touch L (length script) 0 ?p ?q (a1, b1, w1)" "shown_lines (cl_output a1) = []" "shown_lines (cl_output b1) = []"
    by (rule chat_opens [where net = net and rg = rg, OF x laws(2,4,5,6) net a b peers pins script(2) refl refl])
  obtain a' b' w2 where c: "converse L noop_event_hook sock net ?p ?q script (a1, b1, w1) = (a', b', w2)" by (metis prod_cases3)
  obtain ops1 where w1: "relay_reach in_memory_message_router noop_event_hook noop_auth_provider L default_relay ops1 w1"
    using meet_run [OF op(2,3)] by blast
  obtain ops2 where w2: "relay_reach in_memory_message_router noop_event_hook noop_auth_provider L default_relay ops2 w2"
    using converse_run [OF w1 c] by blast
  have "as_str (cs_local_id (cl_session a)) = ar_id args_a" "as_str (cs_local_id (cl_session b)) = ar_id args_b"
    using run_start_ids(1) a(1) b(1) by blast+
  then have ids: "cs_local_id (cl_session a) = ClientId (ar_id args_a)" "cs_local_id (cl_session b) = ClientId (ar_id args_b)"
    by (metis as_str.simps client_id.exhaust)+
  have "chat L sock net rg script a b = Some (a', b', w2)" using op(1,3) c by (simp add: chat_def ids Let_def)
  moreover have "in_touch L (0 + length script) 0 ?p ?q (a1, b1, w1)" using op(4) by simp
  note converse_shown [where net = net, OF laws(1-3,5,6) net this script(1) c]
  ultimately show ?thesis using op(5,6) w2 by auto
qed

end
