(* ===== verification/Chat_Scenario.thy ===== *)
theory Chat_Scenario
  imports Chat_Start Scenario
begin

text \<open>
  The concrete instance of the third-party code keeps to the size limit of the relay: its control messages
  and its envelopes of short payloads have texts of at most 64 KiB.
\<close>

lemma length_as_bytes: "length (as_bytes t) \<le> 4 * length t"
  by (induction t) (auto simp: as_bytes_def utf8_encode_char_def)

lemma length_id_bytes:
  assumes "valid_client_id c"
  shows "length (as_str c) \<le> 64" and "length (as_bytes (as_str c)) \<le> 64"
proof -
  have c: "length (as_str c) \<le> 64" "is_ascii (as_str c)"
    using assms allowed_char_ascii by (auto simp: valid_client_id_iff is_ascii_def)
  then show "length (as_str c) \<le> 64" "length (as_bytes (as_str c)) \<le> 64" by (simp_all add: length_as_bytes_ascii)
qed

lemma toy_text_limit: "json_of_wire toy_crates e = Some t \<Longrightarrow> length (toy_wire_toks e) \<le> 16384 \<Longrightarrow> within_limit t"
  using length_as_bytes [of t] by (auto simp: within_limit_def toy_crates_def MAX_EVENT_BYTES_def)

text \<open>An envelope grows with its payload.\<close>

lemma toy_envelope_length:
  assumes ids: "valid_ids s" and prefix: "outbound_nonce_prefix s = nonce_prefix toy_crates (local_id s) (peer_id s)"
    and enc: "encrypt_payload toy_crates mid p s = (Ok env, s')"
  shows "length (toy_wire_toks (EncryptedMessage env)) \<le> 8362 + 9 * length (toy_payload_toks p)"
proof -
  note l = length_id_bytes [of "local_id s"] length_id_bytes [of "peer_id s"]
  have v: "valid_client_id (local_id s)" "valid_client_id (peer_id s)" using ids by (simp_all add: valid_ids_def)
  let ?n = "outbound_nonce_prefix s @ be_bytes 8 (next_outbound_nonce s + 1)"
  let ?a = "toy_aad \<lparr>ad_version = PROTOCOL_VERSION, ad_sender = local_id s, ad_recipient = peer_id s, ad_message_id = mid,
    ad_epoch = epoch s\<rparr>"
  obtain k where k: "cipher_for toy_crates (epoch s) s = Ok k" "length k = 32"
    by (simp add: cipher_for_def toy_crates_def ok_or_def)
  have env: "env = \<lparr>env_sender = local_id s, env_recipient = peer_id s, env_message_id = mid,
      env_epoch = epoch s, env_nonce = NonceBytes ?n,
      env_ciphertext = Ciphertext (toy_seal k ?n ?a @ map of_nat (toy_payload_toks p))\<rparr>"
    using enc k(1) by (auto simp: encrypt_payload_def and_then_eq_Ok_iff encrypt_Ok_iff associated_data_for_def
        toy_crates_def toy_encrypt_def ok_or_def)
  have n: "length ?n = 24" unfolding prefix nonce_prefix_def by (simp add: toy_crates_def)
  have a: "length ?a \<le> 151" using l(2,4) v by (simp add: toy_aad_def)
  have c: "length (toy_seal k ?n ?a @ map of_nat (toy_payload_toks p)) \<le> 417 + length (toy_payload_toks p)"
    using n a k(2) by (simp add: toy_seal_def toy_frame_def)
  have "length (toy_wire_toks (EncryptedMessage env)) =
      1 + (33 * length (as_str (local_id s)) + 1) + (33 * length (as_str (peer_id s)) + 1) + 130 + 34 + 217 +
      (9 * length (toy_seal k ?n ?a @ map of_nat (toy_payload_toks p)) + 1)"
    using n by (simp add: toy_wire_toks_def env length_toks split: message_id.split)
  then show ?thesis using c l(1,3) v by simp
qed

lemma toy_sealed_fits: "length (toy_payload_toks p) \<le> 800 \<Longrightarrow> sealed_fits toy_crates p"
  unfolding sealed_fits_def using toy_envelope_length [of _ _ p] by (fastforce intro: toy_text_limit)

lemma toy_control_fits: "control_fits toy_crates"
proof -
  have "within_limit t"
    if "valid_client_id i" "valid_client_id j" "wf_public_key k"
      "json_of_wire toy_crates (ClientHello i k) = Some t \<or> json_of_wire toy_crates (PeerKey i j k) = Some t" for i j k t
    using that length_id_bytes [of i] length_id_bytes [of j]
    by (elim disjE; intro toy_text_limit) (auto simp: toy_wire_toks_def length_toks wf_public_key_def)
  moreover have "sealed_fits toy_crates (RekeyRequest r k)" "sealed_fits toy_crates (RekeyResponse r k)"
    if "wf_rekey_id r" "wf_public_key k" for r k
    using that by (auto intro!: toy_sealed_fits simp: toy_payload_toks_def length_toks wf_rekey_id_def wf_public_key_def)
  ultimately show ?thesis unfolding control_fits_def by blast
qed

lemma toy_line_fits:
  assumes "line \<noteq> []" and "line \<noteq> str ''/rekey''" and "length line \<le> 20"
  shows "line_fits toy_crates line \<and> sealed_fits toy_crates (Chat line)"
proof
  have l: "length (toy_payload_toks (Chat line)) \<le> 800"
    using assms(3) by (simp add: toy_payload_toks_def length_toks)
  then show "line_fits toy_crates line" using assms(1,2) by (auto simp: line_fits_def toy_crates_def aead_max_len_def)
  show "sealed_fits toy_crates (Chat line)" by (rule toy_sealed_fits [OF l])
qed

end
