(* ===== verification/Spec2Isabelle.thy ===== *)
theory Spec2Isabelle
  imports Properties_Core Properties_Crypto Properties_Client Properties_Server Properties_Network Chat_Scenario
begin

text \<open>
  Verification of e2e-chat-rs: an end-to-end encrypted chat in Rust with a shared protocol crate, a
  relay server and a command line client.

  \<^bold>\<open>The program.\<close> Two clients connect to a relay over WebSocket. Each announces itself with a
  \<open>ClientHello\<close> and offers its X25519 public key to its peer in a \<open>PeerKey\<close> event. A client that has
  accepted its peer's key holds a \<open>CryptoSession\<close>, which seals chat lines and rekey messages in
  envelopes (\<open>EncryptedMessage\<close>) with per-epoch keys, a counter nonce and an authenticated header. The
  relay routes events by client id through one outbox per client, acknowledges encrypted messages to
  their sender and pushes outboxes into bounded queues, one per connection. It sees no plaintext.

  \<^bold>\<open>Theories, source files and state.\<close>
  \<^item> \<open>Prelude\<close>: machine integers with checked, panicking or wrapping addition, results with a \<open>Panic\<close>
    outcome, sequencing of fallible operations on a state, UTF-8 strings as lists of scalar values.
  \<^item> \<open>Types\<close> (\<open>chat-core/src/types.rs\<close>): \<open>client_id_parse\<close> and the byte newtypes with their base64
    instances; the locale \<open>byte_codec\<close> states their common contract and is interpreted four times.
  \<^item> \<open>Event\<close> (\<open>event.rs\<close>), \<open>Nonce\<close> (\<open>nonce.rs\<close>, locale \<open>replay_filter\<close>), \<open>Service\<close> (\<open>service.rs\<close>,
    traits as records of operations).
  \<^item> \<open>Crates\<close>: the third-party code as one record \<open>crates\<close>, an argument of every definition that calls
    it, with its documented behaviour as named predicates, and a concrete instance for the witnesses.
  \<^item> \<open>Crypto\<close> (\<open>crypto.rs\<close>): \<open>crypto_session\<close> and every method of \<open>CryptoSession\<close>. \<open>Crypto_Props\<close> has the
    outcome of each operation on every branch, \<open>Crypto_Runs\<close> whole runs as a labelled step relation,
    \<open>Crypto_Pair\<close>, \<open>Crypto_Rekey\<close> and \<open>Crypto_Handshake\<close> two sessions that talk to each other.
  \<^item> \<open>Client_Session\<close> (\<open>chat-client/src/session.rs\<close>) and \<open>Client_Main\<close> (\<open>main.rs\<close>): the client's session
    and its event loop, one function per branch of \<open>tokio::select!\<close>. \<open>Client_Props\<close>, \<open>Client_Pair\<close> and
    \<open>Client_Cli\<close> have their invariants and the behaviour of two clients; \<open>Conversation\<close> follows one chat line
    from one client to the other. \<open>Network_Runs\<close> and \<open>Network\<close> put two clients on a network an attacker
    controls: what each iteration of a client means for its crypto session, and the world of both.
  \<^item> \<open>Router\<close> (\<open>chat-server/src/router.rs\<close>): \<open>InMemoryRouter\<close>, and the contract of \<open>MessageRouter\<close> as the
    locale \<open>relay_router\<close>, of which it is an interpretation.
  \<^item> \<open>Server\<close> (\<open>ws.rs\<close>): its functions as they run alone, and \<open>handle_socket\<close> as a program with control
    points, one step per lock section, channel operation or await; \<open>relay_step\<close> interleaves any number
    of such tasks with their writers. \<open>Server_Props\<close>, \<open>Server_Delivery\<close>, \<open>Server_Once\<close> and \<open>Server_Flush\<close>
    prove the invariants, the counting argument and the delivery results inside the locale
    \<open>relay_router\<close>; \<open>Server_Race\<close> and \<open>Server_Reorder\<close> have an executable scheduler and two schedules that
    exhibit races. \<open>Server_Main\<close> has \<open>ws_handler\<close> and the server binary (\<open>chat-server/src/main.rs\<close>), with the
    web framework's upgrade object as a parameter.
  \<^item> \<open>Server_Settle\<close>: the steps of the relay that need no input end, by a measure on all tasks and queues.
  \<^item> \<open>Chat_System\<close>, \<open>Chat_Schedule\<close>, \<open>Chat_Start\<close>: two clients and the relay as one system. The first runs
    scripts of typed lines through client, relay and client, the size limit of the sockets included; the
    second shows that what it takes the relay to do is a schedule of \<open>relay_step\<close>; the third starts both
    clients from their arguments, lets them connect to a new relay and exchange keys. \<open>Chat_Scenario\<close> has the
    sizes of the concrete instance.
  \<^item> \<open>Scenario\<close>: a concrete conversation for the witnesses. The \<open>Properties_\<close> theories and this one state
    the properties.

  A method with \<open>&mut self\<close> becomes a function that returns its result and the new state, also on
  failure, so that early returns with \<open>?\<close> keep what was already changed. Random values (secrets, rekey
  and message ids) are arguments. An addition that may overflow panics or wraps as the field
  \<open>overflow_checks\<close> says, which covers debug and release builds.

  \<^bold>\<open>What is proved.\<close>
  \<^item> End to end: a typed line reaches the other screen (C1); on a hostile network every line a pinned
    client shows was typed at the other client, and no more often (C2); from start-up through key exchange
    and any script of lines within the size limit and rekeys, a conversation appears on both screens (C3); a rekey completes
    (C4), an automatic rekey starts at its threshold (C30).
  \<^item> Crypto session: no replay (C5), no nonce reuse (C6, C31), authenticated headers (C7), any order of
    arrival (C13), the full decision of \<open>decrypt\<close> against a reference (C27), bounded replay state (C28), key
    separation (C32).
  \<^item> Relay, under every interleaving: nothing is forged or misdelivered (C8), nothing is handed out twice
    (C9), ids are exclusive (C10), queues are bounded (C17). Its functions: delivery and acknowledgement
    (C14), the router as a queue per client (C15), the tasks refine the functions (C16), slow clients
    (C18), oversized events (C19). Without input it comes to rest in a tidy state (C38).
  \<^item> Client: pinning (C11), it speaks only for itself (C12), the first acceptable key wins (C29), no inbound
    message ends it while sends succeed, the overflow of C26 apart (C39).
  \<^item> Wire formats: identities (C33), byte newtypes (C34, C35), error codes (C36), fingerprints (C37).
  \<^item> Behaviour that differs from what the design documents describe or intend: messages in flight are
    lost at a rekey (C20), a reconnecting client can lose its new table entry (C21), the relay can swap
    two messages of one client (C22), and a line that overtakes a rekey response that way is lost (C23), a
    pending handshake is never given up (C24), crossing handshakes block each other (C25), an envelope
    with the largest epoch makes a build with overflow checks panic (C26), a second \<open>/rekey\<close> ends the client
    (C40).

  \<^bold>\<open>Bounds and fuel.\<close> Nothing uses fuel: every function is total by structural recursion, and endless
  loops (the select loops of the relay and the client) are step relations or functions over a finite
  list of inputs of any length. The queue capacity is the 256 and the size limit the 65536 of the source,
  counters keep their 32 and 64 bits. C2, C5 and C28 assume fewer than \<open>2 ^ 32\<close> steps for a build without
  overflow checks, where the epoch would otherwise wrap around (C2 counts four steps of the crypto
  session for an input of a client). C3 takes scripts of fewer than \<open>2 ^ 32 - 1\<close> items, so that no epoch runs out.

  \<^bold>\<open>Assumptions on third-party code\<close> are hypotheses of the theorems that need them: \<open>base64_roundtrip\<close>,
  \<open>digest_lengths\<close>, \<open>x25519_agrees\<close>, \<open>kdf_total\<close>, \<open>aead_key_injective\<close>, \<open>aead_correct\<close>, \<open>aead_authentic\<close> (the ideal
  integrity of an AEAD that commits to its key), \<open>json_payload_roundtrip\<close>, \<open>json_control_short\<close>, \<open>json_aad_injective\<close>, \<open>json_wire_roundtrip\<close>,
  \<open>json_payload_faithful\<close>, \<open>json_envelope_faithful\<close>, \<open>lowers\<close> (lowercasing yields no ASCII capital) and
  \<open>control_fits\<close> (control messages have texts within 64 KiB). One concrete instance satisfies all of them. C20
  assumes of the two master secrets that the key derivation tells them apart (\<open>kdf_tells_apart\<close>). \<open>frames_limited\<close> is what the web framework does with the size
  limits it is given. C2 assumes of the attacker \<open>no_forgery\<close>: it delivers no ciphertext that opens under a
  session key of the two clients and was not sealed by one of them.

  \<^bold>\<open>Not modelled\<close>: TCP, TLS and the HTTP part of the upgrade, argument parsing by clap, log output,
  zeroization of secrets, the random generators, fairness of the scheduler, and code that exists only
  in test builds. Cloning \<open>ServerState\<close> clones shared pointers: all tasks of the model work on one state.
  The channels, the spawning and the aborting of the asynchronous runtime are written out by their documented
  behaviour: \<open>try_send\<close> and \<open>close_send\<close> on a bounded and an unbounded queue, a close request counted even when
  nobody is left to read it. An aborted writer stops at once, where the runtime lets it run to its next
  await, and the rejection text of a refused connection is always sent.
\<close>

section \<open>A message from keyboard to screen\<close>

text \<open>What the relay needs for a line to get through.\<close>

definition relay_serves :: "client_id \<Rightarrow> client_id \<Rightarrow> (in_memory_router, 'h, 'a) server_state \<Rightarrow> bool" where
  "relay_serves i j st \<longleftrightarrow>
     i \<noteq> j \<and> {i, j} \<subseteq> imr_clients (ss_router st) \<and>
     (case (ss_connections st i, ss_connections st j) of
        (Some hi, Some hj) \<Rightarrow> hi \<noteq> hj \<and>
          has_room hi (length (imr_pending (ss_router st) i) + 1) st \<and>
          has_room hj (length (imr_pending (ss_router st) j) + 1) st
      | _ \<Rightarrow> False)"

text \<open>
  C1: A typed line arrives. When Alice's and Bob's clients hold sessions in agreement and the relay has
  both connected with room in their queues, a line Alice types is sent as one encrypted envelope. The
  relay's upgraded socket and its task decode it when its text has at most 64 KiB, and end Alice's
  connection when it is longer. Routing it queues it for Bob behind what already waits for him and queues
  exactly one acknowledgement for Alice, disturbing nobody else; and the text of that queued event makes
  Bob's client print exactly the line, once, sending nothing, with the two sessions again in agreement.
\<close>

theorem chat_end_to_end:
  assumes "crypto_laws L" and "json_wire_roundtrip L" and "digest_lengths L"
    and "ready_pair L c d" and "line_fits L line" and "\<And>sent. net sent"
    and "relay_serves (cs_local_id (cl_session c)) (cs_peer_id (cl_session c)) st"
    and "ss_connections st (cs_local_id (cl_session c)) = Some hi"
    and "ss_connections st (cs_peer_id (cl_session c)) = Some hj" and "frames_limited F"
  shows "\<exists>env x c' st' d'.
    cli_step L net rg (Line (Some (Some line))) c = (Ok Continue, c') \<and> cl_sent c' = cl_sent c @ [x] \<and>
    loop_frame L (ws_handler F ws x) =
      (if length (as_bytes x) \<le> 65536 then FrameEvent (EncryptedMessage env) else FrameBreak) \<and>
    route_and_flush in_memory_message_router H (cs_local_id (cl_session c)) (EncryptedMessage env) st = (Ok (), st') \<and>
    queue hj st' = queue hj st @ imr_pending (ss_router st) (cs_peer_id (cl_session c)) @ [EncryptedMessage env] \<and>
    queue hi st' = queue hi st @ imr_pending (ss_router st) (cs_local_id (cl_session c)) @ [Ack (rg_message_id rg)] \<and>
    (\<forall>h. h \<noteq> hi \<longrightarrow> h \<noteq> hj \<longrightarrow> queue h st' = queue h st) \<and>
    json_of_wire L (EncryptedMessage env) = Some x \<and>
    cli_step L net rg' (Socket (Some (Some (WsText x)))) d = (Ok Continue, d') \<and>
    cl_output d' = cl_output d @ [ChatLine line] \<and> cl_sent d' = cl_sent d \<and>
    linked (cl_session c') (cl_session d')"
proof -
  let ?i = "cs_local_id (cl_session c)" and ?j = "cs_peer_id (cl_session c)"
  obtain env c' x where e: "cli_step L net rg (Line (Some (Some line))) c = (Ok Continue, c')"
    "cl_sent c' = cl_sent c @ [x]" "json_of_wire L (EncryptedMessage env) = Some x"
    "wire_of_json L x = Some (EncryptedMessage env)" "env_sender env = ?i" "env_recipient env = ?j"
    "env_message_id env = rg_message_id rg"
    "client_encrypt_payload L (rg_message_id rg) (Chat line) (cl_session c) = (Ok (EncryptedMessage env), cl_session c')"
    "cl_output c' = cl_output c"
    by (rule line_typed [OF assms(1-6)])
  obtain d' where d': "cli_step L net rg' (Socket (Some (Some (WsText x)))) d = (Ok Continue, d')"
    "cl_output d' = cl_output d @ [ChatLine line]" "cl_sent d' = cl_sent d" "linked (cl_session c') (cl_session d')"
    using line_shown [OF assms(1,4) e(8,4)] by blast
  have serve: "?j \<noteq> ?i" "{?i, ?j} \<subseteq> imr_clients (ss_router st)" "hj \<noteq> hi"
    "has_room hi (length (imr_pending (ss_router st) ?i) + 1) st"
    "has_room hj (length (imr_pending (ss_router st) ?j) + 1) st"
    using assms(7-9) by (auto simp: relay_serves_def)
  have ok: "route_outcome ?i (EncryptedMessage env) (imr_clients (ss_router st)) = Ok ?j"
    using serve(2) e(5,6) by (simp add: route_outcome_Ok_iff)
  obtain r st' where r: "route_and_flush in_memory_message_router H ?i (EncryptedMessage env) st = (r, st')" by fastforce
  have "loop_frame L (ws_handler F ws x) =
      (if length (as_bytes x) \<le> 65536 then FrameEvent (EncryptedMessage env) else FrameBreak)"
    by (simp add: handler_loop_frame [OF assms(10)] e(4) MAX_EVENT_BYTES_def)
  moreover note imr.route_message_delivers [OF ok serve(1) assms(9,8) serve(3,5,4) r]
  ultimately show ?thesis using e(1-3,7) d' r by auto
qed

definition cli_b :: cli where
  "cli_b = \<lparr>cl_session = client_b, cl_pinned = None, cl_sent = [], cl_output = []\<rparr>"

theorem chat_end_to_end_witness:
  "\<exists>x c' d'. cli_step toy_crates (\<lambda>_. True) rng0 (Line (Some (Some hello_line))) cli_a = (Ok Continue, c') \<and>
     cl_sent c' = [x] \<and>
     cli_step toy_crates (\<lambda>_. True) rng0 (Socket (Some (Some (WsText x)))) cli_b = (Ok Continue, d') \<and>
     cl_output d' = [ChatLine hello_line]"
proof -
  have pair: "ready_pair toy_crates cli_a cli_b"
    using clients_linked client_a_inv by (simp add: ready_pair_def cli_a_def cli_b_def)
  have fits: "line_fits toy_crates hello_line"
    using hello_line_short by (auto simp: line_fits_def hello_line_def str_def)
  have serve: "relay_serves (cs_local_id (cl_session cli_a)) (cs_peer_id (cl_session cli_a)) two_clients"
    using two_clients_facts by (simp add: relay_serves_def cli_a_def)
  have conn: "ss_connections two_clients (cs_local_id (cl_session cli_a)) = Some 0"
    "ss_connections two_clients (cs_peer_id (cl_session cli_a)) = Some 1"
    using two_clients_facts by (simp_all add: cli_a_def)
  from chat_end_to_end [OF toy_crypto_laws toy_json_wire_roundtrip toy_digest_lengths pair fits TrueI serve conn
      limits_framework_limited, of rng0 "(0, 0)" noop_event_hook rng0]
  obtain x c' d' where "cli_step toy_crates (\<lambda>_. True) rng0 (Line (Some (Some hello_line))) cli_a = (Ok Continue, c')"
    "cl_sent c' = cl_sent cli_a @ [x]"
    "cli_step toy_crates (\<lambda>_. True) rng0 (Socket (Some (Some (WsText x)))) cli_b = (Ok Continue, d')"
    "cl_output d' = cl_output cli_b @ [ChatLine hello_line]" by blast
  then show ?thesis by (auto simp: cli_a_def cli_b_def)
qed

section \<open>A conversation from start-up\<close>





end
